(* ===== verification/Prelude.thy ===== *)
theory Prelude
  imports Main "HOL-Library.List_Lexorder" "HOL-Library.Char_ord"
    "HOL-Library.Product_Lexorder" "HOL-Library.Option_ord" "HOL-Library.Word"
begin

text \<open>
  What every component shares: the collections of facts the component proofs draw on, the
  model's basic types, and generic lemmas on lists, options and folds.

  A Rust \<open>String\<close> is a \<^typ>\<open>string\<close> here, read as its UTF-8 bytes: \<open>len()\<close> is
  \<^const>\<open>length\<close>, equality and the order of strings are those of the byte sequences
  (\<open>List_Lexorder\<close> over \<open>Char_ord\<close>), as in Rust. Where the source iterates over
  \<open>chars()\<close>, the model goes through \<open>chars\<close> of theory \<open>RustStd\<close>. A Rust
  \<open>Result<T, E>\<close> is \<open>'e + 't\<close> with \<open>Inl\<close> for \<open>Err\<close>; \<open>Option<T>\<close> is
  \<open>'t option\<close>; a \<open>HashMap\<close> whose iteration order does not matter is a map
  \<open>'k \<rightharpoonup> 'v\<close>; timestamps are seconds since the epoch.
\<close>

named_theorems rust_defs \<open>definitions of the modelled standard library functions\<close>
named_theorems names_simps \<open>facts about device names\<close>
named_theorems log_simps \<open>how operations extend the log of API calls\<close>

type_synonym u8 = "8 word"
type_synonym u16 = "16 word"
type_synonym u32 = "32 word"
type_synonym u64 = "64 word"
type_synonym bytes = string
type_synonym seconds = int

text \<open>The byte value of a character.\<close>

abbreviation code :: "char \<Rightarrow> nat" where
  "code c \<equiv> of_char c"

section \<open>Lists and folds\<close>

lemma fold_invariant_set:
  assumes "P s" and "\<And>x s. x \<in> set xs \<Longrightarrow> P s \<Longrightarrow> P (f x s)"
  shows "P (fold f xs s)"
  using assms by (induction xs arbitrary: s) auto

lemma foldl_snoc_concat: "foldl (\<lambda>acc x. acc @ f x) a xs = a @ concat (map f xs)"
  by (induction xs arbitrary: a) auto

lemma last_snoc_eq [simp]: "xs \<noteq> [] \<Longrightarrow> last (x # xs) = last xs"
  by simp

lemma takeWhile_append_stop: "(\<forall>x \<in> set xs. P x) \<Longrightarrow> \<not> P y \<Longrightarrow> takeWhile P (xs @ y # ys) = xs"
  by (induction xs) auto

lemma dropWhile_append_stop: "(\<forall>x \<in> set xs. P x) \<Longrightarrow> \<not> P y \<Longrightarrow> dropWhile P (xs @ y # ys) = y # ys"
  by (induction xs) auto

lemma append_Cons_eq_sep:
  assumes "x \<notin> set a" and "x \<notin> set c" and "a @ x # b = c @ x # d"
  shows "a = c \<and> b = d"
  using assms
proof (induction a arbitrary: c)
  case Nil
  then show ?case by (cases c) auto
next
  case (Cons y a)
  then show ?case by (cases c) auto
qed

lemma length_concat_le:
  assumes "\<And>x. x \<in> set xs \<Longrightarrow> length x \<le> k"
  shows "length (concat xs) \<le> length xs * k"
  using assms by (induction xs) (auto simp: add_mono)

lemma find_SomeD: "find P xs = Some x \<Longrightarrow> x \<in> set xs \<and> P x"
  by (induction xs) (auto split: if_splits)

lemma key_in_filter:
  "distinct (map f xs) \<Longrightarrow> x \<in> set xs \<Longrightarrow> f x \<in> f ` set (filter P xs) \<longleftrightarrow> P x"
  using inj_on_image_mem_iff [of f "set xs" x "set (filter P xs)"] by (simp add: distinct_map)

lemma key_unique: "distinct (map f xs) \<Longrightarrow> x \<in> set xs \<Longrightarrow> y \<in> set xs \<Longrightarrow> f x = f y \<Longrightarrow> x = y"
  by (meson distinct_map inj_onD)

section \<open>Options and maps\<close>

lemma option_filter_Some [simp]:
  "(case x of None \<Rightarrow> None | Some y \<Rightarrow> if P y then Some y else None) = Some z \<longleftrightarrow> x = Some z \<and> P z"
  by (auto split: option.splits if_splits)

text \<open>\<open>Option::is_some_and\<close> and \<open>Option::is_none_or\<close>.\<close>

fun is_some_and :: "('a \<Rightarrow> bool) \<Rightarrow> 'a option \<Rightarrow> bool" where
  "is_some_and P None = False"
| "is_some_and P (Some x) = P x"

fun is_none_or :: "('a \<Rightarrow> bool) \<Rightarrow> 'a option \<Rightarrow> bool" where
  "is_none_or P None = True"
| "is_none_or P (Some x) = P x"

lemma is_some_and_iff: "is_some_and P x \<longleftrightarrow> (\<exists>y. x = Some y \<and> P y)"
  by (cases x) auto

lemma is_none_or_iff: "is_none_or P x \<longleftrightarrow> (\<forall>y. x = Some y \<longrightarrow> P y)"
  by (cases x) auto

lemma map_of_append_not_in: "k \<notin> fst ` set xs \<Longrightarrow> map_of (xs @ ys) k = map_of ys k"
  by (induction xs) auto

text \<open>The later of two bindings of one key wins when a \<open>HashMap\<close> is collected from a list.\<close>

definition collect_map :: "('k \<times> 'v) list \<Rightarrow> ('k \<rightharpoonup> 'v)" where
  "collect_map kvs = map_of (rev kvs)"

lemma collect_map_Nil [simp]: "collect_map [] = Map.empty"
  by (simp add: collect_map_def)

lemma collect_map_SomeD: "collect_map kvs k = Some v \<Longrightarrow> (k, v) \<in> set kvs"
  by (auto simp: collect_map_def dest: map_of_SomeD)

lemma collect_map_dom: "dom (collect_map kvs) = fst ` set kvs"
  by (simp add: collect_map_def dom_map_of_conv_image_fst)

lemma collect_map_distinct:
  "distinct (map fst kvs) \<Longrightarrow> (k, v) \<in> set kvs \<Longrightarrow> collect_map kvs k = Some v"
  by (auto simp: collect_map_def rev_map [symmetric] intro!: map_of_is_SomeI)

text \<open>\<open>HashMap::retain\<close>.\<close>

definition retain :: "('k \<Rightarrow> 'v \<Rightarrow> bool) \<Rightarrow> ('k \<rightharpoonup> 'v) \<Rightarrow> ('k \<rightharpoonup> 'v)" where
  "retain P m = (\<lambda>k. case m k of None \<Rightarrow> None | Some v \<Rightarrow> if P k v then Some v else None)"

lemma retain_Some [simp]: "retain P m k = Some v \<longleftrightarrow> m k = Some v \<and> P k v"
  by (auto simp: retain_def split: option.splits)

lemma retain_None: "retain P m k = None \<longleftrightarrow> (\<forall>v. m k = Some v \<longrightarrow> \<not> P k v)"
  by (auto simp: retain_def split: option.splits)

section \<open>Passes that hand out exclusive resources\<close>

text \<open>
  Several loops of the program walk over requesters and hand each at most one resource: the
  agent's loop that keeps existing names, the controller's three loops over usbredir slots. Their
  common contract: a step gives the requester a resource that was not in use and records it, or
  it gives nothing (the requester may even lose what it had). Such a pass never gives one resource
  to two requesters, and when it treats every requester once, the resources in use are exactly
  those granted.
\<close>

locale grant_pass =
  fixes step :: "'i \<Rightarrow> 's \<Rightarrow> 's"
    and requester :: "'i \<Rightarrow> 'k"
    and granted :: "'s \<Rightarrow> 'k \<rightharpoonup> 'r"
    and in_use :: "'s \<Rightarrow> 'r set"
  assumes step_cases:
    "(in_use (step i s) = in_use s \<and>
       (granted (step i s) = granted s \<or> granted (step i s) = (granted s)(requester i := None))) \<or>
     (\<exists>r. r \<notin> in_use s \<and> granted (step i s) = (granted s)(requester i \<mapsto> r) \<and>
        in_use (step i s) = insert r (in_use s))"
begin

definition exclusive :: "'s \<Rightarrow> bool" where
  "exclusive s \<longleftrightarrow> (\<forall>k r. granted s k = Some r \<longrightarrow> r \<in> in_use s) \<and>
     (\<forall>j k r. granted s j = Some r \<longrightarrow> granted s k = Some r \<longrightarrow> j = k)"

definition backed :: "'s \<Rightarrow> bool" where
  "backed s \<longleftrightarrow> in_use s = ran (granted s)"

lemma exclusive_step: "exclusive s \<Longrightarrow> exclusive (step i s)"
  using step_cases [of i s] by (fastforce simp: exclusive_def split: if_splits)

lemma exclusive_fold: "exclusive s \<Longrightarrow> exclusive (fold step is s)"
  by (rule fold_invariant_set) (auto intro: exclusive_step)

lemma in_use_step: "in_use s \<subseteq> in_use (step i s)"
  using step_cases [of i s] by auto

lemma in_use_fold: "in_use s \<subseteq> in_use (fold step is s)"
  by (rule fold_invariant_set [where P = "\<lambda>t. in_use s \<subseteq> in_use t"]) (use in_use_step in blast)+

lemma granted_other: "k \<noteq> requester i \<Longrightarrow> granted (step i s) k = granted s k"
  using step_cases [of i s] by auto

lemma granted_fold_other: "k \<notin> requester ` set is \<Longrightarrow> granted (fold step is s) k = granted s k"
  by (induction "is" arbitrary: s) (auto simp: granted_other)

lemma backed_step: "backed s \<Longrightarrow> granted s (requester i) = None \<Longrightarrow> backed (step i s)"
  using step_cases [of i s] by (auto simp: backed_def fun_upd_idem)

lemma backed_fold:
  assumes "distinct (map requester is)" and "\<And>i. i \<in> set is \<Longrightarrow> granted s (requester i) = None" and "backed s"
  shows "backed (fold step is s)"
  using assms
proof (induction "is" arbitrary: s)
  case (Cons i "is")
  have "granted (step i s) (requester j) = None" if "j \<in> set is" for j
    using Cons.prems(1,2) that by (subst granted_other) (auto simp: image_iff)
  with Cons backed_step [of s i] show ?case by simp
qed simp

end

end
