(* ===== verification/RustStd.thy ===== *)
theory RustStd
  imports Prelude
begin

text \<open>
  The parts of Rust's standard library the sources use, on strings as UTF-8 bytes: the ASCII
  character classes, \<open>chars()\<close>, \<open>trim()\<close> (over Unicode's \<open>White_Space\<close>),
  \<open>split_once\<close>, \<open>strip_prefix\<close>, decimal and hexadecimal printing and parsing,
  \<open>join\<close>, \<open>min_by_key\<close>, and \<open>BTreeMap\<close> as an association list kept in key order,
  whose contract is the locale \<open>ordered_map\<close>. These functions have no counterpart under
  \<open>src/\<close>; they are here because the language's library is part of what the sources mean.
\<close>

section \<open>Characters\<close>

definition is_ascii_digit :: "char \<Rightarrow> bool" where
  [rust_defs]: "is_ascii_digit c \<longleftrightarrow> 48 \<le> code c \<and> code c \<le> 57"

definition is_ascii_lowercase :: "char \<Rightarrow> bool" where
  [rust_defs]: "is_ascii_lowercase c \<longleftrightarrow> 97 \<le> code c \<and> code c \<le> 122"

definition is_ascii_uppercase :: "char \<Rightarrow> bool" where
  [rust_defs]: "is_ascii_uppercase c \<longleftrightarrow> 65 \<le> code c \<and> code c \<le> 90"

definition is_ascii_alphanumeric :: "char \<Rightarrow> bool" where
  [rust_defs]: "is_ascii_alphanumeric c \<longleftrightarrow> is_ascii_digit c \<or> is_ascii_lowercase c \<or> is_ascii_uppercase c"

definition is_ascii_hexdigit :: "char \<Rightarrow> bool" where
  [rust_defs]: "is_ascii_hexdigit c \<longleftrightarrow>
     is_ascii_digit c \<or> (97 \<le> code c \<and> code c \<le> 102) \<or> (65 \<le> code c \<and> code c \<le> 70)"

definition to_ascii_lowercase :: "char \<Rightarrow> char" where
  [rust_defs]: "to_ascii_lowercase c = (if is_ascii_uppercase c then char_of (code c + 32) else c)"

text \<open>
  A continuation byte of a UTF-8 sequence. A string's \<open>chars()\<close> has one element per
  non-continuation byte, and an element is ASCII exactly when that byte is; \<open>chars\<close> keeps
  these lead bytes, which is all the sources look at.
\<close>

definition is_continuation :: "char \<Rightarrow> bool" where
  "is_continuation c \<longleftrightarrow> 128 \<le> code c \<and> code c < 192"

definition chars :: "string \<Rightarrow> char list" where
  "chars s = filter (\<lambda>c. \<not> is_continuation c) s"

lemma code_to_ascii_lowercase:
  "code (to_ascii_lowercase c) = (if is_ascii_uppercase c then code c + 32 else code c)"
  by (simp add: to_ascii_lowercase_def is_ascii_uppercase_def)

lemma to_ascii_lowercase_idem [simp]:
  "to_ascii_lowercase (to_ascii_lowercase c) = to_ascii_lowercase c"
  by (auto simp: to_ascii_lowercase_def is_ascii_uppercase_def)

lemma hexdigit_to_lower: "is_ascii_hexdigit (to_ascii_lowercase c) = is_ascii_hexdigit c"
  by (auto simp: is_ascii_hexdigit_def is_ascii_digit_def code_to_ascii_lowercase is_ascii_uppercase_def)

lemma chars_ascii: "(\<forall>c \<in> set s. code c < 128) \<Longrightarrow> chars s = s"
  by (induction s) (auto simp: chars_def is_continuation_def)

section \<open>Trimming\<close>

text \<open>The UTF-8 encodings of the characters with the Unicode property \<open>White_Space\<close>.\<close>

definition white_space :: "string list" where
  "white_space =
     map (\<lambda>n. [char_of (n::nat)]) [9, 10, 11, 12, 13, 32] @
     map (map char_of)
       ([[0xC2, 0x85], [0xC2, 0xA0], [0xE1, 0x9A, 0x80]] @
        map (\<lambda>n. [0xE2, 0x80, n]) ([0x80 ..< 0x8B] @ [0xA8, 0xA9, 0xAF]) @
        [[0xE2, 0x81, 0x9F], [0xE3, 0x80, 0x80 :: nat]])"

definition starts_with :: "string \<Rightarrow> string \<Rightarrow> bool" where
  "starts_with s p \<longleftrightarrow> take (length p) s = p"

definition strip_prefix :: "string \<Rightarrow> string \<Rightarrow> string option" where
  "strip_prefix s p = (if starts_with s p then Some (drop (length p) s) else None)"

definition strip_any :: "string list \<Rightarrow> string \<Rightarrow> string option" where
  "strip_any ps s = (case find (\<lambda>p. p \<noteq> [] \<and> starts_with s p) ps of
      None \<Rightarrow> None | Some p \<Rightarrow> Some (drop (length p) s))"

lemma strip_any_shorter: "strip_any ps s = Some t \<Longrightarrow> length t < length s"
  by (auto simp: strip_any_def starts_with_def find_Some_iff split: option.splits)
     (metis diff_less length_greater_0_conv list.size(3) take_eq_Nil)

function trim_matches :: "string list \<Rightarrow> string \<Rightarrow> string" where
  "trim_matches ps s = (case strip_any ps s of None \<Rightarrow> s | Some t \<Rightarrow> trim_matches ps t)"
  by pat_completeness auto
termination
  by (relation "measure (\<lambda>(ps, s). length s)") (auto dest: strip_any_shorter)

declare trim_matches.simps [simp del]

definition trim_start :: "string \<Rightarrow> string" where
  "trim_start s = trim_matches white_space s"

definition trim_end :: "string \<Rightarrow> string" where
  "trim_end s = rev (trim_matches (map rev white_space) (rev s))"

definition trim :: "string \<Rightarrow> string" where
  "trim s = trim_end (trim_start s)"

lemma trim_matches_id: "strip_any ps s = None \<Longrightarrow> trim_matches ps s = s"
  by (simp add: trim_matches.simps)

lemma trim_matches_done: "strip_any ps (trim_matches ps s) = None"
proof (induction ps s rule: trim_matches.induct)
  case (1 ps s)
  then show ?case
    by (cases "strip_any ps s") (simp_all add: trim_matches.simps [of ps s])
qed

lemma strip_any_None_hd:
  assumes "\<forall>p \<in> set ps. \<forall>c \<in> set s. hd p \<noteq> c"
  shows "strip_any ps s = None"
proof -
  have "\<not> (p \<noteq> [] \<and> starts_with s p)" if "p \<in> set ps" for p
  proof
    assume "p \<noteq> [] \<and> starts_with s p"
    then have "hd p \<in> set s"
      by (cases p; cases s) (auto simp: starts_with_def)
    with assms that show False by blast
  qed
  then show ?thesis by (auto simp: strip_any_def find_None_iff split: option.splits)
qed

text \<open>No white space encoding starts or ends in a printable ASCII character.\<close>

lemma white_space_ends:
  "p \<in> set white_space \<Longrightarrow> \<not> (33 \<le> code (hd p) \<and> code (hd p) < 128) \<and> \<not> (33 \<le> code (last p) \<and> code (last p) < 128)"
  by (auto simp: white_space_def)

lemma trim_printable:
  assumes "\<forall>c \<in> set s. 33 \<le> code c \<and> code c < 128"
  shows "trim s = s"
proof -
  have "strip_any white_space s = None"
    using assms white_space_ends by (intro strip_any_None_hd) blast
  moreover have "strip_any (map rev white_space) (rev s) = None"
    using assms white_space_ends by (intro strip_any_None_hd) (force simp: hd_rev)
  ultimately show ?thesis
    by (simp add: trim_def trim_start_def trim_end_def trim_matches_id)
qed

text \<open>For evaluation: a printable string is not searched for white space.\<close>

lemma trim_code [code]:
  "trim s = (if list_all (\<lambda>c. 33 \<le> code c \<and> code c < 128) s then s else trim_end (trim_start s))"
  by (simp add: trim_printable list_all_iff trim_def [symmetric])

section \<open>Splitting and joining\<close>

definition split_once :: "char \<Rightarrow> string \<Rightarrow> (string \<times> string) option" where
  "split_once c s =
     (if c \<in> set s then Some (takeWhile (\<lambda>x. x \<noteq> c) s, tl (dropWhile (\<lambda>x. x \<noteq> c) s)) else None)"

lemma takeWhile_neq_sep: "c \<notin> set a \<Longrightarrow> takeWhile (\<lambda>x. x \<noteq> c) (a @ c # b) = a"
  by (rule takeWhile_append_stop) auto

lemma dropWhile_neq_sep: "c \<notin> set a \<Longrightarrow> dropWhile (\<lambda>x. x \<noteq> c) (a @ c # b) = c # b"
  by (rule dropWhile_append_stop) auto

lemma split_once_sep [simp]: "c \<notin> set a \<Longrightarrow> split_once c (a @ c # b) = Some (a, b)"
  by (simp add: split_once_def takeWhile_neq_sep dropWhile_neq_sep)

lemma split_once_SomeD:
  assumes "split_once c s = Some (a, b)"
  shows "s = a @ c # b \<and> c \<notin> set a"
proof -
  from assms have c: "c \<in> set s" and a: "a = takeWhile (\<lambda>x. x \<noteq> c) s"
    and b: "b = tl (dropWhile (\<lambda>x. x \<noteq> c) s)"
    by (auto simp: split_once_def split: if_splits)
  from c obtain u v where "s = u @ c # v" "c \<notin> set u" by (meson split_list_first)
  with a b show ?thesis by (simp add: takeWhile_neq_sep dropWhile_neq_sep)
qed

text \<open>\<open>str::split\<close> on a character: always at least one piece.\<close>

fun split_on :: "char \<Rightarrow> string \<Rightarrow> string list" where
  "split_on c [] = [[]]"
| "split_on c (x # xs) = (if x = c then [] # split_on c xs
     else case split_on c xs of [] \<Rightarrow> [[x]] | p # ps \<Rightarrow> (x # p) # ps)"

lemma split_on_nonempty [simp]: "split_on c s \<noteq> []"
  by (induction s) (auto split: list.splits)

lemma split_on_single: "c \<notin> set s \<Longrightarrow> split_on c s = [s]"
  by (induction s) auto

fun join :: "string \<Rightarrow> string list \<Rightarrow> string" where
  "join sep [] = []"
| "join sep [x] = x"
| "join sep (x # xs) = x @ sep @ join sep xs"

section \<open>Numbers\<close>

definition digit :: "nat \<Rightarrow> char" where
  "digit n = char_of (48 + n)"

fun show_nat :: "nat \<Rightarrow> string" where
  "show_nat n = (if n < 10 then [digit n] else show_nat (n div 10) @ [digit (n mod 10)])"

declare show_nat.simps [simp del]

definition show_int :: "int \<Rightarrow> string" where
  "show_int i = (if i < 0 then ''-'' @ show_nat (nat (- i)) else show_nat (nat i))"

lemma code_digit: "n < 10 \<Longrightarrow> code (digit n) = 48 + n"
  by (simp add: digit_def)

lemma digit_inj: "m < 10 \<Longrightarrow> n < 10 \<Longrightarrow> digit m = digit n \<longleftrightarrow> m = n"
  by (metis add_left_cancel code_digit)

lemma show_nat_digits: "\<forall>c \<in> set (show_nat n). is_ascii_digit c"
proof (induction n rule: show_nat.induct)
  case (1 n)
  show ?case
  proof (cases "n < 10")
    case True
    then show ?thesis by (simp add: show_nat.simps [of n] is_ascii_digit_def code_digit)
  next
    case False
    have "is_ascii_digit (digit (n mod 10))"
      by (simp add: is_ascii_digit_def code_digit)
    with 1 False show ?thesis by (auto simp: show_nat.simps [of n])
  qed
qed

text \<open>Reading a decimal number back, which shows that printing is injective.\<close>

definition value_of_digits :: "nat \<Rightarrow> string \<Rightarrow> nat" where
  "value_of_digits base s = foldl (\<lambda>acc c. acc * base + (code c - 48)) 0 s"

lemma value_of_digits_snoc: "value_of_digits b (s @ [c]) = value_of_digits b s * b + (code c - 48)"
  by (simp add: value_of_digits_def)

lemma value_of_show_nat [simp]: "value_of_digits 10 (show_nat n) = n"
proof (induction n rule: show_nat.induct)
  case (1 n)
  show ?case
  proof (cases "n < 10")
    case True
    then show ?thesis by (simp add: show_nat.simps [of n] value_of_digits_def code_digit)
  next
    case False
    then show ?thesis
      by (simp add: show_nat.simps [of n] value_of_digits_snoc 1 code_digit)
  qed
qed

lemma show_nat_inj [simp]: "show_nat m = show_nat n \<longleftrightarrow> m = n"
  by (metis value_of_show_nat)

lemma show_nat_nonempty [simp]: "show_nat n \<noteq> []"
  by (subst show_nat.simps) simp

lemma dash_not_in_show_nat [simp]: "CHR ''-'' \<notin> set (show_nat n)"
  using show_nat_digits [of n] by (auto simp: is_ascii_digit_def)

text \<open>
  \<open>str::parse::<u32>\<close> and \<open>u8::from_str_radix(_, 16)\<close>: an optional \<open>+\<close>, at least one
  digit, no overflow.
\<close>

definition digit_value :: "nat \<Rightarrow> char \<Rightarrow> nat option" where
  "digit_value base c =
     (let n = (if is_ascii_digit c then code c - 48
               else if is_ascii_lowercase c then code c - 87
               else if is_ascii_uppercase c then code c - 55 else base)
      in if n < base then Some n else None)"

fun parse_digits :: "nat \<Rightarrow> nat \<Rightarrow> string \<Rightarrow> nat option" where
  "parse_digits base acc [] = Some acc"
| "parse_digits base acc (c # cs) =
     (case digit_value base c of None \<Rightarrow> None | Some d \<Rightarrow> parse_digits base (acc * base + d) cs)"

definition parse_unsigned :: "nat \<Rightarrow> nat \<Rightarrow> string \<Rightarrow> nat option" where
  "parse_unsigned base bits s =
     (let t = (if starts_with s ''+'' then tl s else s)
      in if t = [] then None
         else case parse_digits base 0 t of
                None \<Rightarrow> None
              | Some n \<Rightarrow> if n < 2 ^ bits then Some n else None)"

lemma parse_digits_digits:
  "(\<forall>c \<in> set s. is_ascii_digit c) \<Longrightarrow>
   parse_digits 10 acc s = Some (foldl (\<lambda>a c. a * 10 + (code c - 48)) acc s)"
  by (induction s arbitrary: acc) (auto simp: digit_value_def is_ascii_digit_def Let_def)

lemma parse_show_nat: "n < 2 ^ bits \<Longrightarrow> parse_unsigned 10 bits (show_nat n) = Some n"
proof -
  assume n: "n < 2 ^ bits"
  have d: "parse_digits 10 0 (show_nat n) = Some n"
    using parse_digits_digits [OF show_nat_digits, of 0 n] value_of_show_nat [of n]
    by (simp add: value_of_digits_def)
  have "\<not> starts_with (show_nat n) ''+''"
    using show_nat_digits [of n] by (cases "show_nat n") (auto simp: starts_with_def is_ascii_digit_def)
  with n d show ?thesis by (simp add: parse_unsigned_def)
qed

text \<open>\<open>{:02x}\<close> of a byte.\<close>

definition hex_digit :: "nat \<Rightarrow> char" where
  "hex_digit n = (if n < 10 then char_of (48 + n) else char_of (87 + n))"

definition show_hex2 :: "u8 \<Rightarrow> string" where
  "show_hex2 b = [hex_digit (unat b div 16), hex_digit (unat b mod 16)]"

section \<open>Iterators\<close>

text \<open>\<open>Iterator::min_by_key\<close> returns the first of several minima; \<open>sort_by_key\<close> is stable,
  as \<^const>\<open>sort_key\<close> is.\<close>

fun min_by_key :: "('a \<Rightarrow> 'k::linorder) \<Rightarrow> 'a list \<Rightarrow> 'a option" where
  "min_by_key f [] = None"
| "min_by_key f (x # xs) =
     (case min_by_key f xs of
        None \<Rightarrow> Some x
      | Some y \<Rightarrow> if f x \<le> f y then Some x else Some y)"

lemma min_by_key_None [simp]: "min_by_key f xs = None \<longleftrightarrow> xs = []"
  by (cases xs) (auto split: option.splits)

lemma min_by_key_SomeD:
  "min_by_key f xs = Some x \<Longrightarrow> x \<in> set xs \<and> (\<forall>y \<in> set xs. f x \<le> f y)"
proof (induction xs arbitrary: x)
  case (Cons a xs)
  show ?case
  proof (cases "min_by_key f xs")
    case None
    with Cons.prems show ?thesis by simp
  next
    case (Some y)
    with Cons.IH [OF Some] Cons.prems show ?thesis by (auto split: if_splits)
  qed
qed simp

section \<open>BTreeMap\<close>

text \<open>
  The contract the controller relies on: a finite map that enumerates its bindings in strictly
  increasing key order.
\<close>

locale ordered_map =
  fixes ins :: "'k::linorder \<Rightarrow> 'v \<Rightarrow> 'm \<Rightarrow> 'm"
    and get :: "'m \<Rightarrow> 'k \<Rightarrow> 'v option"
    and entries :: "'m \<Rightarrow> ('k \<times> 'v) list"
    and empty :: 'm
  assumes get_empty: "get empty = Map.empty"
    and get_ins: "get (ins k v m) = (get m)(k \<mapsto> v)"
    and sorted_empty: "sorted_wrt (<) (map fst (entries empty))"
    and sorted_ins: "sorted_wrt (<) (map fst (entries m)) \<Longrightarrow> sorted_wrt (<) (map fst (entries (ins k v m)))"
    and entries_get: "sorted_wrt (<) (map fst (entries m)) \<Longrightarrow> (k, v) \<in> set (entries m) \<longleftrightarrow> get m k = Some v"
begin

lemma sorted_fold_ins: "sorted_wrt (<) (map fst (entries (fold (\<lambda>(k, v). ins k v) kvs empty)))"
  by (rule fold_invariant_set) (auto intro: sorted_empty sorted_ins)

lemma get_fold_ins: "get (fold (\<lambda>(k, v). ins k v) kvs m) k = (case collect_map kvs k of None \<Rightarrow> get m k | Some v \<Rightarrow> Some v)"
  by (induction kvs arbitrary: m)
     (auto simp: collect_map_def get_ins map_add_def split: option.splits prod.splits)

lemma entries_fold_ins:
  "(k, v) \<in> set (entries (fold (\<lambda>(k, v). ins k v) kvs empty)) \<longleftrightarrow> collect_map kvs k = Some v"
  by (simp add: entries_get [OF sorted_fold_ins] get_fold_ins get_empty split: option.splits)

end

type_synonym ('k, 'v) btree = "('k \<times> 'v) list"

fun bt_insert :: "'k::linorder \<Rightarrow> 'v \<Rightarrow> ('k, 'v) btree \<Rightarrow> ('k, 'v) btree" where
  "bt_insert k v [] = [(k, v)]"
| "bt_insert k v ((k', v') # m) =
     (if k < k' then (k, v) # (k', v') # m
      else if k = k' then (k, v) # m
      else (k', v') # bt_insert k v m)"

definition bt_collect :: "('k::linorder \<times> 'v) list \<Rightarrow> ('k, 'v) btree" where
  "bt_collect kvs = fold (\<lambda>(k, v). bt_insert k v) kvs []"

abbreviation bt_sorted :: "('k::linorder, 'v) btree \<Rightarrow> bool" where
  "bt_sorted m \<equiv> sorted_wrt (<) (map fst m)"

lemma map_of_bt_insert: "map_of (bt_insert k v m) = (map_of m)(k \<mapsto> v)"
  by (induction m) auto

lemma keys_bt_insert: "fst ` set (bt_insert k v m) = insert k (fst ` set m)"
  by (simp add: map_of_bt_insert flip: dom_map_of_conv_image_fst)

lemma bt_sorted_insert: "bt_sorted m \<Longrightarrow> bt_sorted (bt_insert k v m)"
proof (induction m)
  case (Cons kv m)
  obtain k' v' where kv: "kv = (k', v')" by fastforce
  have "\<forall>x \<in> fst ` set (bt_insert k v m). k' < x" if "\<not> k < k'" "k \<noteq> k'"
    using Cons.prems that by (auto simp: keys_bt_insert kv)
  with Cons show ?case by (auto simp: kv)
qed simp

lemma bt_sorted_distinct: "bt_sorted m \<Longrightarrow> distinct (map fst m)"
  by (induction m) auto

lemma bt_entries_get: "bt_sorted m \<Longrightarrow> (k, v) \<in> set m \<longleftrightarrow> map_of m k = Some v"
  by (meson bt_sorted_distinct map_of_SomeD map_of_is_SomeI)

interpretation bt: ordered_map bt_insert map_of "\<lambda>m. m" "[] :: ('k::linorder, 'v) btree"
  by unfold_locales (auto simp: map_of_bt_insert bt_sorted_insert bt_entries_get)

lemma bt_collect_sorted [simp]: "bt_sorted (bt_collect kvs)"
  unfolding bt_collect_def by (rule bt.sorted_fold_ins)

lemma bt_collect_entries: "(k, v) \<in> set (bt_collect kvs) \<longleftrightarrow> collect_map kvs k = Some v"
  unfolding bt_collect_def by (rule bt.entries_fold_ins)

end
