(* ===== verification/Externs.thy ===== *)
theory Externs
  imports RustStd
begin

text \<open>
  The third-party functions the sources call, as the fields of one record that the definitions
  take as an argument: \<open>sha2\<close>, \<open>hmac\<close> and \<open>hex\<close>, the RFC 3339 printing and parsing
  of \<open>jiff\<close>, and Rust's \<open>Debug\<close> rendering of a string, which depends on Unicode tables.
  What a theorem needs of them is one of the named contracts below; \<open>sample_lib\<close> is an
  instance that satisfies all of them, used where a witness needs concrete functions.
\<close>

record Lib =
  sha256 :: "bytes \<Rightarrow> bytes"
  hmac_sha256 :: "bytes \<Rightarrow> bytes \<Rightarrow> bytes"
  hex_encode :: "bytes \<Rightarrow> string"
  hex_decode :: "string \<Rightarrow> bytes option"
  ts_parse :: "string \<Rightarrow> seconds option"
  ts_print :: "seconds \<Rightarrow> string"
  str_debug :: "string \<Rightarrow> string"

definition lower_hex :: "char \<Rightarrow> bool" where
  "lower_hex c \<longleftrightarrow> is_ascii_digit c \<or> (97 \<le> code c \<and> code c \<le> 102)"

definition hex_contract :: "Lib \<Rightarrow> bool" where
  "hex_contract L \<longleftrightarrow>
     (\<forall>b. length (hex_encode L b) = 2 * length b) \<and>
     (\<forall>b. \<forall>c \<in> set (hex_encode L b). lower_hex c) \<and>
     (\<forall>b. hex_decode L (hex_encode L b) = Some b)"

definition sha256_contract :: "Lib \<Rightarrow> bool" where
  "sha256_contract L \<longleftrightarrow> (\<forall>b. length (sha256 L b) = 32)"

definition time_contract :: "Lib \<Rightarrow> bool" where
  "time_contract L \<longleftrightarrow> (\<forall>t. ts_parse L (ts_print L t) = Some t)"

lemmas contract_defs = hex_contract_def sha256_contract_def time_contract_def

section \<open>A concrete instance\<close>

definition hex_byte :: "char \<Rightarrow> string" where
  "hex_byte c = [hex_digit (code c div 16), hex_digit (code c mod 16)]"

fun unhex :: "string \<Rightarrow> bytes option" where
  "unhex [] = Some []"
| "unhex [_] = None"
| "unhex (a # b # s) =
     (case (digit_value 16 a, digit_value 16 b, unhex s) of
        (Some m, Some n, Some t) \<Rightarrow> Some (char_of (16 * m + n) # t)
      | _ \<Rightarrow> None)"

definition show_time :: "seconds \<Rightarrow> string" where
  "show_time t = show_int t"

definition read_time :: "string \<Rightarrow> seconds option" where
  "read_time s =
     (if starts_with s ''-'' then map_option (\<lambda>n. - int n) (parse_digits 10 0 (tl s))
      else if s = [] then None else map_option int (parse_digits 10 0 s))"

definition sample_lib :: Lib where
  "sample_lib =
     \<lparr>sha256 = (\<lambda>b. take 32 (rev b @ replicate 32 (CHR ''k''))),
      hmac_sha256 = (\<lambda>k m. k @ m),
      hex_encode = (\<lambda>b. concat (map hex_byte b)),
      hex_decode = unhex,
      ts_parse = read_time,
      ts_print = show_time,
      str_debug = (\<lambda>s. CHR 0x22 # s @ [CHR 0x22])\<rparr>"

lemma digit_value_hex_digit: "n < 16 \<Longrightarrow> digit_value 16 (hex_digit n) = Some n"
  by (auto simp: digit_value_def hex_digit_def is_ascii_digit_def is_ascii_lowercase_def
      is_ascii_uppercase_def Let_def)

lemma code_bound [simp]: "code c < 256"
  by (rule nat_of_char_less_256)

lemma unhex_hex: "unhex (concat (map hex_byte b)) = Some b"
proof (induction b)
  case (Cons c b)
  have "code c div 16 < 16" using code_bound [of c] by linarith
  with Cons show ?case by (simp add: hex_byte_def digit_value_hex_digit)
qed simp

lemma lower_hex_digit: "n < 16 \<Longrightarrow> lower_hex (hex_digit n)"
  by (auto simp: lower_hex_def hex_digit_def is_ascii_digit_def)

lemma hex_sample: "hex_contract sample_lib"
proof -
  have "length (concat (map hex_byte b)) = 2 * length b" for b
    by (induction b) (auto simp: hex_byte_def)
  moreover have "\<forall>c \<in> set (concat (map hex_byte b)). lower_hex c" for b
    by (auto simp: hex_byte_def less_mult_imp_div_less intro!: lower_hex_digit)
  ultimately show ?thesis by (simp add: hex_contract_def sample_lib_def unhex_hex)
qed

lemma sha256_sample: "sha256_contract sample_lib"
  by (auto simp: sha256_contract_def sample_lib_def)

lemma parse_show_nat_digits: "parse_digits 10 0 (show_nat n) = Some n"
  using parse_digits_digits [OF show_nat_digits, of 0 n] value_of_show_nat [of n]
  by (simp add: value_of_digits_def)

lemma time_sample: "time_contract sample_lib"
proof -
  have "\<not> starts_with (show_nat n) ''-''" for n
    using dash_not_in_show_nat [of n] by (cases "show_nat n") (auto simp: starts_with_def)
  then have "read_time (show_time t) = Some t" for t
    by (auto simp: read_time_def show_time_def show_int_def parse_show_nat_digits starts_with_def)
  then show ?thesis by (simp add: time_contract_def sample_lib_def)
qed

lemmas sample_contracts = hex_sample sha256_sample time_sample

end
