(* ===== verification/Identity.thy ===== *)
theory Identity
  imports Externs
begin

text \<open>
  \<open>src/identity.rs\<close>, the naming half: identity tiers, fingerprints, slugs, hashes, the names
  of the tiers, label values and USB ids, and \<open>UsbDeviceInfo\<close> of \<open>src/sysfs.rs\<close>, which
  they are computed from. The assignment of names to devices is theory \<open>Assign\<close>.
  Fields carry a prefix per struct (\<open>ui_\<close> for \<open>UsbDeviceInfo\<close>, \<open>fp_\<close> for
  \<open>Fingerprint\<close>), since two structs share most field names.
\<close>

section \<open>Data\<close>

record UsbDeviceInfo =
  ui_port_path :: string
  ui_bus_num :: u32
  ui_dev_num :: u32
  ui_vendor_id :: string
  ui_product_id :: string
  ui_serial :: "string option"
  ui_manufacturer :: "string option"
  ui_product :: "string option"
  ui_bcd_device :: "string option"
  ui_device_class :: u8
  ui_interface_classes :: "u8 list"
  ui_speed :: "string option"

definition bus_dev :: "UsbDeviceInfo \<Rightarrow> string" where
  "bus_dev d = show_nat (unat (ui_bus_num d)) @ ''-'' @ show_nat (unat (ui_dev_num d))"

definition CLASS_HUB :: u8 where
  "CLASS_HUB = 9"

definition is_hub :: "UsbDeviceInfo \<Rightarrow> bool" where
  "is_hub d \<longleftrightarrow> ui_device_class d = CLASS_HUB"

definition MAX_SLUG_LEN :: nat where
  "MAX_SLUG_LEN = 40"

datatype IdentitySource = Serial | SerialDescriptor | Descriptor | PortPath

definition ORDER :: "IdentitySource list" where
  "ORDER = [Serial, SerialDescriptor, Descriptor, PortPath]"

fun tag :: "IdentitySource \<Rightarrow> string" where
  "tag Serial = ''serial''"
| "tag SerialDescriptor = ''serial+descriptor''"
| "tag Descriptor = ''descriptor''"
| "tag PortPath = ''port''"

record Fingerprint =
  fp_vendor_id :: string
  fp_product_id :: string
  fp_serial :: "string option"
  fp_bcd_device :: "string option"
  fp_manufacturer :: "string option"
  fp_product :: "string option"

definition fingerprint_of :: "UsbDeviceInfo \<Rightarrow> Fingerprint" where
  "fingerprint_of d =
     \<lparr>fp_vendor_id = ui_vendor_id d, fp_product_id = ui_product_id d, fp_serial = ui_serial d,
      fp_bcd_device = ui_bcd_device d, fp_manufacturer = ui_manufacturer d, fp_product = ui_product d\<rparr>"

text \<open>\<open>Fingerprint::serial\<close>: the serial number unless it is blank.\<close>

definition serial :: "Fingerprint \<Rightarrow> string option" where
  "serial fp = (case fp_serial fp of None \<Rightarrow> None | Some s \<Rightarrow> if trim s \<noteq> [] then Some s else None)"

definition tier_key :: "Fingerprint \<Rightarrow> IdentitySource \<Rightarrow> string option list option" where
  "tier_key fp tier =
     (let ids = [Some (fp_vendor_id fp), Some (fp_product_id fp)];
          descriptor = [fp_bcd_device fp, fp_manufacturer fp, fp_product fp]
      in case tier of
           Serial \<Rightarrow> (case serial fp of None \<Rightarrow> None | Some s \<Rightarrow> Some (ids @ [Some s]))
         | SerialDescriptor \<Rightarrow> (case serial fp of None \<Rightarrow> None | Some s \<Rightarrow> Some (ids @ [Some s] @ descriptor))
         | Descriptor \<Rightarrow> Some (ids @ descriptor)
         | PortPath \<Rightarrow> None)"

section \<open>Slugs, hashes and names\<close>

definition slug_char :: "char \<Rightarrow> char" where
  "slug_char ch =
     (if is_ascii_lowercase ch \<or> is_ascii_digit ch then ch
      else if is_ascii_uppercase ch then to_ascii_lowercase ch
      else CHR ''-'')"

fun slugify_loop :: "char list \<Rightarrow> string \<Rightarrow> string" where
  "slugify_loop [] out = out"
| "slugify_loop (ch # rest) out =
     (if slug_char ch = CHR ''-'' \<and> (out = [] \<or> last out = CHR ''-'') then slugify_loop rest out
      else if length (out @ [slug_char ch]) \<ge> MAX_SLUG_LEN then out @ [slug_char ch]
      else slugify_loop rest (out @ [slug_char ch]))"

definition pop_dashes :: "string \<Rightarrow> string" where
  "pop_dashes out = rev (dropWhile (\<lambda>c. c = CHR ''-'') (rev out))"

definition slugify :: "string \<Rightarrow> string" where
  "slugify input = pop_dashes (slugify_loop (chars input) [])"

definition short_hash :: "Lib \<Rightarrow> IdentitySource \<Rightarrow> string list \<Rightarrow> string" where
  "short_hash L tier parts =
     hex_encode L (take 4 (sha256 L (tag tier @ concat (map (\<lambda>part. CHR 0x00 # part) parts))))"

definition join_name :: "string \<Rightarrow> string list \<Rightarrow> string \<Rightarrow> string" where
  "join_name prefix parts hash =
     foldl (\<lambda>name part. name @ ''-'' @ part) prefix (filter (\<lambda>p. p \<noteq> []) parts) @ ''-'' @ hash"

definition name_prefix :: "Fingerprint \<Rightarrow> string" where
  "name_prefix fp = ''usb-'' @ slugify (fp_vendor_id fp) @ ''-'' @ slugify (fp_product_id fp)"

definition portable_name :: "Lib \<Rightarrow> Fingerprint \<Rightarrow> IdentitySource \<Rightarrow> string option" where
  "portable_name L fp tier =
     (case tier_key fp tier of
        None \<Rightarrow> None
      | Some key \<Rightarrow>
          let prefix = name_prefix fp;
              hash_input = map (\<lambda>v. case v of None \<Rightarrow> [] | Some s \<Rightarrow> s) key
          in case tier of
               Serial \<Rightarrow>
                 (case serial fp of
                    None \<Rightarrow> None
                  | Some s \<Rightarrow>
                      let slug = slugify s
                      in if slug = s \<and> slug \<noteq> [] then Some (prefix @ ''-'' @ slug)
                         else Some (join_name prefix [slug] (short_hash L tier hash_input)))
             | SerialDescriptor \<Rightarrow>
                 (case serial fp of
                    None \<Rightarrow> None
                  | Some s \<Rightarrow> Some (join_name prefix [slugify s] (short_hash L tier hash_input)))
             | Descriptor \<Rightarrow>
                 let label = (case fp_product fp of
                                Some p \<Rightarrow> p
                              | None \<Rightarrow> (case fp_manufacturer fp of Some m \<Rightarrow> m | None \<Rightarrow> []))
                 in Some (join_name prefix [slugify label] (short_hash L tier hash_input))
             | PortPath \<Rightarrow> None)"

definition port_name :: "Lib \<Rightarrow> Fingerprint \<Rightarrow> string \<Rightarrow> string \<Rightarrow> string" where
  "port_name L fp node port_path =
     join_name (name_prefix fp) [slugify node, slugify port_path]
       (short_hash L PortPath [fp_vendor_id fp, fp_product_id fp, node, port_path])"

section \<open>Label values and USB ids\<close>

definition pop_non_alphanumeric :: "string \<Rightarrow> string" where
  "pop_non_alphanumeric out = rev (dropWhile (\<lambda>c. \<not> is_ascii_alphanumeric c) (rev out))"

definition label_char :: "char \<Rightarrow> bool" where
  "label_char c \<longleftrightarrow> is_ascii_alphanumeric c \<or> c \<in> {CHR ''-'', CHR ''_'', CHR ''.''}"

definition label_map :: "char \<Rightarrow> char" where
  "label_map c = (if label_char c then c else CHR ''-'')"

definition label_value :: "string \<Rightarrow> string option" where
  "label_value input =
     (let out = pop_non_alphanumeric (take 63 (map label_map (chars input)))
      in if list_ex is_ascii_alphanumeric out
         then Some (dropWhile (\<lambda>c. \<not> is_ascii_alphanumeric c) out) else None)"

definition usb_id_digits :: "string \<Rightarrow> string" where
  "usb_id_digits usb_id =
     (let trimmed = trim usb_id
      in case strip_prefix trimmed ''0x'' of
           Some h \<Rightarrow> h
         | None \<Rightarrow> (case strip_prefix trimmed ''0X'' of Some h \<Rightarrow> h | None \<Rightarrow> trimmed))"

definition normalize_usb_id :: "string \<Rightarrow> string option" where
  "normalize_usb_id usb_id =
     (let hex = usb_id_digits usb_id
      in if hex = [] \<or> length hex > 4 \<or> \<not> list_all is_ascii_hexdigit hex then None
         else Some (replicate (4 - length hex) (CHR ''0'') @ map to_ascii_lowercase hex))"

end
