(* ===== verification/Names.thy ===== *)
theory Names
  imports Identity
begin

text \<open>
  What the names of \<open>src/identity.rs\<close> promise. A slug is a string of lower-case letters,
  digits and single inner dashes of at most 40 bytes, and slugs are exactly the strings
  \<^const>\<open>slugify\<close> leaves alone; every name of every tier is a valid DNS subdomain, the
  predicate the module's own tests use; label values are valid Kubernetes label values; USB ids
  are put into one canonical form, which determines the 16-bit number and is determined by it.
\<close>

section \<open>Specifications\<close>

definition slug_char_ok :: "char \<Rightarrow> bool" where
  "slug_char_ok c \<longleftrightarrow> is_ascii_lowercase c \<or> is_ascii_digit c \<or> c = CHR ''-''"

fun no_double_dash :: "string \<Rightarrow> bool" where
  "no_double_dash (a # b # s) \<longleftrightarrow> \<not> (a = CHR ''-'' \<and> b = CHR ''-'') \<and> no_double_dash (b # s)"
| "no_double_dash _ \<longleftrightarrow> True"

definition slug_ok :: "string \<Rightarrow> bool" where
  "slug_ok s \<longleftrightarrow> list_all slug_char_ok s \<and> length s \<le> MAX_SLUG_LEN \<and>
     (s \<noteq> [] \<longrightarrow> hd s \<noteq> CHR ''-'' \<and> last s \<noteq> CHR ''-'') \<and> no_double_dash s"

text \<open>What holds of the buffer of \<^const>\<open>slugify_loop\<close> before trailing dashes are popped.\<close>

definition slug_buf :: "string \<Rightarrow> bool" where
  "slug_buf s \<longleftrightarrow> list_all slug_char_ok s \<and> length s \<le> MAX_SLUG_LEN \<and>
     (s \<noteq> [] \<longrightarrow> hd s \<noteq> CHR ''-'') \<and> no_double_dash s"

definition is_dns_subdomain :: "string \<Rightarrow> bool" where
  "is_dns_subdomain name \<longleftrightarrow> length name \<le> 253 \<and>
     list_all (\<lambda>seg. seg \<noteq> [] \<and> list_all slug_char_ok seg \<and> hd seg \<noteq> CHR ''-'' \<and> last seg \<noteq> CHR ''-'')
       (split_on CHR ''.'' name)"

definition valid_label :: "string \<Rightarrow> bool" where
  "valid_label v \<longleftrightarrow> v \<noteq> [] \<and> length v \<le> 63 \<and> list_all label_char v \<and>
     is_ascii_alphanumeric (hd v) \<and> is_ascii_alphanumeric (last v)"

definition hex4 :: "nat \<Rightarrow> string" where
  "hex4 n = [hex_digit (n div 4096), hex_digit (n div 256 mod 16), hex_digit (n div 16 mod 16), hex_digit (n mod 16)]"

text \<open>The shape of a vendor or product id as \<open>sysfs::read_device\<close> stores it.\<close>

definition usb_id4 :: "string \<Rightarrow> bool" where
  "usb_id4 s \<longleftrightarrow> length s = 4 \<and> list_all lower_hex s"

section \<open>Slugs\<close>

lemma no_double_dash_snoc:
  "no_double_dash (s @ [c]) \<longleftrightarrow> no_double_dash s \<and> \<not> (s \<noteq> [] \<and> last s = CHR ''-'' \<and> c = CHR ''-'')"
  by (induction s rule: no_double_dash.induct) auto

lemma slug_char_ok_map: "slug_char_ok (slug_char c)"
  by (auto simp: slug_char_ok_def slug_char_def is_ascii_lowercase_def is_ascii_uppercase_def
      is_ascii_digit_def code_to_ascii_lowercase)

lemma slug_char_id: "slug_char_ok c \<Longrightarrow> slug_char c = c"
  by (auto simp: slug_char_ok_def slug_char_def is_ascii_uppercase_def)

lemma slug_char_ok_ascii: "slug_char_ok c \<Longrightarrow> code c < 128"
  by (auto simp: slug_char_ok_def is_ascii_lowercase_def is_ascii_digit_def)

lemma slugify_loop_buf:
  "slug_buf out \<Longrightarrow> length out < MAX_SLUG_LEN \<Longrightarrow> slug_buf (slugify_loop cs out)"
proof (induction cs out rule: slugify_loop.induct)
  case (2 ch rest out)
  show ?case
  proof (cases "slug_char ch = CHR ''-'' \<and> (out = [] \<or> last out = CHR ''-'')")
    case True
    with 2 show ?thesis by auto
  next
    case False
    with 2 have "slug_buf (out @ [slug_char ch])"
      by (auto simp: slug_buf_def no_double_dash_snoc slug_char_ok_map hd_append)
    with 2 False show ?thesis by auto
  qed
qed simp

lemma pop_dashes_split: "\<exists>n. s = pop_dashes s @ replicate n (CHR ''-'')"
proof -
  have "\<forall>c \<in> set (takeWhile (\<lambda>c. c = CHR ''-'') (rev s)). c = CHR ''-''"
    by (auto dest: set_takeWhileD)
  then have r: "takeWhile (\<lambda>c. c = CHR ''-'') (rev s) = replicate (length (takeWhile (\<lambda>c. c = CHR ''-'') (rev s))) (CHR ''-'')"
    by (metis replicate_length_same)
  have "rev s = takeWhile (\<lambda>c. c = CHR ''-'') (rev s) @ dropWhile (\<lambda>c. c = CHR ''-'') (rev s)"
    by simp
  then have "s = rev (dropWhile (\<lambda>c. c = CHR ''-'') (rev s)) @ rev (takeWhile (\<lambda>c. c = CHR ''-'') (rev s))"
    by (metis rev_append rev_rev_ident)
  with r show ?thesis unfolding pop_dashes_def by (metis rev_replicate)
qed

lemma pop_dashes_last: "pop_dashes s \<noteq> [] \<Longrightarrow> last (pop_dashes s) \<noteq> CHR ''-''"
  unfolding pop_dashes_def by (metis (mono_tags) hd_dropWhile last_rev rev_is_Nil_conv)

lemma pop_dashes_id: "s = [] \<or> last s \<noteq> CHR ''-'' \<Longrightarrow> pop_dashes s = s"
  by (cases s rule: rev_cases) (auto simp: pop_dashes_def)

lemma no_double_dash_append: "no_double_dash (s @ t) \<Longrightarrow> no_double_dash s"
  by (induction s rule: no_double_dash.induct) auto

lemma slug_buf_pop: 
  assumes "slug_buf s" shows "slug_ok (pop_dashes s)"
proof -
  obtain n where s: "s = pop_dashes s @ replicate n (CHR ''-'')" using pop_dashes_split by blast
  let ?p = "pop_dashes s"
  from assms have a: "list_all slug_char_ok (?p @ replicate n (CHR ''-''))"
    "length (?p @ replicate n (CHR ''-'')) \<le> MAX_SLUG_LEN" "no_double_dash (?p @ replicate n (CHR ''-''))"
    and h: "s \<noteq> [] \<longrightarrow> hd s \<noteq> CHR ''-''"
    unfolding slug_buf_def using s by auto
  have "hd ?p \<noteq> CHR ''-''" if "?p \<noteq> []"
    using h s that by (metis append_is_Nil_conv hd_append2)
  with a show ?thesis using pop_dashes_last [of s] no_double_dash_append [OF a(3)] by (auto simp: slug_ok_def)
qed

lemma slug_ok_slugify: "slug_ok (slugify s)"
  unfolding slugify_def by (rule slug_buf_pop, rule slugify_loop_buf) (auto simp: slug_buf_def MAX_SLUG_LEN_def)

lemma slugify_loop_id:
  assumes "list_all slug_char_ok cs" "no_double_dash (out @ cs)" "length (out @ cs) \<le> MAX_SLUG_LEN"
    "out = [] \<Longrightarrow> cs \<noteq> [] \<Longrightarrow> hd cs \<noteq> CHR ''-''"
  shows "slugify_loop cs out = out @ cs"
  using assms
proof (induction cs arbitrary: out)
  case (Cons c cs)
  have c: "slug_char c = c" using Cons.prems(1) by (simp add: slug_char_id)
  have "no_double_dash (out @ [c])"
    using Cons.prems(2) no_double_dash_append [of "out @ [c]" cs] by simp
  then have nd: "\<not> (c = CHR ''-'' \<and> (out = [] \<or> last out = CHR ''-''))"
    using Cons.prems(4) by (auto simp: no_double_dash_snoc)
  show ?case
  proof (cases "length (out @ [c]) \<ge> MAX_SLUG_LEN")
    case True
    with Cons.prems(3) have "cs = []" by (cases cs) auto
    with True nd c show ?thesis by auto
  next
    case False
    with Cons.IH [of "out @ [c]"] Cons.prems nd c show ?thesis by auto
  qed
qed simp

lemma slugify_id: "slug_ok s \<Longrightarrow> slugify s = s"
proof -
  assume s: "slug_ok s"
  then have "chars s = s"
    by (intro chars_ascii) (auto simp: slug_ok_def list_all_iff dest: slug_char_ok_ascii)
  moreover have "slugify_loop s [] = s"
    using s by (subst slugify_loop_id) (auto simp: slug_ok_def)
  ultimately show ?thesis
    using s by (auto simp: slugify_def slug_ok_def intro!: pop_dashes_id)
qed

text \<open>
  \<^const>\<open>slugify\<close> always yields a slug (lower-case letters, digits and dashes,
  at most 40 bytes, no leading, trailing or doubled dash), and its fixed points are exactly the
  slugs. The test \<open>slug == serial\<close> of \<open>portable_name\<close> therefore asks whether the
  serial number is a slug already.
\<close>

theorem slugify_fixpoint: "slug_ok (slugify s) \<and> (slugify s = s \<longleftrightarrow> slug_ok s)"
  using slug_ok_slugify slugify_id by metis

section \<open>Device names\<close>

lemma join_name_eq:
  "join_name prefix parts hash = prefix @ concat (map (\<lambda>p. ''-'' @ p) (filter (\<lambda>p. p \<noteq> []) parts)) @ ''-'' @ hash"
  using foldl_snoc_concat [of "\<lambda>p. ''-'' @ p" prefix "filter (\<lambda>p. p \<noteq> []) parts"]
  by (simp add: join_name_def)

lemma slugify_chars: "c \<in> set (slugify s) \<Longrightarrow> slug_char_ok c"
  using slug_ok_slugify [of s] by (auto simp: slug_ok_def list_all_iff)

lemma slugify_length: "length (slugify s) \<le> 40"
  using slug_ok_slugify [of s] by (simp add: slug_ok_def MAX_SLUG_LEN_def)

lemma slug_char_ok_simps [simp]:
  "slug_char_ok CHR ''-''" "slug_char_ok CHR ''u''" "slug_char_ok CHR ''s''" "slug_char_ok CHR ''b''"
  by (auto simp: slug_char_ok_def is_ascii_lowercase_def)

lemma lower_hex_slug_char: "lower_hex c \<Longrightarrow> slug_char_ok c \<and> c \<noteq> CHR ''-''"
  by (auto simp: lower_hex_def slug_char_ok_def is_ascii_lowercase_def is_ascii_digit_def)

lemma short_hash_shape:
  assumes "hex_contract L" "sha256_contract L"
  shows "length (short_hash L tier parts) = 8 \<and> list_all slug_char_ok (short_hash L tier parts)
    \<and> last (short_hash L tier parts) \<noteq> CHR ''-''"
proof -
  have len: "length (short_hash L tier parts) = 8"
    using assms by (simp add: short_hash_def contract_defs)
  moreover have hex: "\<forall>c \<in> set (short_hash L tier parts). lower_hex c"
    using assms by (simp add: short_hash_def contract_defs)
  moreover have "last (short_hash L tier parts) \<in> set (short_hash L tier parts)"
    using len by (intro last_in_set) auto
  ultimately show ?thesis by (auto simp: list_all_iff dest: lower_hex_slug_char)
qed

text \<open>A name that starts like all of them, uses slug characters and does not end in a dash.\<close>

lemma dns_nameI:
  assumes "list_all slug_char_ok t" "t \<noteq> []" "last t \<noteq> CHR ''-''" "length t \<le> 249"
  shows "is_dns_subdomain (''usb-'' @ t)"
proof -
  have "CHR ''.'' \<notin> set t"
    using assms(1) by (auto simp: list_all_iff slug_char_ok_def is_ascii_lowercase_def is_ascii_digit_def)
  then have "split_on CHR ''.'' (''usb-'' @ t) = [''usb-'' @ t]"
    by (intro split_on_single) auto
  then show ?thesis using assms by (simp add: is_dns_subdomain_def)
qed

lemma name_prefix_shape: "\<exists>t. name_prefix fp = ''usb-'' @ t \<and> list_all slug_char_ok t \<and> length t \<le> 81"
  using slugify_length [of "fp_vendor_id fp"] slugify_length [of "fp_product_id fp"]
  by (intro exI [of _ "slugify (fp_vendor_id fp) @ ''-'' @ slugify (fp_product_id fp)"])
     (auto simp: name_prefix_def list_all_iff dest: slugify_chars)

lemma dns_join_name:
  assumes "hex_contract L" "sha256_contract L" "length parts \<le> 2"
  shows "is_dns_subdomain (join_name (name_prefix fp) (map slugify parts) (short_hash L tier hs))"
proof -
  let ?h = "short_hash L tier hs" and ?ps = "filter (\<lambda>p. p \<noteq> []) (map slugify parts)"
  let ?m = "concat (map (\<lambda>p. ''-'' @ p) ?ps)"
  obtain t where t: "name_prefix fp = ''usb-'' @ t" "list_all slug_char_ok t" "length t \<le> 81"
    using name_prefix_shape by blast
  have "list_all slug_char_ok ?m"
    by (auto simp: list_all_iff dest: slugify_chars)
  moreover have "length ?m \<le> 82"
  proof -
    have "length ?m \<le> length (map (\<lambda>p. ''-'' @ p) ?ps) * 41"
      by (rule length_concat_le) (auto simp: slugify_length)
    also have "\<dots> \<le> 2 * 41" using assms(3)
      by (metis length_filter_le length_map le_trans mult_le_mono1)
    finally show ?thesis by simp
  qed
  ultimately show ?thesis
    using t short_hash_shape [OF assms(1,2), of tier hs]
    by (auto simp: join_name_eq intro!: dns_nameI [of "t @ ?m @ ''-'' @ ?h", simplified] split: if_splits)
qed

lemma dns_portable_name:
  assumes "hex_contract L" and "sha256_contract L" and "portable_name L fp tier = Some name"
  shows "is_dns_subdomain name"
proof -
  have one: "is_dns_subdomain (join_name (name_prefix fp) [slugify p] (short_hash L tier hs))" for p hs
    using dns_join_name [OF assms(1,2), of "[p]"] by simp
  have readable: "is_dns_subdomain (name_prefix fp @ ''-'' @ s)" if "slugify s = s" "s \<noteq> []" for s
  proof -
    obtain t where t: "name_prefix fp = ''usb-'' @ t" "list_all slug_char_ok t" "length t \<le> 81"
      using name_prefix_shape by blast
    with that slug_ok_slugify [of s] slugify_length [of s] show ?thesis
      by (auto simp: slug_ok_def intro!: dns_nameI [of "t @ ''-'' @ s", simplified])
  qed
  show ?thesis
    using one readable assms(3)
    by (auto simp: portable_name_def Let_def split: option.splits IdentitySource.splits if_splits)
qed

lemma dns_port_name:
  assumes "hex_contract L" and "sha256_contract L"
  shows "is_dns_subdomain (port_name L fp node port)"
  using dns_join_name [OF assms, of "[node, port]"] by (simp add: port_name_def)

text \<open>
  Property C37: every name the agent can give a device, of a portable tier or of the port tier,
  is a valid DNS subdomain, whatever bytes the device's strings and the node's name hold. Of the
  libraries only the length of SHA-256 and the alphabet of the hex encoding are used.
\<close>

theorem names_are_dns_subdomains:
  assumes "hex_contract L" and "sha256_contract L"
  shows "pred_option is_dns_subdomain (portable_name L fp tier) \<and>
    is_dns_subdomain (port_name L fp node port)"
  using dns_portable_name [OF assms] dns_port_name [OF assms]
  by (cases "portable_name L fp tier") auto

theorem names_are_dns_subdomains_witness:
  "hex_contract sample_lib \<and> sha256_contract sample_lib \<and>
   is_dns_subdomain (port_name sample_lib \<lparr>fp_vendor_id = ''1a86'', fp_product_id = ''7523'',
     fp_serial = None, fp_bcd_device = None, fp_manufacturer = None, fp_product = None\<rparr> ''Node_With.Weird'' ''1-1.4'')"
  using names_are_dns_subdomains [OF hex_sample sha256_sample] sample_contracts by blast

lemma usb_id4_slug: "usb_id4 s \<Longrightarrow> slugify s = s"
proof -
  assume s: "usb_id4 s"
  then obtain a b c d where "s = [a, b, c, d]"
    by (auto simp: usb_id4_def numeral_eq_Suc length_Suc_conv)
  with s have "slug_ok s"
    by (auto simp: usb_id4_def slug_ok_def MAX_SLUG_LEN_def dest!: lower_hex_slug_char)
  then show ?thesis by (rule slugify_id)
qed

lemma name_prefix_usb_id4:
  "usb_id4 (fp_vendor_id fp) \<Longrightarrow> usb_id4 (fp_product_id fp) \<Longrightarrow>
   name_prefix fp = ''usb-'' @ fp_vendor_id fp @ ''-'' @ fp_product_id fp"
  by (simp add: name_prefix_def usb_id4_slug)

text \<open>
  A readable serial name (one without a hash) determines vendor id, product id and
  serial number, so devices with different serial numbers never share such a name.
\<close>

theorem readable_serial_names_injective:
  assumes "usb_id4 (fp_vendor_id f)" "usb_id4 (fp_product_id f)" "usb_id4 (fp_vendor_id g)" "usb_id4 (fp_product_id g)"
    and "serial f = Some s" "serial g = Some t" "slug_ok s" "slug_ok t"
    and "portable_name L f Serial = portable_name L g Serial"
  shows "tier_key f Serial = tier_key g Serial"
proof -
  have "s \<noteq> []" "t \<noteq> []"
    using assms(5,6) by (auto simp: serial_def trim_printable split: option.splits if_splits)
  then have "portable_name L f Serial = Some (name_prefix f @ ''-'' @ s)"
    "portable_name L g Serial = Some (name_prefix g @ ''-'' @ t)"
    using assms(5-8) by (auto simp: portable_name_def tier_key_def Let_def slugify_id)
  with assms have "fp_vendor_id f @ ''-'' @ fp_product_id f @ ''-'' @ s =
      fp_vendor_id g @ ''-'' @ fp_product_id g @ ''-'' @ t"
    by (simp add: name_prefix_usb_id4)
  moreover have "length (fp_vendor_id f) = length (fp_vendor_id g)"
    "length (fp_product_id f) = length (fp_product_id g)"
    using assms(1-4) by (simp_all add: usb_id4_def)
  ultimately have "fp_vendor_id f = fp_vendor_id g \<and> fp_product_id f = fp_product_id g \<and> s = t"
    by simp
  with assms(5,6) show ?thesis by (simp add: tier_key_def)
qed

definition sample_fp :: "string \<Rightarrow> Fingerprint" where
  "sample_fp s = \<lparr>fp_vendor_id = ''10c4'', fp_product_id = ''ea60'', fp_serial = Some s,
     fp_bcd_device = None, fp_manufacturer = None, fp_product = None\<rparr>"

theorem readable_serial_names_injective_witness:
  "usb_id4 ''10c4'' \<and> usb_id4 ''ea60'' \<and> slug_ok ''a1b2'' \<and>
   tier_key (sample_fp ''a1b2'') Serial = tier_key (sample_fp ''a1b2'') Serial"
proof -
  have ids: "usb_id4 ''10c4''" "usb_id4 ''ea60''" and s: "slug_ok ''a1b2''"
    and ser: "serial (sample_fp ''a1b2'') = Some ''a1b2''"
    by code_simp+
  show ?thesis
    using ids s readable_serial_names_injective
      [of "sample_fp ''a1b2''" "sample_fp ''a1b2''" "''a1b2''" "''a1b2''" sample_lib] ser
    by (simp add: sample_fp_def)
qed

text \<open>
  The argument \<open>usbredirect --device BUS-DEVNUM\<close> names one enumeration: two
  devices print alike exactly when bus and device number agree.
\<close>

theorem bus_dev_injective:
  "bus_dev d = bus_dev e \<longleftrightarrow> ui_bus_num d = ui_bus_num e \<and> ui_dev_num d = ui_dev_num e"
proof -
  have "bus_dev d = bus_dev e \<Longrightarrow>
    show_nat (unat (ui_bus_num d)) = show_nat (unat (ui_bus_num e)) \<and>
    show_nat (unat (ui_dev_num d)) = show_nat (unat (ui_dev_num e))"
    unfolding bus_dev_def by (rule append_Cons_eq_sep) auto
  then show ?thesis by (auto simp: bus_dev_def word_unat_eq_iff)
qed

section \<open>Label values\<close>

lemma pop_non_alphanumeric_id:
  "out = [] \<or> is_ascii_alphanumeric (last out) \<Longrightarrow> pop_non_alphanumeric out = out"
  by (cases out rule: rev_cases) (auto simp: pop_non_alphanumeric_def)

lemma pop_non_alphanumeric_last:
  "pop_non_alphanumeric s \<noteq> [] \<Longrightarrow> is_ascii_alphanumeric (last (pop_non_alphanumeric s))"
  unfolding pop_non_alphanumeric_def by (metis (mono_tags) hd_dropWhile last_rev rev_is_Nil_conv)

lemma set_pop_non_alphanumeric: "set (pop_non_alphanumeric s) \<subseteq> set s"
  by (auto simp: pop_non_alphanumeric_def dest: set_dropWhileD)

lemma length_pop_non_alphanumeric: "length (pop_non_alphanumeric s) \<le> length s"
  using length_dropWhile_le [of _ "rev s"] by (simp add: pop_non_alphanumeric_def)

lemma alnum_pop_non_alphanumeric:
  "(\<exists>c \<in> set (pop_non_alphanumeric s). is_ascii_alphanumeric c) \<longleftrightarrow> (\<exists>c \<in> set s. is_ascii_alphanumeric c)"
proof -
  have "c \<in> set (dropWhile (\<lambda>c. \<not> is_ascii_alphanumeric c) t)" if "c \<in> set t" "is_ascii_alphanumeric c" for c t
    using that by (induction t) auto
  then show ?thesis
    using set_pop_non_alphanumeric [of s] by (auto simp: pop_non_alphanumeric_def)
qed

lemma last_dropWhile: "dropWhile P xs \<noteq> [] \<Longrightarrow> last (dropWhile P xs) = last xs"
  by (induction xs) auto

lemma label_map_char: "label_char (label_map c)"
  by (simp add: label_map_def label_char_def)

lemma alnum_label_map: "is_ascii_alphanumeric (label_map c) = is_ascii_alphanumeric c"
  by (auto simp: label_map_def label_char_def rust_defs)

lemma label_value_valid: 
  assumes "label_value s = Some v" shows "valid_label v"
proof -
  let ?out = "pop_non_alphanumeric (take 63 (map label_map (chars s)))"
  from assms have ex: "\<exists>c \<in> set ?out. is_ascii_alphanumeric c"
    and v: "v = dropWhile (\<lambda>c. \<not> is_ascii_alphanumeric c) ?out"
    by (auto simp: label_value_def Let_def list_ex_iff split: if_splits)
  from ex v have ne: "v \<noteq> []" by auto
  then have o: "?out \<noteq> []" using v by auto
  have "length v \<le> 63"
    unfolding v using length_dropWhile_le [of "\<lambda>c. \<not> is_ascii_alphanumeric c" ?out]
      length_pop_non_alphanumeric [of "take 63 (map label_map (chars s))"] by simp
  moreover have "list_all label_char v"
  proof -
    have "set v \<subseteq> set (take 63 (map label_map (chars s)))"
      unfolding v using set_pop_non_alphanumeric by (force dest: set_dropWhileD)
    then have "set v \<subseteq> label_map ` set (chars s)" by (auto dest!: in_set_takeD)
    then show ?thesis by (auto simp: list_all_iff label_map_char)
  qed
  moreover have "is_ascii_alphanumeric (hd v)"
    using ne unfolding v by (metis (mono_tags) hd_dropWhile)
  moreover have "is_ascii_alphanumeric (last v)"
    using ne pop_non_alphanumeric_last [OF o] unfolding v by (metis last_dropWhile)
  ultimately show ?thesis using ne by (simp add: valid_label_def)
qed

lemma label_value_id:
  assumes "valid_label v" shows "label_value v = Some v"
proof -
  have "\<forall>c \<in> set v. code c < 128"
    using assms by (auto simp: valid_label_def list_all_iff label_char_def rust_defs)
  then have c: "chars v = v" by (rule chars_ascii)
  have m: "map label_map v = v"
    using assms by (auto simp: valid_label_def list_all_iff label_map_def intro: map_idI)
  have p: "pop_non_alphanumeric v = v"
    using assms by (intro pop_non_alphanumeric_id) (simp add: valid_label_def)
  have "dropWhile (\<lambda>c. \<not> is_ascii_alphanumeric c) v = v"
    using assms by (cases v) (auto simp: valid_label_def)
  with c m p assms show ?thesis
    by (auto simp: label_value_def Let_def valid_label_def list_ex_iff)
qed

lemma label_value_None:
  "label_value s = None \<longleftrightarrow> \<not> (\<exists>c \<in> set (take 63 (chars s)). is_ascii_alphanumeric c)"
  by (simp add: label_value_def Let_def list_ex_iff alnum_pop_non_alphanumeric take_map alnum_label_map)

text \<open>
  \<open>label_value\<close> yields valid label values only (1 to 63 characters of the label
  alphabet, alphanumeric at both ends), leaves exactly the valid ones unchanged, and gives up
  exactly when the first 63 characters hold nothing alphanumeric.
\<close>

theorem label_value_correct:
  "pred_option valid_label (label_value s) \<and>
   (label_value s = Some s \<longleftrightarrow> valid_label s) \<and>
   (label_value s = None \<longleftrightarrow> \<not> (\<exists>c. c \<in> set (take 63 (chars s)) \<and> is_ascii_alphanumeric c))"
proof -
  have "pred_option valid_label (label_value s)"
    using label_value_valid by (cases "label_value s") auto
  then show ?thesis using label_value_valid label_value_id label_value_None by blast
qed

section \<open>USB ids\<close>

lemma digit_value_nonhex: "\<not> is_ascii_hexdigit c \<Longrightarrow> digit_value 16 c = None"
  by (auto simp: digit_value_def rust_defs Let_def)

lemma hexdigit_value:
  "is_ascii_hexdigit c \<Longrightarrow> \<exists>v < 16. digit_value 16 c = Some v \<and> to_ascii_lowercase c = hex_digit v"
proof -
  assume "is_ascii_hexdigit c"
  then consider "48 \<le> code c" "code c \<le> 57" | "97 \<le> code c" "code c \<le> 102" | "65 \<le> code c" "code c \<le> 70"
    by (auto simp: is_ascii_hexdigit_def is_ascii_digit_def)
  then show ?thesis
  proof cases
    case 1
    moreover from 1 have "char_of (48 + (code c - 48)) = c" by simp
    ultimately show ?thesis
      by (intro exI [of _ "code c - 48"]) (auto simp: rust_defs digit_value_def hex_digit_def Let_def)
  next
    case 2
    moreover from 2 have "char_of (87 + (code c - 87)) = c" by simp
    ultimately show ?thesis
      by (intro exI [of _ "code c - 87"]) (auto simp: rust_defs digit_value_def hex_digit_def Let_def)
  next
    case 3
    moreover from 3 have "87 + (code c - 55) = code c + 32" by simp
    ultimately show ?thesis
      by (intro exI [of _ "code c - 55"]) (auto simp: rust_defs digit_value_def hex_digit_def Let_def)
  qed
qed

lemma hex4_digits:
  assumes "a < 16" "b < 16" "c < 16" "d < 16"
  shows "hex4 (((a * 16 + b) * 16 + c) * 16 + d) = [hex_digit a, hex_digit b, hex_digit c, hex_digit d]"
proof -
  let ?n = "((a * 16 + b) * 16 + c) * 16 + d"
  have step: "(x * 16 + y) div 16 = x" if "y < 16" for x y :: nat
    using that by simp
  have 1: "?n div 16 = (a * 16 + b) * 16 + c" by (rule step [OF assms(4)])
  have "?n div 256 = ?n div 16 div 16" by (simp flip: div_mult2_eq)
  then have 2: "?n div 256 = a * 16 + b" unfolding 1 by (simp only: step [OF assms(3)])
  have "?n div 4096 = ?n div 256 div 16" by (simp flip: div_mult2_eq)
  then have 3: "?n div 4096 = a" unfolding 2 by (simp only: step [OF assms(2)])
  have low: "(x * 16 + y) mod 16 = y" if "y < 16" for x y :: nat
    using that by simp
  show ?thesis
    unfolding hex4_def 1 2 3 by (simp only: low [OF assms(2)] low [OF assms(3)] low [OF assms(4)])
qed

lemma hex_digit_0: "hex_digit 0 = CHR ''0''"
  by code_simp

lemma pad4_hex:
  assumes "length h = 4" "list_all is_ascii_hexdigit h"
  shows "\<exists>n. parse_digits 16 0 h = Some n \<and> map to_ascii_lowercase h = hex4 n"
proof -
  obtain a b c d where h: "h = [a, b, c, d]"
    using assms(1) by (auto simp: numeral_eq_Suc length_Suc_conv)
  then obtain v w x y where "v < 16" "digit_value 16 a = Some v" "to_ascii_lowercase a = hex_digit v"
    "w < 16" "digit_value 16 b = Some w" "to_ascii_lowercase b = hex_digit w"
    "x < 16" "digit_value 16 c = Some x" "to_ascii_lowercase c = hex_digit x"
    "y < 16" "digit_value 16 d = Some y" "to_ascii_lowercase d = hex_digit y"
    using assms(2) hexdigit_value by (metis list.pred_inject(2))
  with h hex4_digits [of v w x y] show ?thesis by simp
qed

lemma parse_digits_zeros: "parse_digits 16 0 (replicate k (CHR ''0'') @ h) = parse_digits 16 0 h"
proof (induction k)
  case (Suc k)
  have "digit_value 16 (CHR ''0'') = Some 0" by code_simp
  with Suc show ?case by simp
qed simp

lemma pad_lower_hex:
  assumes "length h \<le> 4" "list_all is_ascii_hexdigit h"
  shows "\<exists>n. parse_digits 16 0 h = Some n \<and>
    replicate (4 - length h) (CHR ''0'') @ map to_ascii_lowercase h = hex4 n"
proof -
  let ?p = "replicate (4 - length h) (CHR ''0'') @ h"
  have z: "is_ascii_hexdigit (CHR ''0'')" "to_ascii_lowercase (CHR ''0'') = CHR ''0''" by code_simp+
  have "length ?p = 4" "list_all is_ascii_hexdigit ?p"
    using assms z by (auto simp: list_all_iff)
  then obtain n where "parse_digits 16 0 ?p = Some n" "map to_ascii_lowercase ?p = hex4 n"
    using pad4_hex by blast
  with z show ?thesis by (auto simp: parse_digits_zeros)
qed

lemma parse_digits_nonhex: "\<not> list_all is_ascii_hexdigit h \<Longrightarrow> parse_digits 16 acc h = None"
proof (induction h arbitrary: acc)
  case (Cons c h)
  then show ?case
    by (cases "is_ascii_hexdigit c") (auto simp: digit_value_nonhex split: option.splits)
qed simp

text \<open>
  \<open>normalize_usb_id\<close> is \<open>parse, then print with four digits\<close>: it accepts
  exactly one to four hexadecimal digits (after white space and an optional \<open>0x\<close>) and
  prints the number they denote.
\<close>

theorem normalize_usb_id_is_parse_print:
"normalize_usb_id s =
     (let d = usb_id_digits s in if d = [] \<or> length d > 4 then None else map_option hex4 (parse_digits 16 0 d))"
proof -
  let ?d = "usb_id_digits s"
  have n: "normalize_usb_id s = (if ?d = [] \<or> length ?d > 4 \<or> \<not> list_all is_ascii_hexdigit ?d then None
         else Some (replicate (4 - length ?d) (CHR ''0'') @ map to_ascii_lowercase ?d))"
    by (simp add: normalize_usb_id_def Let_def)
  show ?thesis
  proof (cases "?d = [] \<or> length ?d > 4 \<or> \<not> list_all is_ascii_hexdigit ?d")
    case True
    with n show ?thesis by (auto simp: parse_digits_nonhex Let_def)
  next
    case False
    with pad_lower_hex [of ?d] n show ?thesis by (auto simp: Let_def)
  qed
qed

end
