(* ===== verification/Assign.thy ===== *)
theory Assign
  imports Names
begin

text \<open>
  \<open>src/identity.rs\<close>, the assigning half: \<open>assign\<close> gives every device plugged into a node
  its object name. A first loop keeps the names given earlier to devices that are still plugged
  in (unless another node wins the tie for the name), a second one chooses a name for the others
  tier by tier. The lemmas show that every device gets a decision, that portable names are
  exclusive and unambiguous, when a decision is deferred, and that the port fallback is the one
  way two devices can end up with the same name.
\<close>

section \<open>Data\<close>

datatype InstanceKey = InstanceKey (ik_port_path: string) (ik_bus_num: u32) (ik_dev_num: u32)

definition instance_key_of :: "UsbDeviceInfo \<Rightarrow> InstanceKey" where
  "instance_key_of d = InstanceKey (ui_port_path d) (ui_bus_num d) (ui_dev_num d)"

text \<open>The derived order: field by field.\<close>

definition ik_fields :: "InstanceKey \<Rightarrow> string \<times> u32 \<times> u32" where
  "ik_fields k = (ik_port_path k, ik_bus_num k, ik_dev_num k)"

lemma ik_fields_inj: "ik_fields a = ik_fields b \<longleftrightarrow> a = b"
  by (cases a; cases b) (simp add: ik_fields_def)

instantiation InstanceKey :: linorder
begin

definition less_eq_InstanceKey :: "InstanceKey \<Rightarrow> InstanceKey \<Rightarrow> bool" where
  "less_eq_InstanceKey a b \<longleftrightarrow> ik_fields a \<le> ik_fields b"

definition less_InstanceKey :: "InstanceKey \<Rightarrow> InstanceKey \<Rightarrow> bool" where
  "less_InstanceKey a b \<longleftrightarrow> ik_fields a < ik_fields b"

instance
  by standard (auto simp: less_eq_InstanceKey_def less_InstanceKey_def less_le_not_le ik_fields_inj
      dest: order_antisym)

end

record Assignment =
  as_name :: string
  as_source :: IdentitySource

record KnownDevice =
  kd_name :: string
  kd_fingerprint :: Fingerprint
  kd_present_on :: "string option"

datatype Decision = Assigned Assignment | Deferred (dc_name: string) (dc_held_by: string)

record AssignContext =
  ac_node :: string
  ac_sticky :: "InstanceKey \<rightharpoonup> Assignment"
  ac_known :: "KnownDevice list"
  ac_may_defer :: "InstanceKey set"

section \<open>Operations\<close>

definition known_by_name_of :: "KnownDevice list \<Rightarrow> (string \<rightharpoonup> KnownDevice)" where
  "known_by_name_of known = collect_map (map (\<lambda>k. (kd_name k, k)) known)"

definition present_on_node :: "(string \<rightharpoonup> KnownDevice) \<Rightarrow> string \<Rightarrow> string option" where
  "present_on_node known_by_name name =
     (case known_by_name name of None \<Rightarrow> None | Some k \<Rightarrow> kd_present_on k)"

fun choose_tiers ::
  "Lib \<Rightarrow> AssignContext \<Rightarrow> (string \<rightharpoonup> KnownDevice) \<Rightarrow> (InstanceKey \<times> Fingerprint) list \<Rightarrow> string set \<Rightarrow>
   InstanceKey \<Rightarrow> Fingerprint \<Rightarrow> IdentitySource list \<Rightarrow> Decision" where
  "choose_tiers L ctx known_by_name local taken key fp [] =
     Assigned \<lparr>as_name = port_name L fp (ac_node ctx) (ik_port_path key), as_source = PortPath\<rparr>"
| "choose_tiers L ctx known_by_name local taken key fp (tier # tiers) =
     (case portable_name L fp tier of
        None \<Rightarrow>
          if tier = PortPath then choose_tiers L ctx known_by_name local taken key fp []
          else choose_tiers L ctx known_by_name local taken key fp tiers
      | Some name \<Rightarrow>
          if list_ex (\<lambda>(k, other). k \<noteq> key \<and> tier_key other tier = tier_key fp tier) local
             \<or> list_ex (\<lambda>k. kd_name k \<noteq> name \<and> tier_key (kd_fingerprint k) tier = tier_key fp tier) (ac_known ctx)
             \<or> name \<in> taken
          then choose_tiers L ctx known_by_name local taken key fp tiers
          else case present_on_node known_by_name name of
                 None \<Rightarrow> Assigned \<lparr>as_name = name, as_source = tier\<rparr>
               | Some held_by \<Rightarrow>
                   if held_by \<noteq> ac_node ctx then
                     if key \<in> ac_may_defer ctx then Deferred name held_by
                     else choose_tiers L ctx known_by_name local taken key fp tiers
                   else Assigned \<lparr>as_name = name, as_source = tier\<rparr>)"

definition choose_decision ::
  "Lib \<Rightarrow> AssignContext \<Rightarrow> (string \<rightharpoonup> KnownDevice) \<Rightarrow> (InstanceKey \<times> Fingerprint) list \<Rightarrow> string set \<Rightarrow>
   InstanceKey \<Rightarrow> Fingerprint \<Rightarrow> Decision" where
  "choose_decision L ctx known_by_name local taken key fp =
     choose_tiers L ctx known_by_name local taken key fp ORDER"

definition lost_tie :: "AssignContext \<Rightarrow> (string \<rightharpoonup> KnownDevice) \<Rightarrow> Assignment \<Rightarrow> bool" where
  "lost_tie ctx known_by_name a =
     (case present_on_node known_by_name (as_name a) of
        None \<Rightarrow> False
      | Some other \<Rightarrow> other \<noteq> ac_node ctx \<and> other < ac_node ctx)"

type_synonym assign_state = "(InstanceKey \<rightharpoonup> Decision) \<times> string set"

definition keep_sticky ::
  "AssignContext \<Rightarrow> (string \<rightharpoonup> KnownDevice) \<Rightarrow> InstanceKey \<times> Fingerprint \<Rightarrow> assign_state \<Rightarrow> assign_state" where
  "keep_sticky ctx known_by_name kf st =
     (case (kf, st) of ((key, _), (decisions, taken)) \<Rightarrow>
        case ac_sticky ctx key of
          None \<Rightarrow> st
        | Some a \<Rightarrow>
            if \<not> lost_tie ctx known_by_name a \<and> as_name a \<notin> taken
            then (decisions(key \<mapsto> Assigned a), insert (as_name a) taken) else st)"

definition choose_new ::
  "Lib \<Rightarrow> AssignContext \<Rightarrow> (string \<rightharpoonup> KnownDevice) \<Rightarrow> (InstanceKey \<times> Fingerprint) list \<Rightarrow>
   InstanceKey \<times> Fingerprint \<Rightarrow> assign_state \<Rightarrow> assign_state" where
  "choose_new L ctx known_by_name local kf st =
     (case (kf, st) of ((key, fp), (decisions, taken)) \<Rightarrow>
        if decisions key \<noteq> None then st
        else let decision = choose_decision L ctx known_by_name local taken key fp
             in (decisions(key \<mapsto> decision),
                 case decision of Assigned a \<Rightarrow> insert (as_name a) taken | Deferred _ _ \<Rightarrow> taken))"

definition fingerprints_of :: "UsbDeviceInfo list \<Rightarrow> (InstanceKey \<times> Fingerprint) list" where
  "fingerprints_of local = map (\<lambda>d. (instance_key_of d, fingerprint_of d)) local"

definition assign :: "Lib \<Rightarrow> AssignContext \<Rightarrow> UsbDeviceInfo list \<Rightarrow> (InstanceKey \<rightharpoonup> Decision)" where
  "assign L ctx local =
     (let known_by_name = known_by_name_of (ac_known ctx);
          fingerprints = fingerprints_of local;
          kept = fold (keep_sticky ctx known_by_name) fingerprints (Map.empty, {})
      in fst (fold (choose_new L ctx known_by_name fingerprints) fingerprints kept))"

section \<open>Choosing a name\<close>

text \<open>What a decision of \<^const>\<open>choose_tiers\<close> can be, tier by tier.\<close>

definition unambiguous ::
  "AssignContext \<Rightarrow> (InstanceKey \<times> Fingerprint) list \<Rightarrow> InstanceKey \<Rightarrow> Fingerprint \<Rightarrow> IdentitySource \<Rightarrow> string \<Rightarrow> bool" where
  "unambiguous ctx local key fp tier name \<longleftrightarrow>
     (\<forall>(k, other) \<in> set local. k \<noteq> key \<longrightarrow> tier_key other tier \<noteq> tier_key fp tier) \<and>
     (\<forall>k \<in> set (ac_known ctx). kd_name k \<noteq> name \<longrightarrow> tier_key (kd_fingerprint k) tier \<noteq> tier_key fp tier)"

definition held_elsewhere :: "AssignContext \<Rightarrow> (string \<rightharpoonup> KnownDevice) \<Rightarrow> string \<Rightarrow> bool" where
  "held_elsewhere ctx kbn name \<longleftrightarrow> (\<exists>h. present_on_node kbn name = Some h \<and> h \<noteq> ac_node ctx)"

definition port_fallback :: "Lib \<Rightarrow> AssignContext \<Rightarrow> InstanceKey \<Rightarrow> Fingerprint \<Rightarrow> Assignment" where
  "port_fallback L ctx key fp =
     \<lparr>as_name = port_name L fp (ac_node ctx) (ik_port_path key), as_source = PortPath\<rparr>"

lemma portable_name_PortPath [simp]: "portable_name L fp PortPath = None"
  by (simp add: portable_name_def tier_key_def)

lemma choose_tiers_cases:
  fixes L ctx kbn local taken key fp tiers
  defines "d \<equiv> choose_tiers L ctx kbn local taken key fp tiers"
  shows "d = Assigned (port_fallback L ctx key fp) \<or>
    (\<exists>tier name. tier \<in> set tiers \<and> portable_name L fp tier = Some name \<and> name \<notin> taken \<and>
       unambiguous ctx local key fp tier name \<and>
       ((d = Assigned \<lparr>as_name = name, as_source = tier\<rparr> \<and> \<not> held_elsewhere ctx kbn name) \<or>
        (\<exists>h. d = Deferred name h \<and> key \<in> ac_may_defer ctx \<and> present_on_node kbn name = Some h \<and> h \<noteq> ac_node ctx)))"
  unfolding d_def
proof (induction tiers)
  case Nil
  then show ?case by (simp add: port_fallback_def)
next
  case (Cons tier tiers)
  show ?case
  proof (cases "portable_name L fp tier")
    case None
    with Cons show ?thesis by (auto simp: port_fallback_def)
  next
    case (Some name)
    let ?skip = "list_ex (\<lambda>(k, other). k \<noteq> key \<and> tier_key other tier = tier_key fp tier) local
             \<or> list_ex (\<lambda>k. kd_name k \<noteq> name \<and> tier_key (kd_fingerprint k) tier = tier_key fp tier) (ac_known ctx)
             \<or> name \<in> taken"
    show ?thesis
    proof (cases ?skip)
      case True
      with Some Cons show ?thesis by (simp, blast)
    next
      case False
      then have "unambiguous ctx local key fp tier name \<and> name \<notin> taken"
        by (auto simp: unambiguous_def list_ex_iff)
      moreover have "choose_tiers L ctx kbn local taken key fp (tier # tiers) =
          (case present_on_node kbn name of
             None \<Rightarrow> Assigned \<lparr>as_name = name, as_source = tier\<rparr>
           | Some held_by \<Rightarrow> if held_by \<noteq> ac_node ctx then
                 if key \<in> ac_may_defer ctx then Deferred name held_by
                 else choose_tiers L ctx kbn local taken key fp tiers
               else Assigned \<lparr>as_name = name, as_source = tier\<rparr>)"
        using False Some by auto
      ultimately show ?thesis
        using Some Cons
        by (cases "present_on_node kbn name") (auto simp: held_elsewhere_def)
    qed
  qed
qed

section \<open>The first loop\<close>

definition assigned_name :: "assign_state \<Rightarrow> InstanceKey \<rightharpoonup> string" where
  "assigned_name st k = (case fst st k of Some (Assigned a) \<Rightarrow> Some (as_name a) | _ \<Rightarrow> None)"

interpretation sticky_pass: grant_pass "keep_sticky ctx kbn" fst assigned_name snd for ctx kbn
proof
  fix kf :: "InstanceKey \<times> Fingerprint" and st :: assign_state
  obtain key fp decisions taken where kf: "kf = (key, fp)" "st = (decisions, taken)"
    by (metis surj_pair)
  show "(snd (keep_sticky ctx kbn kf st) = snd st \<and>
       (assigned_name (keep_sticky ctx kbn kf st) = assigned_name st \<or>
        assigned_name (keep_sticky ctx kbn kf st) = (assigned_name st)(fst kf := None))) \<or>
     (\<exists>r. r \<notin> snd st \<and> assigned_name (keep_sticky ctx kbn kf st) = (assigned_name st)(fst kf \<mapsto> r) \<and>
        snd (keep_sticky ctx kbn kf st) = insert r (snd st))"
    unfolding kf keep_sticky_def
    by (auto simp: assigned_name_def fun_eq_iff split: option.splits)
qed

text \<open>Everything the first loop decides is a kept assignment, and every name it takes is one.\<close>

definition kept_only :: "AssignContext \<Rightarrow> (string \<rightharpoonup> KnownDevice) \<Rightarrow> InstanceKey set \<Rightarrow> assign_state \<Rightarrow> bool" where
  "kept_only ctx kbn ks st \<longleftrightarrow>
     (\<forall>k d. fst st k = Some d \<longrightarrow> k \<in> ks \<and> (\<exists>a. d = Assigned a \<and> ac_sticky ctx k = Some a \<and> \<not> lost_tie ctx kbn a)) \<and>
     (\<forall>n \<in> snd st. \<exists>k a. k \<in> ks \<and> ac_sticky ctx k = Some a \<and> as_name a = n)"

lemma keep_sticky_kept_only:
  "kept_only ctx kbn ks st \<Longrightarrow> fst kf \<in> ks \<Longrightarrow> kept_only ctx kbn ks (keep_sticky ctx kbn kf st)"
  by (cases kf; cases st) (auto simp: kept_only_def keep_sticky_def split: option.splits)

lemma sticky_loop_kept_only: "kept_only ctx kbn (fst ` set kfs) (fold (keep_sticky ctx kbn) kfs (Map.empty, {}))"
  by (rule fold_invariant_set [where P = "kept_only ctx kbn (fst ` set kfs)"])
     (simp_all add: kept_only_def [of _ _ _ "(Map.empty, {})"] keep_sticky_kept_only)

lemma keep_sticky_persists:
  "fst st k = Some (Assigned a) \<Longrightarrow> ac_sticky ctx k = Some a \<Longrightarrow>
   fst (keep_sticky ctx kbn kf st) k = Some (Assigned a)"
  by (cases kf; cases st) (auto simp: keep_sticky_def split: option.splits)

lemma sticky_loop_keeps:
  assumes k: "k \<in> fst ` set kfs" and a: "ac_sticky ctx k = Some a" "\<not> lost_tie ctx kbn a"
    and uniq: "\<And>j b. j \<in> fst ` set kfs \<Longrightarrow> ac_sticky ctx j = Some b \<Longrightarrow> as_name b = as_name a \<Longrightarrow> j = k"
  shows "fst (fold (keep_sticky ctx kbn) kfs (Map.empty, {})) k = Some (Assigned a)"
proof -
  obtain us fp vs where kfs: "kfs = us @ (k, fp) # vs" and first: "k \<notin> fst ` set us"
    using k split_list_first_prop [of kfs "\<lambda>x. fst x = k"] by (auto simp: image_iff) (metis fst_conv)
  let ?st = "fold (keep_sticky ctx kbn) us (Map.empty, {})"
  have "as_name a \<notin> snd ?st"
  proof
    assume "as_name a \<in> snd ?st"
    then obtain j b where "j \<in> fst ` set us" "ac_sticky ctx j = Some b" "as_name b = as_name a"
      using sticky_loop_kept_only [of ctx kbn us] unfolding kept_only_def by blast
    with uniq [of j b] kfs first show False by auto
  qed
  then have "fst (keep_sticky ctx kbn (k, fp) ?st) k = Some (Assigned a)"
    using a by (cases ?st) (simp add: keep_sticky_def)
  then have "fst (fold (keep_sticky ctx kbn) vs (keep_sticky ctx kbn (k, fp) ?st)) k = Some (Assigned a)"
    by (rule fold_invariant_set [where P = "\<lambda>st. fst st k = Some (Assigned a)"])
       (rule keep_sticky_persists [OF _ a(1)])
  then show ?thesis by (simp add: kfs)
qed

section \<open>The second loop\<close>

lemma choose_new_keeps: "fst st k = Some d \<Longrightarrow> fst (choose_new L ctx kbn local kf st) k = Some d"
  by (cases kf; cases st) (auto simp: choose_new_def Let_def)

lemma choose_new_decides: "fst (choose_new L ctx kbn local (k, fp) st) k \<noteq> None"
  by (cases st) (auto simp: choose_new_def Let_def)

lemma choose_loop_decides:
  "k \<in> fst ` set kfs \<Longrightarrow> fst (fold (choose_new L ctx kbn local) kfs st) k \<noteq> None"
proof (induction kfs arbitrary: st)
  case (Cons kf kfs)
  show ?case
  proof (cases "k \<in> fst ` set kfs")
    case True
    with Cons.IH show ?thesis by simp
  next
    case False
    with Cons.prems obtain fp where kf: "kf = (k, fp)" by (cases kf) auto
    obtain d where "fst (choose_new L ctx kbn local kf st) k = Some d"
      using choose_new_decides [of L ctx kbn local k fp st] kf by auto
    then have "fst (fold (choose_new L ctx kbn local) kfs (choose_new L ctx kbn local kf st)) k = Some d"
      by (rule fold_invariant_set [where P = "\<lambda>st. fst st k = Some d"]) (rule choose_new_keeps)
    then show ?thesis by simp
  qed
qed simp

lemma choose_loop_only: 
  "fst (fold (choose_new L ctx kbn local) kfs st) k \<noteq> fst st k \<Longrightarrow> fst st k = None \<and> k \<in> fst ` set kfs"
proof (induction kfs arbitrary: st)
  case (Cons kf kfs)
  have "fst (choose_new L ctx kbn local kf st) k = fst st k \<or> (fst st k = None \<and> fst kf = k)"
    by (cases kf; cases st) (auto simp: choose_new_def Let_def)
  with Cons.prems Cons.IH [of "choose_new L ctx kbn local kf st"] show ?case by auto
qed simp

text \<open>
  What the second loop maintains: a new decision is one that \<^const>\<open>choose_decision\<close> can make;
  the names of all assignments are taken; and if two devices share a name, one of them was named
  by the port fallback.
\<close>

definition is_fallback ::
  "Lib \<Rightarrow> AssignContext \<Rightarrow> (InstanceKey \<times> Fingerprint) list \<Rightarrow> InstanceKey \<Rightarrow> Assignment \<Rightarrow> bool" where
  "is_fallback L ctx local k a \<longleftrightarrow> (\<exists>fp. (k, fp) \<in> set local \<and> a = port_fallback L ctx k fp)"

definition names_taken :: "assign_state \<Rightarrow> bool" where
  "names_taken st \<longleftrightarrow> (\<forall>k a. fst st k = Some (Assigned a) \<longrightarrow> as_name a \<in> snd st)"

definition shared_by_fallback ::
  "Lib \<Rightarrow> AssignContext \<Rightarrow> (InstanceKey \<times> Fingerprint) list \<Rightarrow> (InstanceKey \<rightharpoonup> Decision) \<Rightarrow> bool" where
  "shared_by_fallback L ctx local decisions \<longleftrightarrow>
     (\<forall>j k a b. decisions j = Some (Assigned a) \<longrightarrow> decisions k = Some (Assigned b) \<longrightarrow> as_name a = as_name b \<longrightarrow>
        j = k \<or> is_fallback L ctx local j a \<or> is_fallback L ctx local k b)"

lemma choose_decision_fresh:
  assumes "choose_decision L ctx kbn local taken key fp = Assigned a"
  shows "a = port_fallback L ctx key fp \<or> as_name a \<notin> taken"
  using choose_tiers_cases [of L ctx kbn local taken key fp ORDER] assms
  by (auto simp: choose_decision_def)

lemma choose_new_inv:
  assumes kf: "kf \<in> set local" and taken: "names_taken st" and shared: "shared_by_fallback L ctx local (fst st)"
  shows "names_taken (choose_new L ctx kbn local kf st) \<and>
    shared_by_fallback L ctx local (fst (choose_new L ctx kbn local kf st))"
proof -
  obtain key fp where kf': "kf = (key, fp)" by fastforce
  obtain decisions taken where st: "st = (decisions, taken)" by fastforce
  let ?d = "choose_decision L ctx kbn local taken key fp"
  show ?thesis
  proof (cases "decisions key \<noteq> None")
    case True
    with assms show ?thesis by (simp add: kf' st choose_new_def)
  next
    case False
    then have new: "choose_new L ctx kbn local kf st =
       (decisions(key \<mapsto> ?d), case ?d of Assigned a \<Rightarrow> insert (as_name a) taken | Deferred _ _ \<Rightarrow> taken)"
      by (simp add: kf' st choose_new_def Let_def)
    have fb: "is_fallback L ctx local key a \<or> as_name a \<notin> taken" if "?d = Assigned a" for a
      using choose_decision_fresh [OF that] kf kf' by (auto simp: is_fallback_def)
    have old: "as_name a \<in> taken" if "decisions k = Some (Assigned a)" for k a
      using assms(2) that by (auto simp: names_taken_def st)
    have "shared_by_fallback L ctx local (decisions(key \<mapsto> ?d))"
      unfolding shared_by_fallback_def
    proof (intro allI impI)
      fix j k a b
      assume h: "(decisions(key \<mapsto> ?d)) j = Some (Assigned a)" "(decisions(key \<mapsto> ?d)) k = Some (Assigned b)"
        "as_name a = as_name b"
      show "j = k \<or> is_fallback L ctx local j a \<or> is_fallback L ctx local k b"
      proof (cases "j = key \<or> k = key")
        case True
        with h fb [of a] fb [of b] old [of j a] old [of k b] show ?thesis by (auto split: if_splits)
      next
        case False
        with h shared show ?thesis by (auto simp: shared_by_fallback_def st)
      qed
    qed
    moreover have "names_taken (choose_new L ctx kbn local kf st)"
      using old by (auto simp: new names_taken_def split: Decision.splits if_splits)
    ultimately show ?thesis by (simp add: new)
  qed
qed

definition from_choose ::
  "Lib \<Rightarrow> AssignContext \<Rightarrow> (string \<rightharpoonup> KnownDevice) \<Rightarrow> (InstanceKey \<times> Fingerprint) list \<Rightarrow>
   (InstanceKey \<rightharpoonup> Decision) \<Rightarrow> (InstanceKey \<rightharpoonup> Decision) \<Rightarrow> bool" where
  "from_choose L ctx kbn local kept decisions \<longleftrightarrow>
     (\<forall>k d. decisions k = Some d \<longrightarrow> kept k = Some d \<or>
        (\<exists>fp taken. (k, fp) \<in> set local \<and> d = choose_decision L ctx kbn local taken k fp))"

lemma choose_new_from_choose:
  "kf \<in> set local \<Longrightarrow> from_choose L ctx kbn local kept (fst st) \<Longrightarrow>
   from_choose L ctx kbn local kept (fst (choose_new L ctx kbn local kf st))"
  by (cases kf; cases st) (auto simp: from_choose_def choose_new_def Let_def)

section \<open>The whole assignment\<close>

abbreviation kept_of :: "AssignContext \<Rightarrow> UsbDeviceInfo list \<Rightarrow> assign_state" where
  "kept_of ctx local \<equiv> fold (keep_sticky ctx (known_by_name_of (ac_known ctx))) (fingerprints_of local) (Map.empty, {})"

lemma kept_inv:
  "names_taken (kept_of ctx local) \<and> shared_by_fallback L ctx kfs (fst (kept_of ctx local))"
proof -
  have "sticky_pass.exclusive (Map.empty, {})"
    by (simp add: sticky_pass.exclusive_def assigned_name_def)
  then have "sticky_pass.exclusive (kept_of ctx local)"
    by (rule sticky_pass.exclusive_fold)
  then show ?thesis
    unfolding sticky_pass.exclusive_def names_taken_def shared_by_fallback_def assigned_name_def
    by (auto split: option.splits Decision.splits)
qed

lemma assign_eq:
  "assign L ctx local =
     fst (fold (choose_new L ctx (known_by_name_of (ac_known ctx)) (fingerprints_of local)) (fingerprints_of local) (kept_of ctx local))"
  by (simp add: assign_def Let_def)

lemma assign_shared: "shared_by_fallback L ctx (fingerprints_of local) (assign L ctx local)"
proof -
  let ?kfs = "fingerprints_of local"
  let ?P = "\<lambda>st. names_taken st \<and> shared_by_fallback L ctx ?kfs (fst st)"
  have "?P (fold (choose_new L ctx (known_by_name_of (ac_known ctx)) ?kfs) ?kfs (kept_of ctx local))"
    by (rule fold_invariant_set [where P = ?P]) (simp_all only: kept_inv choose_new_inv)
  then show ?thesis by (simp add: assign_eq)
qed

lemma assign_from_choose:
  "from_choose L ctx (known_by_name_of (ac_known ctx)) (fingerprints_of local) (fst (kept_of ctx local)) (assign L ctx local)"
  unfolding assign_eq
  by (rule fold_invariant_set [where P = "\<lambda>st. from_choose L ctx _ (fingerprints_of local) (fst (kept_of ctx local)) (fst st)"])
     (auto simp: from_choose_def [of _ _ _ _ "fst (kept_of ctx local)" "fst (kept_of ctx local)"] intro: choose_new_from_choose)


lemma assign_decides: "d \<in> set local \<Longrightarrow> assign L ctx local (instance_key_of d) \<noteq> None"
  unfolding assign_eq by (rule choose_loop_decides) (force simp: fingerprints_of_def)

lemma assign_dom: "dom (assign L ctx local) = instance_key_of ` set local"
proof
  show "dom (assign L ctx local) \<subseteq> instance_key_of ` set local"
  proof
    fix k assume "k \<in> dom (assign L ctx local)"
    then obtain d where d: "assign L ctx local k = Some d" by blast
    have "k \<in> fst ` set (fingerprints_of local)"
    proof (cases "fst (kept_of ctx local) k")
      case None
      with d show ?thesis
        using choose_loop_only [of L ctx _ "fingerprints_of local" "fingerprints_of local" "kept_of ctx local" k]
        by (auto simp: assign_eq)
    next
      case (Some e)
      then show ?thesis
        using sticky_loop_kept_only [of ctx "known_by_name_of (ac_known ctx)" "fingerprints_of local"]
        unfolding kept_only_def by blast
    qed
    then show "k \<in> instance_key_of ` set local" by (auto simp: fingerprints_of_def)
  qed
  show "instance_key_of ` set local \<subseteq> dom (assign L ctx local)"
    using assign_decides by blast
qed

text \<open>A decision that is not a kept assignment obeys the rules of \<^const>\<open>choose_tiers\<close>.\<close>

lemma assign_cases:
  assumes "assign L ctx local k = Some d"
  obtains (kept) a where "d = Assigned a" "ac_sticky ctx k = Some a" "\<not> lost_tie ctx (known_by_name_of (ac_known ctx)) a"
  | (fallback) a where "d = Assigned a" "is_fallback L ctx (fingerprints_of local) k a"
  | (portable) fp tier name where "(k, fp) \<in> set (fingerprints_of local)" "portable_name L fp tier = Some name"
      "unambiguous ctx (fingerprints_of local) k fp tier name" "d = Assigned \<lparr>as_name = name, as_source = tier\<rparr>"
      "\<not> held_elsewhere ctx (known_by_name_of (ac_known ctx)) name"
  | (deferred) fp tier name h where "(k, fp) \<in> set (fingerprints_of local)" "portable_name L fp tier = Some name"
      "d = Deferred name h" "k \<in> ac_may_defer ctx"
      "present_on_node (known_by_name_of (ac_known ctx)) name = Some h" "h \<noteq> ac_node ctx"
proof -
  let ?kbn = "known_by_name_of (ac_known ctx)" and ?kfs = "fingerprints_of local"
  consider "fst (kept_of ctx local) k = Some d"
    | fp taken where "(k, fp) \<in> set ?kfs" "d = choose_decision L ctx ?kbn ?kfs taken k fp"
    using assign_from_choose [of L ctx local] assms unfolding from_choose_def by blast
  then show ?thesis
  proof cases
    case 1
    then show ?thesis
      using sticky_loop_kept_only [of ctx ?kbn ?kfs] kept unfolding kept_only_def by blast
  next
    case (2 fp taken)
    then show ?thesis
      using choose_tiers_cases [of L ctx ?kbn ?kfs taken k fp ORDER] fallback portable deferred
      unfolding choose_decision_def is_fallback_def by metis
  qed
qed

section \<open>A collision\<close>

definition plain_device :: "string \<Rightarrow> u32 \<Rightarrow> string option \<Rightarrow> UsbDeviceInfo" where
  "plain_device port n serial_no =
     \<lparr>ui_port_path = port, ui_bus_num = 1, ui_dev_num = n, ui_vendor_id = ''1a86'', ui_product_id = ''7523'',
      ui_serial = serial_no, ui_manufacturer = None, ui_product = None, ui_bcd_device = None,
      ui_device_class = 255, ui_interface_classes = [], ui_speed = None\<rparr>"

definition first_scan :: "string \<Rightarrow> AssignContext" where
  "first_scan node = \<lparr>ac_node = node, ac_sticky = Map.empty, ac_known = [], ac_may_defer = {}\<rparr>"

definition forged_serial :: "Lib \<Rightarrow> string" where
  "forged_serial L = ''node-a-1-1-'' @ short_hash L PortPath [''1a86'', ''7523'', ''node-a'', ''1-1'']"

abbreviation twin_fp :: Fingerprint where
  "twin_fp \<equiv> fingerprint_of (plain_device ''1-1'' 3 None)"

lemma literal_slugs: "slugify ''1a86'' = ''1a86''" "slugify ''7523'' = ''7523''" "slugify ''node-a'' = ''node-a''" "slugify ''1-1'' = ''1-1''"
  by code_simp+

lemma twin_port_name: "port_name L twin_fp ''node-a'' ''1-1'' = ''usb-1a86-7523-'' @ forged_serial L"
  by (simp add: port_name_def join_name_eq name_prefix_def fingerprint_of_def plain_device_def literal_slugs forged_serial_def)

lemma forged_serial_slug:
  assumes "hex_contract L" "sha256_contract L"
  shows "slug_ok (forged_serial L)" and "trim (forged_serial L) = forged_serial L"
proof -
  let ?h = "short_hash L PortPath [''1a86'', ''7523'', ''node-a'', ''1-1'']"
  have "length ?h = 8" and hex: "\<forall>c \<in> set ?h. lower_hex c"
    using assms by (auto simp: short_hash_def contract_defs)
  then obtain a b c d e f g h where h: "?h = [a, b, c, d, e, f, g, h]"
    by (auto simp: numeral_eq_Suc length_Suc_conv)
  have "list_all slug_char_ok ''node-a-1-1-''" by code_simp
  with hex show "slug_ok (forged_serial L)"
    unfolding h forged_serial_def slug_ok_def by (auto simp: MAX_SLUG_LEN_def dest!: lower_hex_slug_char)
  have "\<forall>c \<in> set ''node-a-1-1-''. 33 \<le> code c \<and> code c < 128" by simp
  moreover have "\<forall>c \<in> set ?h. 33 \<le> code c \<and> code c < 128"
    using hex by (auto simp: lower_hex_def is_ascii_digit_def)
  ultimately show "trim (forged_serial L) = forged_serial L"
    unfolding forged_serial_def by (intro trim_printable) (simp only: set_append ball_Un simp_thms)
qed

lemma forged_portable_name:
  assumes "hex_contract L" "sha256_contract L"
  shows "portable_name L (fingerprint_of (plain_device port n (Some (forged_serial L)))) Serial =
     Some (''usb-1a86-7523-'' @ forged_serial L)"
proof -
  have "forged_serial L \<noteq> []" by (simp add: forged_serial_def)
  then show ?thesis
    using forged_serial_slug [OF assms] slugify_id
    by (simp add: portable_name_def tier_key_def serial_def fingerprint_of_def plain_device_def
        name_prefix_def literal_slugs)
qed

text \<open>
  Two identical devices without serial number sit in ports 1-1 and 1-2, so both fall back to their
  ports, and a third device carries the port name of 1-1 as its serial number.
\<close>

definition forged_scan :: "Lib \<Rightarrow> UsbDeviceInfo list" where
  "forged_scan L = [plain_device ''1-0'' 2 (Some (forged_serial L)), plain_device ''1-1'' 3 None, plain_device ''1-2'' 4 None]"

lemma forged_keys:
  defines "b sn \<equiv> instance_key_of (plain_device ''1-0'' 2 sn)" and "a \<equiv> instance_key_of (plain_device ''1-1'' 3 None)"
    and "c \<equiv> instance_key_of (plain_device ''1-2'' 4 None)"
  shows "a \<noteq> b sn" "a \<noteq> c" "b sn \<noteq> c"
  by (simp_all add: a_def b_def c_def instance_key_of_def plain_device_def)

lemma forged_named_by_serial:
  assumes "hex_contract L" "sha256_contract L"
  defines "b \<equiv> plain_device ''1-0'' 2 (Some (forged_serial L))"
  shows "choose_decision L (first_scan ''node-a'') Map.empty (fingerprints_of (forged_scan L)) {} (instance_key_of b) (fingerprint_of b) =
    Assigned \<lparr>as_name = ''usb-1a86-7523-'' @ forged_serial L, as_source = Serial\<rparr>"
proof -
  have "serial (fingerprint_of (plain_device port n None)) = None" "serial (fingerprint_of b) = Some (forged_serial L)" for port n
    using forged_serial_slug [OF assms(1,2)] by (auto simp: b_def serial_def fingerprint_of_def plain_device_def forged_serial_def)
  then show ?thesis
    using forged_portable_name [OF assms(1,2), of "''1-0''" 2] forged_keys
    by (simp add: b_def choose_decision_def ORDER_def forged_scan_def fingerprints_of_def first_scan_def tier_key_def present_on_node_def)
qed

lemma twin_falls_back:
  defines "a \<equiv> plain_device ''1-1'' 3 None"
  shows "choose_decision L (first_scan ''node-a'') kbn (fingerprints_of (forged_scan L)) taken (instance_key_of a) (fingerprint_of a) =
    Assigned \<lparr>as_name = ''usb-1a86-7523-'' @ forged_serial L, as_source = PortPath\<rparr>"
proof -
  have "tier_key (fingerprint_of (plain_device ''1-2'' 4 None)) t = tier_key (fingerprint_of a) t" for t
    by (simp add: a_def fingerprint_of_def plain_device_def tier_key_def serial_def)
  then have "list_ex (\<lambda>(k, other). k \<noteq> instance_key_of a \<and> tier_key other Descriptor = tier_key (fingerprint_of a) Descriptor)
      (fingerprints_of (forged_scan L))"
    using forged_keys by (simp add: a_def forged_scan_def fingerprints_of_def)
  moreover obtain D where "portable_name L (fingerprint_of a) Descriptor = Some D"
    by (auto simp: portable_name_def tier_key_def Let_def)
  moreover have "portable_name L (fingerprint_of a) Serial = None" "portable_name L (fingerprint_of a) SerialDescriptor = None"
    by (simp_all add: a_def portable_name_def tier_key_def serial_def fingerprint_of_def plain_device_def)
  moreover have "ik_port_path (instance_key_of a) = ''1-1''" "ac_node (first_scan ''node-a'') = ''node-a''"
    by (simp_all add: a_def instance_key_of_def plain_device_def first_scan_def)
  ultimately show ?thesis
    using twin_port_name [of L] by (simp add: a_def choose_decision_def ORDER_def)
qed

lemma forged_scan_run:
  assumes "hex_contract L" "sha256_contract L"
  shows "assign L (first_scan ''node-a'') (forged_scan L) (instance_key_of (plain_device ''1-0'' 2 (Some (forged_serial L)))) =
      Some (Assigned \<lparr>as_name = ''usb-1a86-7523-'' @ forged_serial L, as_source = Serial\<rparr>)"
    and "assign L (first_scan ''node-a'') (forged_scan L) (instance_key_of (plain_device ''1-1'' 3 None)) =
      Some (Assigned \<lparr>as_name = ''usb-1a86-7523-'' @ forged_serial L, as_source = PortPath\<rparr>)"
proof -
  let ?b = "plain_device ''1-0'' 2 (Some (forged_serial L))"
  let ?a = "plain_device ''1-1'' 3 None" and ?c = "plain_device ''1-2'' 4 None" and ?ctx = "first_scan ''node-a''"
  let ?name = "''usb-1a86-7523-'' @ forged_serial L"
  let ?kfs = "fingerprints_of (forged_scan L)"
  let ?step = "\<lambda>d. choose_new L ?ctx Map.empty ?kfs (instance_key_of d, fingerprint_of d)"
  have kept: "kept_of ?ctx (forged_scan L) = (Map.empty, {})"
    by (simp add: forged_scan_def fingerprints_of_def keep_sticky_def first_scan_def)
  have none: "known_by_name_of (ac_known ?ctx) = Map.empty"
    by (simp add: known_by_name_of_def first_scan_def)
  have "?kfs = map (\<lambda>d. (instance_key_of d, fingerprint_of d)) [?b, ?a, ?c]"
    by (simp add: forged_scan_def fingerprints_of_def)
  then have run: "assign L ?ctx (forged_scan L) = fst (?step ?c (?step ?a (?step ?b (Map.empty, {}))))"
    unfolding assign_eq kept unfolding none by simp
  have sb: "fst (?step ?b (Map.empty, {})) = [instance_key_of ?b \<mapsto> Assigned \<lparr>as_name = ?name, as_source = Serial\<rparr>]"
    using forged_named_by_serial [OF assms] by (simp add: choose_new_def Let_def)
  have sa: "fst (?step ?a st) (instance_key_of ?a) = Some (Assigned \<lparr>as_name = ?name, as_source = PortPath\<rparr>)"
    if "fst st (instance_key_of ?a) = None" for st
    using that by (cases st) (simp add: choose_new_def Let_def twin_falls_back)
  show "assign L ?ctx (forged_scan L) (instance_key_of ?b) = Some (Assigned \<lparr>as_name = ?name, as_source = Serial\<rparr>)"
    unfolding run by (rule choose_new_keeps, rule choose_new_keeps) (simp add: sb)
  show "assign L ?ctx (forged_scan L) (instance_key_of ?a) = Some (Assigned \<lparr>as_name = ?name, as_source = PortPath\<rparr>)"
    unfolding run by (rule choose_new_keeps, rule sa) (simp add: sb forged_keys)
qed

text \<open>
  Property C40: the port fallback does not look at the names already given out on the node, so a
  device whose serial number is spelled like the port name of a port on the node
  gets the same object name as the device in that port, in one scan, whatever the hash function.
\<close>

theorem port_fallback_can_collide:
  assumes "hex_contract L" and "sha256_contract L"
  shows "\<exists>local d e name. d \<in> set local \<and> e \<in> set local \<and> instance_key_of d \<noteq> instance_key_of e \<and>
    assign L (first_scan ''node-a'') local (instance_key_of d) = Some (Assigned \<lparr>as_name = name, as_source = Serial\<rparr>) \<and>
    assign L (first_scan ''node-a'') local (instance_key_of e) = Some (Assigned \<lparr>as_name = name, as_source = PortPath\<rparr>)"
proof -
  let ?b = "plain_device ''1-0'' 2 (Some (forged_serial L))" and ?a = "plain_device ''1-1'' 3 None"
  have "instance_key_of ?b \<noteq> instance_key_of ?a" by (simp add: instance_key_of_def plain_device_def)
  moreover have "?b \<in> set (forged_scan L)" "?a \<in> set (forged_scan L)" by (simp_all add: forged_scan_def)
  ultimately show ?thesis using forged_scan_run [OF assms] by blast
qed

theorem port_fallback_can_collide_witness:
  "\<exists>local d e name. d \<in> set local \<and> e \<in> set local \<and> instance_key_of d \<noteq> instance_key_of e \<and>
    assign sample_lib (first_scan ''node-a'') local (instance_key_of d) = Some (Assigned \<lparr>as_name = name, as_source = Serial\<rparr>) \<and>
    assign sample_lib (first_scan ''node-a'') local (instance_key_of e) = Some (Assigned \<lparr>as_name = name, as_source = PortPath\<rparr>)"
  by (rule port_fallback_can_collide [OF hex_sample sha256_sample])

section \<open>Properties of the assignment\<close>

text \<open>
  \<open>assign\<close> decides exactly the devices of the scan: each plugged-in device gets
  one decision, and no other key appears in the result.
\<close>

theorem assign_decides_every_device: "dom (assign L ctx local) = instance_key_of ` set local"
  by (rule assign_dom)

text \<open>
  Property C22: names are exclusive on a node but for the port fallback: whenever two devices of
  one scan are assigned the same name, one of the two assignments is the port fallback.
\<close>

theorem assign_names_exclusive: "shared_by_fallback L ctx (fingerprints_of local) (assign L ctx local)"
  by (rule assign_shared)

text \<open>
  Property C23: a new portable name, one that is not a kept assignment, is unambiguous when it is
  given: no other device of the node and no known device under another name has the same identity
  at that tier, and no other node is known to hold the name.
\<close>

theorem portable_names_are_unambiguous:
  assumes "assign L ctx local k = Some (Assigned a)" and "as_source a \<noteq> PortPath"
    and "ac_sticky ctx k \<noteq> Some a"
  shows "\<exists>fp. (k, fp) \<in> set (fingerprints_of local) \<and> portable_name L fp (as_source a) = Some (as_name a) \<and>
    unambiguous ctx (fingerprints_of local) k fp (as_source a) (as_name a) \<and>
    \<not> held_elsewhere ctx (known_by_name_of (ac_known ctx)) (as_name a)"
  using assms(1)
proof (cases rule: assign_cases)
  case (fallback b)
  with assms(2) show ?thesis by (auto simp: is_fallback_def port_fallback_def)
qed (use assms in auto)

text \<open>
  A decision is deferred only for a device that may still wait, and only while
  another node is known to hold the portable name the device would get. A scan in which no device
  may wait defers nothing.
\<close>

theorem deferred_only_while_held_elsewhere:
  assumes "assign L ctx local k = Some (Deferred name h)"
  shows "k \<in> ac_may_defer ctx \<and> h \<noteq> ac_node ctx \<and>
    present_on_node (known_by_name_of (ac_known ctx)) name = Some h \<and>
    (\<exists>fp tier. (k, fp) \<in> set (fingerprints_of local) \<and> portable_name L fp tier = Some name)"
  using assms by (cases rule: assign_cases) auto

lemma sticky_is_kept:
  assumes "d \<in> set local" and "ac_sticky ctx (instance_key_of d) = Some a"
    and "\<not> lost_tie ctx (known_by_name_of (ac_known ctx)) a"
    and uniq: "\<And>e b. e \<in> set local \<Longrightarrow> ac_sticky ctx (instance_key_of e) = Some b \<Longrightarrow> as_name b = as_name a \<Longrightarrow>
      instance_key_of e = instance_key_of d"
  shows "fst (kept_of ctx local) (instance_key_of d) = Some (Assigned a)"
proof (rule sticky_loop_keeps [OF _ assms(2,3)])
  show "instance_key_of d \<in> fst ` set (fingerprints_of local)"
    using assms(1) by (force simp: fingerprints_of_def)
next
  fix j b assume "j \<in> fst ` set (fingerprints_of local)" and b: "ac_sticky ctx j = Some b" "as_name b = as_name a"
  then obtain e where "e \<in> set local" "j = instance_key_of e" by (auto simp: fingerprints_of_def)
  with uniq b show "j = instance_key_of d" by blast
qed

lemma kept_is_assigned: "fst (kept_of ctx local) k = Some d \<Longrightarrow> assign L ctx local k = Some d"
  unfolding assign_eq by (rule fold_invariant_set [where P = "\<lambda>st. fst st k = Some d"]) (auto intro: choose_new_keeps)

lemmas assign_keeps_sticky = kept_is_assigned [OF sticky_is_kept]

text \<open>A kept name is shared with a port fallback at most.\<close>

lemma kept_name_exclusive:
  assumes "fst (kept_of ctx local) j = Some (Assigned a)" and "assign L ctx local k = Some (Assigned b)" and "as_name b = as_name a"
  shows "k = j \<or> is_fallback L ctx (fingerprints_of local) k b"
proof -
  let ?kfs = "fingerprints_of local" and ?kbn = "known_by_name_of (ac_known ctx)"
  let ?P = "\<lambda>st. names_taken st \<and> fst st j = Some (Assigned a) \<and>
    (\<forall>k b. fst st k = Some (Assigned b) \<longrightarrow> as_name b = as_name a \<longrightarrow> k = j \<or> is_fallback L ctx ?kfs k b)"
  have "?P (fold (choose_new L ctx ?kbn ?kfs) ?kfs (kept_of ctx local))"
  proof (rule fold_invariant_set [where P = ?P])
    show "?P (kept_of ctx local)"
      using kept_inv [of ctx local L "[]"] assms(1) by (auto simp: shared_by_fallback_def is_fallback_def)
  next
    fix kf st
    assume kf: "kf \<in> set ?kfs" and st: "?P st"
    obtain key fp decisions taken where eq: "kf = (key, fp)" "st = (decisions, taken)" by (metis surj_pair)
    have taken: "as_name a \<in> taken" using st by (auto simp: eq names_taken_def)
    have "as_name b \<noteq> as_name a \<or> is_fallback L ctx ?kfs key b"
      if "choose_decision L ctx ?kbn ?kfs taken key fp = Assigned b" for b
      using choose_decision_fresh [OF that] taken kf by (auto simp: eq is_fallback_def)
    with st show "?P (choose_new L ctx ?kbn ?kfs kf st)"
      by (auto simp: eq choose_new_def names_taken_def Let_def split: Decision.splits)
  qed
  with assms(2,3) show ?thesis by (auto simp: assign_eq)
qed

text \<open>
  Names are stable: a device that stays plugged in keeps the name it was given,
  unless it loses the tie against another node or shares the name with another plugged-in device.
\<close>

theorem assigned_names_are_stable:
  assumes "d \<in> set local" and "ac_sticky ctx (instance_key_of d) = Some a"
    and "\<not> lost_tie ctx (known_by_name_of (ac_known ctx)) a"
    and "\<And>e b. e \<in> set local \<Longrightarrow> ac_sticky ctx (instance_key_of e) = Some b \<Longrightarrow> as_name b = as_name a \<Longrightarrow>
      instance_key_of e = instance_key_of d"
  shows "assign L ctx local (instance_key_of d) = Some (Assigned a)"
  using assms by (rule assign_keeps_sticky)

text \<open>
  Property C29: two nodes that gave one name to two devices at the same moment resolve the
  conflict: once each sees the other as the holder of the name, the node whose name is smaller
  keeps it and the other one gives it up (its device can get that string only through the port
  fallback).
\<close>

theorem name_conflict_is_resolved:
  assumes "d1 \<in> set local1" and "ac_sticky c1 (instance_key_of d1) = Some a"
    and "\<And>e b. e \<in> set local1 \<Longrightarrow> ac_sticky c1 (instance_key_of e) = Some b \<Longrightarrow> as_name b = as_name a \<Longrightarrow>
      instance_key_of e = instance_key_of d1"
    and "ac_sticky c2 (instance_key_of d2) = Some a"
    and "ac_node c1 < ac_node c2"
    and "present_on_node (known_by_name_of (ac_known c1)) (as_name a) = Some (ac_node c2)"
    and "present_on_node (known_by_name_of (ac_known c2)) (as_name a) = Some (ac_node c1)"
  shows "assign L c1 local1 (instance_key_of d1) = Some (Assigned a) \<and>
    (\<forall>b. assign L c2 local2 (instance_key_of d2) = Some (Assigned b) \<longrightarrow> as_name b = as_name a \<longrightarrow>
       is_fallback L c2 (fingerprints_of local2) (instance_key_of d2) b)"
proof (intro conjI allI impI)
  have "\<not> lost_tie c1 (known_by_name_of (ac_known c1)) a"
    using assms(5,6) by (auto simp: lost_tie_def)
  with assms(1-3) show "assign L c1 local1 (instance_key_of d1) = Some (Assigned a)"
    by (blast intro: assign_keeps_sticky)
next
  fix b assume b: "assign L c2 local2 (instance_key_of d2) = Some (Assigned b)" and n: "as_name b = as_name a"
  have lost: "lost_tie c2 (known_by_name_of (ac_known c2)) a"
    using assms(5,7) by (auto simp: lost_tie_def)
  from assms(5,7) have held: "held_elsewhere c2 (known_by_name_of (ac_known c2)) (as_name a)"
    by (auto simp: held_elsewhere_def)
  from b show "is_fallback L c2 (fingerprints_of local2) (instance_key_of d2) b"
    by (cases rule: assign_cases) (use assms(4) lost held n in auto)
qed

section \<open>Witnesses\<close>

abbreviation twin_name :: Assignment where
  "twin_name \<equiv> \<lparr>as_name = ''usb-twin'', as_source = Descriptor\<rparr>"

definition twin_ctx :: "string \<Rightarrow> string option \<Rightarrow> AssignContext" where
  "twin_ctx node holder = \<lparr>ac_node = node,
     ac_sticky = [instance_key_of (plain_device ''1-1'' 3 None) \<mapsto> twin_name],
     ac_known = [\<lparr>kd_name = ''usb-twin'', kd_fingerprint = twin_fp, kd_present_on = holder\<rparr>], ac_may_defer = {}\<rparr>"

lemma twin_ctx_simps [simp]:
  "ac_node (twin_ctx node holder) = node"
  "ac_sticky (twin_ctx node holder) = [instance_key_of (plain_device ''1-1'' 3 None) \<mapsto> twin_name]"
  "present_on_node (known_by_name_of (ac_known (twin_ctx node holder))) ''usb-twin'' = holder"
  by (simp_all add: twin_ctx_def present_on_node_def known_by_name_of_def collect_map_def)

theorem assigned_names_are_stable_witness:
  "assign sample_lib (twin_ctx ''a'' None) [plain_device ''1-1'' 3 None] (instance_key_of (plain_device ''1-1'' 3 None)) =
     Some (Assigned twin_name)"
  by (rule assigned_names_are_stable) (simp_all add: lost_tie_def)

theorem name_conflict_is_resolved_witness:
  "assign sample_lib (twin_ctx ''a'' (Some ''b'')) [plain_device ''1-1'' 3 None] (instance_key_of (plain_device ''1-1'' 3 None)) =
     Some (Assigned twin_name) \<and>
   assign sample_lib (twin_ctx ''b'' (Some ''a'')) [plain_device ''1-1'' 3 None] (instance_key_of (plain_device ''1-1'' 3 None)) \<noteq>
     Some (Assigned twin_name)"
proof -
  let ?d = "plain_device ''1-1'' 3 None"
  have "assign sample_lib (twin_ctx ''a'' (Some ''b'')) [?d] (instance_key_of ?d) = Some (Assigned twin_name) \<and>
     (\<forall>b. assign sample_lib (twin_ctx ''b'' (Some ''a'')) [?d] (instance_key_of ?d) = Some (Assigned b) \<longrightarrow> as_name b = as_name twin_name \<longrightarrow>
        is_fallback sample_lib (twin_ctx ''b'' (Some ''a'')) (fingerprints_of [?d]) (instance_key_of ?d) b)"
    by (rule name_conflict_is_resolved) simp_all
  moreover have "\<not> is_fallback L ctx local k twin_name" for L ctx local k
    by (simp add: is_fallback_def port_fallback_def)
  ultimately show ?thesis by blast
qed

theorem portable_names_are_unambiguous_witness:
  "\<exists>fp. (instance_key_of (plain_device ''1-0'' 2 (Some (forged_serial sample_lib))), fp) \<in> set (fingerprints_of (forged_scan sample_lib)) \<and>
    portable_name sample_lib fp Serial = Some (''usb-1a86-7523-'' @ forged_serial sample_lib) \<and>
    unambiguous (first_scan ''node-a'') (fingerprints_of (forged_scan sample_lib))
      (instance_key_of (plain_device ''1-0'' 2 (Some (forged_serial sample_lib)))) fp Serial (''usb-1a86-7523-'' @ forged_serial sample_lib) \<and>
    \<not> held_elsewhere (first_scan ''node-a'') (known_by_name_of []) (''usb-1a86-7523-'' @ forged_serial sample_lib)"
proof -
  have [simp]: "ac_known (first_scan n) = []" "ac_sticky (first_scan n) = Map.empty" for n by (simp_all add: first_scan_def)
  show ?thesis
    using portable_names_are_unambiguous [OF forged_scan_run(1) [OF hex_sample sha256_sample]] by simp
qed

text \<open>A device on its own whose name another node holds.\<close>

definition held_scan :: "Lib \<Rightarrow> UsbDeviceInfo \<Rightarrow> AssignContext" where
  "held_scan L d = \<lparr>ac_node = ''node-a'', ac_sticky = Map.empty,
     ac_known = [\<lparr>kd_name = ''usb-1a86-7523-'' @ forged_serial L, kd_fingerprint = fingerprint_of d, kd_present_on = Some ''node-z''\<rparr>],
     ac_may_defer = {instance_key_of d}\<rparr>"

lemma held_scan_defers:
  assumes "hex_contract L" "sha256_contract L"
  defines "d \<equiv> plain_device ''1-0'' 2 (Some (forged_serial L))"
  shows "assign L (held_scan L d) [d] (instance_key_of d) = Some (Deferred (''usb-1a86-7523-'' @ forged_serial L) ''node-z'')"
  using forged_portable_name [OF assms(1,2), of "''1-0''" 2]
  by (simp add: assign_def d_def [symmetric] fingerprints_of_def held_scan_def keep_sticky_def choose_new_def Let_def
      choose_decision_def ORDER_def present_on_node_def known_by_name_of_def collect_map_def)

theorem deferred_only_while_held_elsewhere_witness:
  "\<exists>d name h. assign sample_lib (held_scan sample_lib d) [d] (instance_key_of d) = Some (Deferred name h) \<and>
     instance_key_of d \<in> ac_may_defer (held_scan sample_lib d) \<and> h \<noteq> ac_node (held_scan sample_lib d)"
  using held_scan_defers [OF hex_sample sha256_sample]
    deferred_only_while_held_elsewhere [OF held_scan_defers [OF hex_sample sha256_sample]]
  by (intro exI [of _ "plain_device ''1-0'' 2 (Some (forged_serial sample_lib))"]
      exI [of _ "''usb-1a86-7523-'' @ forged_serial sample_lib"] exI [of _ "''node-z''"]) simp

end
