(* ===== verification/Crd.thy ===== *)
theory Crd
  imports Assign
begin

text \<open>
  \<open>src/util.rs\<close> and \<open>src/crd.rs\<close>: timestamps and error classes, and the two custom
  resources. \<open>UsbDevice\<close> is maintained by the agents and leased by the controller,
  \<open>UsbDeviceClaim\<close> is what a user creates. Optional fields that are absent from the JSON are
  \<^const>\<open>None\<close>. The metadata of an API object is represented by what the client library's
  accessors return for it: \<open>name_any()\<close>, \<open>namespace()\<close>, \<open>uid()\<close>,
  \<open>resource_version()\<close>, \<open>creation_timestamp()\<close>, \<open>owner_references()\<close>, \<open>labels()\<close>, and the fields \<open>name\<close>, \<open>generation\<close> and
  \<open>deletion_timestamp\<close> the sources read directly.
\<close>

section \<open>Time and errors\<close>

definition rfc3339 :: "Lib \<Rightarrow> seconds \<Rightarrow> string" where
  "rfc3339 L ts = ts_print L ts"

definition age_secs :: "Lib \<Rightarrow> string option \<Rightarrow> seconds \<Rightarrow> int option" where
  "age_secs L timestamp now =
     (case timestamp of
        None \<Rightarrow> None
      | Some s \<Rightarrow> (case ts_parse L s of None \<Rightarrow> None | Some then_ts \<Rightarrow> Some (now - then_ts)))"

datatype KubeError = ApiError (ke_code: nat) (ke_message: string) | OtherError string

fun is_conflict :: "KubeError \<Rightarrow> bool" where
  "is_conflict (ApiError c _) = (c = 409)"
| "is_conflict (OtherError _) = False"

fun is_not_found :: "KubeError \<Rightarrow> bool" where
  "is_not_found (ApiError c _) = (c = 404)"
| "is_not_found (OtherError _) = False"

section \<open>Object metadata\<close>

record OwnerReference =
  or_api_version :: string
  or_kind :: string
  or_name :: string
  or_uid :: string
  or_controller :: "bool option"
  or_block_owner_deletion :: "bool option"

record ObjectMeta =
  om_name :: "string option"
  om_name_any :: string
  om_namespace :: "string option"
  om_uid :: "string option"
  om_resource_version :: "string option"
  om_generation :: "int option"
  om_creation_timestamp :: "int option"
  om_deletion_timestamp :: "int option"
  om_owner_references :: "OwnerReference list"
  om_labels :: "(string, string) btree"

section \<open>UsbDevice\<close>

record UsbDeviceSpec =
  ds_vendor_id :: string
  ds_product_id :: string
  ds_serial :: "string option"
  ds_manufacturer :: "string option"
  ds_product :: "string option"
  ds_bcd_device :: "string option"
  ds_identity :: IdentitySource

datatype DevicePhase = Available | Unplugged | Lost

record ExporterEndpoint =
  ee_address :: string
  ee_port :: u16
  ee_pod :: string

definition socket_addr :: "ExporterEndpoint \<Rightarrow> string" where
  "socket_addr e =
     (if CHR '':'' \<in> set (ee_address e)
      then ''['' @ ee_address e @ '']:'' @ show_nat (unat (ee_port e))
      else ee_address e @ '':'' @ show_nat (unat (ee_port e)))"

record Attachment =
  at_namespace :: string
  at_claim :: string
  at_claim_uid :: string
  at_vm_name :: string
  at_since :: string

record UsbDeviceStatus =
  st_phase :: "DevicePhase option"
  st_node :: "string option"
  st_port_path :: "string option"
  st_bus_num :: "u32 option"
  st_dev_num :: "u32 option"
  st_speed :: "string option"
  st_device_class :: "string option"
  st_interface_classes :: "string list option"
  st_exporter :: "ExporterEndpoint option"
  st_last_seen :: "string option"
  st_message :: "string option"
  st_attached_to :: "Attachment option"

record UsbDevice =
  ud_metadata :: ObjectMeta
  ud_spec :: UsbDeviceSpec
  ud_status :: "UsbDeviceStatus option"

abbreviation device_name_any :: "UsbDevice \<Rightarrow> string" where
  "device_name_any d \<equiv> om_name_any (ud_metadata d)"

definition device_fingerprint :: "UsbDevice \<Rightarrow> Fingerprint" where
  "device_fingerprint d =
     \<lparr>fp_vendor_id = ds_vendor_id (ud_spec d), fp_product_id = ds_product_id (ud_spec d),
      fp_serial = ds_serial (ud_spec d), fp_bcd_device = ds_bcd_device (ud_spec d),
      fp_manufacturer = ds_manufacturer (ud_spec d), fp_product = ds_product (ud_spec d)\<rparr>"

definition EMPTY_STATUS :: UsbDeviceStatus where
  "EMPTY_STATUS =
     \<lparr>st_phase = None, st_node = None, st_port_path = None, st_bus_num = None, st_dev_num = None,
      st_speed = None, st_device_class = None, st_interface_classes = None, st_exporter = None,
      st_last_seen = None, st_message = None, st_attached_to = None\<rparr>"

definition status_ref :: "UsbDevice \<Rightarrow> UsbDeviceStatus" where
  "status_ref d = (case ud_status d of None \<Rightarrow> EMPTY_STATUS | Some s \<Rightarrow> s)"

definition is_available :: "Lib \<Rightarrow> UsbDevice \<Rightarrow> seconds \<Rightarrow> int \<Rightarrow> bool" where
  "is_available L d now lost_after_secs \<longleftrightarrow>
     st_phase (status_ref d) = Some Available \<and>
     st_exporter (status_ref d) \<noteq> None \<and>
     (case age_secs L (st_last_seen (status_ref d)) now of None \<Rightarrow> False | Some age \<Rightarrow> age \<le> lost_after_secs)"

definition lease_holder :: "UsbDevice \<Rightarrow> string option" where
  "lease_holder d = map_option at_claim_uid (st_attached_to (status_ref d))"

section \<open>UsbDeviceClaim\<close>

record HoldBoot =
  hb_timeout_seconds :: "int option"

definition DEFAULT_TIMEOUT_SECONDS :: int where
  "DEFAULT_TIMEOUT_SECONDS = 300"

definition timeout_seconds :: "HoldBoot \<Rightarrow> int" where
  "timeout_seconds h =
     max (case hb_timeout_seconds h of None \<Rightarrow> DEFAULT_TIMEOUT_SECONDS | Some t \<Rightarrow> t) 0"

record DeviceSelector =
  sel_device_name :: "string option"
  sel_vendor_id :: "string option"
  sel_product_id :: "string option"
  sel_serial :: "string option"
  sel_product :: "string option"
  sel_node :: "string option"
  sel_port_path :: "string option"

record UsbDeviceClaimSpec =
  cs_vm_name :: string
  cs_selector :: DeviceSelector
  cs_slot :: "int option"
  cs_hold_boot :: "HoldBoot option"

datatype BootHoldState = Holding | Released | NotConfiguredState

record BootHoldStatus =
  bh_state :: BootHoldState
  bh_vmi_uid :: "string option"
  bh_since :: string
  bh_message :: "string option"

datatype ClaimPhase = Pending | DeviceUnavailable | WaitingForVM | VMNotConfigured | Connecting | Attached | Invalid

datatype ConnectionState = ConnConnecting | ConnConnected | ConnDisconnected

record ConnectionStatus =
  co_state :: ConnectionState
  co_node :: string
  co_device_name :: string
  co_slot :: int
  co_since :: string
  co_message :: "string option"
  co_awaiting_resume :: "bool option"

record UsbDeviceClaimStatus =
  ucs_phase :: "ClaimPhase option"
  ucs_device_name :: "string option"
  ucs_source_node :: "string option"
  ucs_slot :: "int option"
  ucs_message :: "string option"
  ucs_observed_generation :: "int option"
  ucs_connection :: "ConnectionStatus option"
  ucs_boot_hold :: "BootHoldStatus option"

definition default_claim_status :: UsbDeviceClaimStatus where
  "default_claim_status =
     \<lparr>ucs_phase = None, ucs_device_name = None, ucs_source_node = None, ucs_slot = None, ucs_message = None,
      ucs_observed_generation = None, ucs_connection = None, ucs_boot_hold = None\<rparr>"

record UsbDeviceClaim =
  uc_metadata :: ObjectMeta
  uc_spec :: UsbDeviceClaimSpec
  uc_status :: "UsbDeviceClaimStatus option"

abbreviation claim_name_any :: "UsbDeviceClaim \<Rightarrow> string" where
  "claim_name_any c \<equiv> om_name_any (uc_metadata c)"

abbreviation unwrap_or_default :: "string option \<Rightarrow> string" where
  "unwrap_or_default s \<equiv> case s of None \<Rightarrow> [] | Some v \<Rightarrow> v"

section \<open>The selector\<close>

definition selector_fields :: "DeviceSelector \<Rightarrow> string option list" where
  "selector_fields s =
     [sel_device_name s, sel_vendor_id s, sel_product_id s, sel_serial s, sel_product s, sel_node s, sel_port_path s]"

fun check_usb_ids :: "Lib \<Rightarrow> (string \<times> string option) list \<Rightarrow> string + unit" where
  "check_usb_ids L [] = Inr ()"
| "check_usb_ids L ((field, None) # rest) = check_usb_ids L rest"
| "check_usb_ids L ((field, Some v) # rest) =
     (if normalize_usb_id v = None
      then Inl (''selector.'' @ field @ '' '' @ str_debug L v @ '' is not a 16-bit hex id'')
      else check_usb_ids L rest)"

definition selector_validate :: "Lib \<Rightarrow> DeviceSelector \<Rightarrow> string + unit" where
  "selector_validate L s =
     (if \<not> list_ex (\<lambda>f. f \<noteq> None) (selector_fields s) then Inl ''selector must set at least one field''
      else check_usb_ids L [(''vendorId'', sel_vendor_id s), (''productId'', sel_product_id s)])"

definition id_matches :: "string option \<Rightarrow> string \<Rightarrow> bool" where
  "id_matches want have_id = (case want of None \<Rightarrow> True | Some w \<Rightarrow> normalize_usb_id w = Some have_id)"

definition exact_matches :: "string option \<Rightarrow> string option \<Rightarrow> bool" where
  "exact_matches want have_val = (case want of None \<Rightarrow> True | Some w \<Rightarrow> Some w = have_val)"

definition selector_matches :: "DeviceSelector \<Rightarrow> UsbDevice \<Rightarrow> bool" where
  "selector_matches s d \<longleftrightarrow>
     exact_matches (sel_device_name s) (om_name (ud_metadata d)) \<and>
     id_matches (sel_vendor_id s) (ds_vendor_id (ud_spec d)) \<and>
     id_matches (sel_product_id s) (ds_product_id (ud_spec d)) \<and>
     exact_matches (sel_serial s) (ds_serial (ud_spec d)) \<and>
     exact_matches (sel_product s) (ds_product (ud_spec d)) \<and>
     exact_matches (sel_node s) (st_node (status_ref d)) \<and>
     exact_matches (sel_port_path s) (st_port_path (status_ref d))"

section \<open>Lemmas\<close>

lemma age_secs_rfc3339: "time_contract L \<Longrightarrow> age_secs L (Some (rfc3339 L t)) now = Some (now - t)"
  by (simp add: age_secs_def rfc3339_def time_contract_def)

lemma timeout_seconds_nonneg: "0 \<le> timeout_seconds h"
  by (simp add: timeout_seconds_def)

lemma lease_holder_Some: "lease_holder d = Some u \<longleftrightarrow> (\<exists>a. st_attached_to (status_ref d) = Some a \<and> at_claim_uid a = u)"
  by (auto simp: lease_holder_def)

lemma lease_holder_None: "lease_holder d = None \<longleftrightarrow> st_attached_to (status_ref d) = None"
  by (auto simp: lease_holder_def)

text \<open>Availability is only ever lost by the passing of time.\<close>

lemma is_available_antimono: "is_available L d now limit \<Longrightarrow> earlier \<le> now \<Longrightarrow> is_available L d earlier limit"
  by (auto simp: is_available_def age_secs_def split: option.splits)

lemma is_available_fresh:
  "time_contract L \<Longrightarrow> st_last_seen (status_ref d) = Some (rfc3339 L t) \<Longrightarrow>
   is_available L d now limit \<longleftrightarrow>
     st_phase (status_ref d) = Some Available \<and> st_exporter (status_ref d) \<noteq> None \<and> now \<le> t + limit"
  by (auto simp: is_available_def age_secs_rfc3339)

lemma check_usb_ids_Inr:
  "check_usb_ids L fs = Inr () \<longleftrightarrow> (\<forall>(field, v) \<in> set fs. pred_option (\<lambda>w. normalize_usb_id w \<noteq> None) v)"
  by (induction L fs rule: check_usb_ids.induct) auto

lemma selector_validate_Inr:
  "selector_validate L s = Inr () \<longleftrightarrow>
     list_ex (\<lambda>f. f \<noteq> None) (selector_fields s) \<and>
     pred_option (\<lambda>w. normalize_usb_id w \<noteq> None) (sel_vendor_id s) \<and>
     pred_option (\<lambda>w. normalize_usb_id w \<noteq> None) (sel_product_id s)"
  by (simp add: selector_validate_def check_usb_ids_Inr)

text \<open>
  An id the validation rejects can match no device: a selector that sets some field
  and fails validation matches nothing, whatever devices exist, so even a caller that skipped the
  validation would not bind a claim to an unintended device.
\<close>

theorem rejected_selector_matches_nothing:
  assumes "selector_validate L s = Inl msg" and "list_ex (\<lambda>f. f \<noteq> None) (selector_fields s)"
  shows "\<not> selector_matches s d"
proof -
  from assms have "selector_validate L s \<noteq> Inr ()" by simp
  with assms(2) have "\<not> pred_option (\<lambda>w. normalize_usb_id w \<noteq> None) (sel_vendor_id s) \<or>
      \<not> pred_option (\<lambda>w. normalize_usb_id w \<noteq> None) (sel_product_id s)"
    unfolding selector_validate_Inr by blast
  then show ?thesis
    by (cases "sel_vendor_id s"; cases "sel_product_id s") (auto simp: selector_matches_def id_matches_def)
qed

definition sample_selector :: DeviceSelector where
  "sample_selector =
     \<lparr>sel_device_name = None, sel_vendor_id = Some ''xyz'', sel_product_id = None, sel_serial = None,
      sel_product = None, sel_node = None, sel_port_path = None\<rparr>"

lemma normalize_xyz: "normalize_usb_id ''xyz'' = None"
  by code_simp

theorem rejected_selector_matches_nothing_witness: "\<forall>d. \<not> selector_matches sample_selector d"
  by (intro allI, rule rejected_selector_matches_nothing
      [where L = sample_lib and msg = "''selector.vendorId '' @ str_debug sample_lib ''xyz'' @ '' is not a 16-bit hex id''"])
     (simp_all add: selector_validate_def selector_fields_def sample_selector_def normalize_xyz)

end
