(* ===== verification/Agent.thy ===== *)
theory Agent
  imports Crd
begin

text \<open>
  \<open>src/agent/mod.rs\<close> and the configuration half of \<open>src/main.rs\<close>: the agent's
  configuration, which the discovery, the exporter and the attacher share, and the patterns of devices that are
  never published. Intervals are whole seconds, as the command line gives them; a socket address is
  its host and its port.
\<close>

section \<open>Device patterns\<close>

record DevicePattern =
  pat_vendor_id :: "string option"
  pat_product_id :: "string option"

text \<open>One side of a pattern; \<open>whole\<close> is the pattern it belongs to, for the message.\<close>

definition pattern_part :: "Lib \<Rightarrow> string \<Rightarrow> string \<Rightarrow> string + string option" where
  "pattern_part L whole p =
     (if p = ''*'' then Inr None
      else case normalize_usb_id p of
             Some v \<Rightarrow> Inr (Some v)
           | None \<Rightarrow> Inl (str_debug L whole @ '': '' @ str_debug L p @ '' is not a hex id or *''))"

definition pattern_from_str :: "Lib \<Rightarrow> string \<Rightarrow> string + DevicePattern" where
  "pattern_from_str L s =
     (case split_once (CHR '':'') s of
        None \<Rightarrow> Inl (str_debug L s @ '': expected VENDOR:PRODUCT'')
      | Some (vendor, product) \<Rightarrow>
          (case pattern_part L s vendor of
             Inl e \<Rightarrow> Inl e
           | Inr v \<Rightarrow>
               (case pattern_part L s product of
                  Inl e \<Rightarrow> Inl e
                | Inr p \<Rightarrow> Inr \<lparr>pat_vendor_id = v, pat_product_id = p\<rparr>)))"

definition pattern_matches :: "DevicePattern \<Rightarrow> UsbDeviceInfo \<Rightarrow> bool" where
  "pattern_matches p d \<longleftrightarrow>
     is_none_or (\<lambda>v. v = ui_vendor_id d) (pat_vendor_id p) \<and> is_none_or (\<lambda>v. v = ui_product_id d) (pat_product_id p)"

section \<open>Configuration\<close>

record SocketAddr =
  sa_ip :: string
  sa_port :: u16

record SocketLocator =
  sl_kubelet_root :: string
  sl_proc_root :: "string option"

record AgentConfig =
  cfg_node :: string
  cfg_pod_name :: string
  cfg_pod_ip :: string
  cfg_listen :: SocketAddr
  cfg_psk_file :: string
  cfg_sysfs_root :: string
  cfg_locator :: SocketLocator
  cfg_usbredirect :: string
  cfg_include_hubs :: bool
  cfg_ignore :: "DevicePattern list"
  cfg_scan_interval :: u64
  cfg_heartbeat_interval :: u64
  cfg_lost_after :: u64

record AgentArgs =
  aa_node_name :: string
  aa_pod_name :: string
  aa_pod_ip :: string
  aa_listen :: SocketAddr
  aa_psk_file :: string
  aa_sysfs_root :: string
  aa_kubelet_root :: string
  aa_host_proc :: "string option"
  aa_usbredirect :: string
  aa_include_hubs :: bool
  aa_ignore :: "string list"
  aa_scan_interval_seconds :: u64
  aa_heartbeat_seconds :: u64
  aa_lost_after_seconds :: u64

text \<open>Collecting results stops at the first error.\<close>

fun parse_ignore :: "Lib \<Rightarrow> string list \<Rightarrow> string + DevicePattern list" where
  "parse_ignore L [] = Inr []"
| "parse_ignore L (raw # rest) =
     (let p = trim raw
      in if p = [] then parse_ignore L rest
         else case pattern_from_str L p of
                Inl e \<Rightarrow> Inl e
              | Inr pat \<Rightarrow> (case parse_ignore L rest of Inl e \<Rightarrow> Inl e | Inr pats \<Rightarrow> Inr (pat # pats)))"

definition agent_config :: "Lib \<Rightarrow> AgentArgs \<Rightarrow> string + AgentConfig" where
  "agent_config L args =
     (case parse_ignore L (aa_ignore args) of
        Inl e \<Rightarrow> Inl (''--ignore: '' @ e)
      | Inr ignore \<Rightarrow>
          Inr \<lparr>cfg_node = aa_node_name args, cfg_pod_name = aa_pod_name args, cfg_pod_ip = aa_pod_ip args,
               cfg_listen = aa_listen args, cfg_psk_file = aa_psk_file args, cfg_sysfs_root = aa_sysfs_root args,
               cfg_locator = \<lparr>sl_kubelet_root = aa_kubelet_root args, sl_proc_root = aa_host_proc args\<rparr>,
               cfg_usbredirect = aa_usbredirect args, cfg_include_hubs = aa_include_hubs args, cfg_ignore = ignore,
               cfg_scan_interval = aa_scan_interval_seconds args, cfg_heartbeat_interval = aa_heartbeat_seconds args,
               cfg_lost_after = aa_lost_after_seconds args\<rparr>)"

text \<open>The devices plugged into the node, by \<open>UsbDevice\<close> name.\<close>

type_synonym LocalDevices = "(string, UsbDeviceInfo) btree"

section \<open>Lemmas\<close>

lemma pattern_part_Inr:
  "pattern_part L s p = Inr v \<longleftrightarrow> (p = ''*'' \<and> v = None) \<or> (p \<noteq> ''*'' \<and> v \<noteq> None \<and> v = normalize_usb_id p)"
  by (auto simp: pattern_part_def split: option.splits)

lemma star_is_no_id: "normalize_usb_id ''*'' = None"
  by code_simp

text \<open>
  A pattern that parses ignores exactly the devices whose ids agree with both its sides, where a star agrees with
  everything and an id agrees in any spelling the parser of ids accepts.
\<close>

theorem pattern_matches_iff:
  assumes "pattern_from_str L s = Inr p"
  shows "\<exists>vendor product. s = vendor @ '':'' @ product \<and>
    (pattern_matches p d \<longleftrightarrow>
       (vendor = ''*'' \<or> normalize_usb_id vendor = Some (ui_vendor_id d)) \<and>
       (product = ''*'' \<or> normalize_usb_id product = Some (ui_product_id d)))"
proof -
  from assms obtain vendor product v q where s: "split_once (CHR '':'') s = Some (vendor, product)"
    and v: "pattern_part L s vendor = Inr v" and q: "pattern_part L s product = Inr q"
    and p: "p = \<lparr>pat_vendor_id = v, pat_product_id = q\<rparr>"
    by (auto simp: pattern_from_str_def split: option.splits sum.splits)
  from s have "s = vendor @ '':'' @ product" by (auto dest: split_once_SomeD)
  moreover from v q have "pattern_matches p d \<longleftrightarrow>
       (vendor = ''*'' \<or> normalize_usb_id vendor = Some (ui_vendor_id d)) \<and>
       (product = ''*'' \<or> normalize_usb_id product = Some (ui_product_id d))"
    by (auto simp: pattern_part_Inr pattern_matches_def p star_is_no_id)
  ultimately show ?thesis by blast
qed

lemma parse_ignore_Inr:
  "parse_ignore L raws = Inr pats \<Longrightarrow>
   map (pattern_from_str L) (filter (\<lambda>p. p \<noteq> []) (map trim raws)) = map Inr pats"
  by (induction L raws arbitrary: pats rule: parse_ignore.induct) (auto simp: Let_def split: if_splits sum.splits)

lemma agent_config_Inr:
  "agent_config L args = Inr cfg \<Longrightarrow> parse_ignore L (aa_ignore args) = Inr (cfg_ignore cfg)"
  by (auto simp: agent_config_def split: sum.splits)

text \<open>A configuration with the defaults of the command line.\<close>

definition sample_cfg :: AgentConfig where
  "sample_cfg =
     \<lparr>cfg_node = ''n1'', cfg_pod_name = ''agent'', cfg_pod_ip = ''10.0.0.1'', cfg_listen = \<lparr>sa_ip = ''0.0.0.0'', sa_port = 7575\<rparr>,
      cfg_psk_file = ''/psk'', cfg_sysfs_root = ''/sys'', cfg_locator = \<lparr>sl_kubelet_root = ''/kubelet'', sl_proc_root = None\<rparr>,
      cfg_usbredirect = ''usbredirect'', cfg_include_hubs = False, cfg_ignore = [], cfg_scan_interval = 15,
      cfg_heartbeat_interval = 30, cfg_lost_after = 90\<rparr>"

end
