(* ===== verification/Utf8.thy ===== *)
theory Utf8
  imports RustStd
begin

text \<open>
  How Rust reads bytes as text: \<open>str::from_utf8\<close> accepts exactly the well-formed UTF-8 sequences, and
  \<open>String::from_utf8_lossy\<close> replaces every maximal ill-formed piece by U+FFFD. Also \<open>Path::join\<close> and substring
  search. Like theory \<open>RustStd\<close>, this is the language's library and has no counterpart under \<open>src/\<close>.
\<close>

section \<open>Decoding\<close>

definition in_range :: "nat \<Rightarrow> nat \<Rightarrow> char \<Rightarrow> bool" where
  "in_range lo hi c \<longleftrightarrow> lo \<le> code c \<and> code c \<le> hi"

text \<open>The range the second byte must lie in after a given lead byte of three or four bytes.\<close>

definition second_range :: "nat \<Rightarrow> nat \<times> nat" where
  "second_range b =
     (if b = 0xE0 then (0xA0, 0xBF) else if b = 0xED then (0x80, 0x9F)
      else if b = 0xF0 then (0x90, 0xBF) else if b = 0xF4 then (0x80, 0x8F) else (0x80, 0xBF))"

text \<open>The number of continuation bytes after a lead byte.\<close>

definition continuations :: "nat \<Rightarrow> nat option" where
  "continuations b =
     (if b < 0x80 then Some 0 else if 0xC2 \<le> b \<and> b \<le> 0xDF then Some 1
      else if 0xE0 \<le> b \<and> b \<le> 0xEF then Some 2 else if 0xF0 \<le> b \<and> b \<le> 0xF4 then Some 3 else None)"

text \<open>How many of the bytes that follow belong to the sequence; the first has its own range.\<close>

fun matching :: "nat \<times> nat \<Rightarrow> nat \<Rightarrow> char list \<Rightarrow> nat" where
  "matching r 0 cs = 0"
| "matching r (Suc n) [] = 0"
| "matching r (Suc n) (c # cs) = (if in_range (fst r) (snd r) c then Suc (matching (0x80, 0xBF) n cs) else 0)"

text \<open>Whether the text starts with a whole character, and how many bytes that or the ill-formed piece has.\<close>

fun utf8_chunk :: "bytes \<Rightarrow> bool \<times> nat" where
  "utf8_chunk [] = (True, 0)"
| "utf8_chunk (c # cs) =
     (case continuations (code c) of
        None \<Rightarrow> (False, 1)
      | Some n \<Rightarrow> let m = matching (second_range (code c)) n cs in (m = n, Suc m))"

definition REPLACEMENT :: string where
  "REPLACEMENT = map char_of [0xEF, 0xBF, 0xBD :: nat]"

function utf8_valid :: "bytes \<Rightarrow> bool" where
  "utf8_valid [] = True"
| "utf8_valid (c # cs) = (let (ok, n) = utf8_chunk (c # cs) in ok \<and> utf8_valid (drop (n - 1) cs))"
  by pat_completeness auto
termination by (relation "measure length") (auto simp: less_Suc_eq_le)

function utf8_lossy :: "bytes \<Rightarrow> string" where
  "utf8_lossy [] = []"
| "utf8_lossy (c # cs) =
     (let (ok, n) = utf8_chunk (c # cs)
      in (if ok then c # take (n - 1) cs else REPLACEMENT) @ utf8_lossy (drop (n - 1) cs))"
  by pat_completeness auto
termination by (relation "measure length") (auto simp: less_Suc_eq_le)

definition from_utf8 :: "bytes \<Rightarrow> string option" where
  "from_utf8 b = (if utf8_valid b then Some b else None)"

lemma utf8_lossy_valid: "utf8_valid b \<Longrightarrow> utf8_lossy b = b"
  by (induction b rule: utf8_valid.induct) (auto simp: Let_def split: prod.splits)

lemma utf8_chunk_ascii: "code c < 128 \<Longrightarrow> utf8_chunk (c # cs) = (True, 1)"
  by (simp add: continuations_def)

lemma utf8_ascii: "\<forall>c \<in> set b. code c < 128 \<Longrightarrow> utf8_valid b"
  by (induction b) (auto simp: utf8_chunk_ascii simp del: utf8_chunk.simps)

declare utf8_valid.simps(2) [simp del] utf8_lossy.simps(2) [simp del]

section \<open>Paths and substrings\<close>

definition path_join :: "string \<Rightarrow> string \<Rightarrow> string" where
  "path_join p q =
     (if starts_with q ''/'' then q
      else if p = [] \<or> last p = CHR ''/'' then p @ q
      else p @ ''/'' @ q)"

fun str_contains :: "string \<Rightarrow> string \<Rightarrow> bool" where
  "str_contains [] needle = (needle = [])"
| "str_contains (c # cs) needle = (starts_with (c # cs) needle \<or> str_contains cs needle)"

lemma str_contains_iff: "str_contains s needle \<longleftrightarrow> (\<exists>a b. s = a @ needle @ b)"
proof (induction s)
  case (Cons c s)
  have "starts_with (c # s) needle \<longleftrightarrow> (\<exists>b. c # s = needle @ b)"
    unfolding starts_with_def by (metis append_eq_conv_conj append_take_drop_id)
  moreover have "(\<exists>a b. c # s = a @ needle @ b) \<longleftrightarrow> (\<exists>b. c # s = needle @ b) \<or> (\<exists>a b. s = a @ needle @ b)"
    by (metis append_Cons append_Nil list.inject neq_Nil_conv)
  ultimately show ?case using Cons.IH by simp
qed simp

end
