(* ===== verification/Launcher.thy ===== *)
theory Launcher
  imports Agent Utf8
begin

text \<open>
  \<open>src/launcher.rs\<close>: where QEMU's \<open>virt-usbredir-N\<close> socket of a virtual machine is. The host's file system is
  an argument: which paths are sockets, the processes listed under \<open>/proc\<close> (\<^const>\<open>None\<close> for an unreadable entry
  or a name that is no UTF-8) and the cgroup file of each.
\<close>

record HostFs =
  hf_is_socket :: "string \<Rightarrow> bool"
  hf_read_dir :: "string \<Rightarrow> string option list option"
  hf_read_to_string :: "string \<Rightarrow> string option"

definition MAX_SUN_PATH :: nat where
  "MAX_SUN_PATH = 107"

definition socket_name :: "int \<Rightarrow> string" where
  "socket_name slot = ''virt-usbredir-'' @ show_int slot"

definition candidates :: "SocketLocator \<Rightarrow> string \<Rightarrow> string list \<Rightarrow> int \<Rightarrow> string list" where
  "candidates l vmi_uid launcher_pods slot =
     map (\<lambda>pod. path_join (path_join (path_join (path_join (path_join (sl_kubelet_root l) ''pods'') pod)
        ''volumes/kubernetes.io~empty-dir/private'') vmi_uid) (socket_name slot)) launcher_pods"

definition process_in_pods :: "HostFs \<Rightarrow> string \<Rightarrow> string list \<Rightarrow> bool" where
  "process_in_pods fs proc_pid pod_uids =
     (case hf_read_to_string fs (path_join proc_pid ''cgroup'') of
        None \<Rightarrow> False
      | Some cgroup \<Rightarrow>
          list_ex (\<lambda>uid. str_contains cgroup (''pod'' @ uid) \<or>
              str_contains cgroup (''pod'' @ map (\<lambda>c. if c = CHR ''-'' then CHR ''_'' else c) uid))
            (filter (\<lambda>uid. uid \<noteq> []) pod_uids))"

definition locate :: "HostFs \<Rightarrow> SocketLocator \<Rightarrow> string \<Rightarrow> string list \<Rightarrow> int \<Rightarrow> string option" where
  "locate fs l vmi_uid launcher_pods slot =
     (case find (hf_is_socket fs) (candidates l vmi_uid launcher_pods slot) of
        Some found \<Rightarrow> Some found
      | None \<Rightarrow>
          (case sl_proc_root l of
             None \<Rightarrow> None
           | Some proc_root \<Rightarrow>
               if launcher_pods = [] then None
               else
                 let relative = path_join (path_join ''root/var/run/kubevirt-private'' vmi_uid) (socket_name slot)
                 in case hf_read_dir fs proc_root of
                      None \<Rightarrow> None
                    | Some entries \<Rightarrow>
                        find (hf_is_socket fs)
                          (map (\<lambda>pid. path_join (path_join proc_root pid) relative)
                            (filter (\<lambda>pid. process_in_pods fs (path_join proc_root pid) launcher_pods)
                              (filter (list_all is_ascii_digit) (List.map_filter (\<lambda>e. e) entries))))))"

datatype ConnectPath = Direct string | ViaDirFd string string | NoParent

text \<open>
  \<open>connect\<close>: how a socket is reached, by its path or, when that exceeds the size of \<open>sun_path\<close>, by its name in a
  descriptor of its parent directory. \<open>split_parent\<close> is \<open>parent()\<close> and \<open>file_name()\<close> of a path
  without empty components or a trailing slash, as \<open>locate\<close> makes them.
\<close>

definition split_parent :: "string \<Rightarrow> (string \<times> string) option" where
  "split_parent path =
     (let name = rev (takeWhile (\<lambda>c. c \<noteq> CHR ''/'') (rev path));
          parent = rev (tl (dropWhile (\<lambda>c. c \<noteq> CHR ''/'') (rev path)))
      in if name = [] \<or> name = ''..'' then None
         else if CHR ''/'' \<notin> set path then Some ([], name)
         else Some (if parent = [] then ''/'' else parent, name))"

definition connect_path :: "string \<Rightarrow> ConnectPath" where
  "connect_path path =
     (if length path \<le> MAX_SUN_PATH then Direct path
      else case split_parent path of None \<Rightarrow> NoParent | Some (parent, name) \<Rightarrow> ViaDirFd parent name)"

section \<open>Properties\<close>

definition cgroup_names_pod :: "string \<Rightarrow> string \<Rightarrow> bool" where
  "cgroup_names_pod cgroup uid \<longleftrightarrow>
     (\<exists>a b. cgroup = a @ ''pod'' @ uid @ b) \<or>
     (\<exists>a b. cgroup = a @ ''pod'' @ map (\<lambda>c. if c = CHR ''-'' then CHR ''_'' else c) uid @ b)"

lemma process_in_pods_iff:
  "process_in_pods fs p pods \<longleftrightarrow>
     (\<exists>cgroup uid. hf_read_to_string fs (path_join p ''cgroup'') = Some cgroup \<and> uid \<in> set pods \<and> uid \<noteq> [] \<and>
        cgroup_names_pod cgroup uid)"
  by (auto simp: process_in_pods_def list_ex_iff str_contains_iff cgroup_names_pod_def split: option.splits)

text \<open>
  Property C32: a socket is only ever taken from one of the virtual machine's own launcher pods: what \<open>locate\<close> returns is a socket and
  lies in the private volume of one of the given pods, or under the root of a process whose cgroup names one of
  them (in either spelling).
\<close>

theorem located_socket_is_the_launchers:
  assumes "locate fs l vmi_uid pods slot = Some path"
  shows "hf_is_socket fs path \<and>
    (path \<in> set (candidates l vmi_uid pods slot) \<or>
     (\<exists>proc_root pid cgroup uid. sl_proc_root l = Some proc_root \<and>
        path = path_join (path_join proc_root pid)
          (path_join (path_join ''root/var/run/kubevirt-private'' vmi_uid) (socket_name slot)) \<and>
        hf_read_to_string fs (path_join (path_join proc_root pid) ''cgroup'') = Some cgroup \<and>
        uid \<in> set pods \<and> uid \<noteq> [] \<and> cgroup_names_pod cgroup uid))"
proof (cases "find (hf_is_socket fs) (candidates l vmi_uid pods slot)")
  case (Some found)
  with assms find_SomeD [OF Some] show ?thesis by (simp add: locate_def)
next
  case None
  with assms obtain proc_root entries where p: "sl_proc_root l = Some proc_root" and f: "find (hf_is_socket fs)
      (map (\<lambda>pid. path_join (path_join proc_root pid) (path_join (path_join ''root/var/run/kubevirt-private'' vmi_uid) (socket_name slot)))
        (filter (\<lambda>pid. process_in_pods fs (path_join proc_root pid) pods)
          (filter (list_all is_ascii_digit) (List.map_filter (\<lambda>e. e) entries)))) = Some path"
    by (auto simp: locate_def Let_def split: option.splits if_splits)
  from find_SomeD [OF f] obtain pid where "hf_is_socket fs path" "process_in_pods fs (path_join proc_root pid) pods"
    "path = path_join (path_join proc_root pid) (path_join (path_join ''root/var/run/kubevirt-private'' vmi_uid) (socket_name slot))"
    by auto
  with p show ?thesis by (auto simp: process_in_pods_iff)
qed

text \<open>
  Without launcher pods nothing is found, whatever the host's processes look like.
\<close>

lemma locate_no_pods: "locate fs l vmi_uid [] slot = None"
  by (simp add: locate_def candidates_def split: option.split)

lemma connect_path_short: "connect_path path = Direct p \<Longrightarrow> p = path \<and> length p \<le> 107"
  by (auto simp: connect_path_def MAX_SUN_PATH_def split: if_splits option.splits)

definition sample_host :: HostFs where
  "sample_host =
     \<lparr>hf_is_socket = (\<lambda>p. p = ''/proc/42/root/var/run/kubevirt-private/v1/virt-usbredir-0''),
      hf_read_dir = (\<lambda>_. Some [Some ''self'', Some ''42'']),
      hf_read_to_string = (\<lambda>p. if p = ''/proc/42/cgroup'' then Some ''0::/kubepods/podp1/x'' else None)\<rparr>"

definition sample_locator :: SocketLocator where
  "sample_locator = \<lparr>sl_kubelet_root = ''/kubelet'', sl_proc_root = Some ''/proc''\<rparr>"

theorem located_socket_is_the_launchers_witness:
  "locate sample_host sample_locator ''v1'' [''p1''] 0 = Some ''/proc/42/root/var/run/kubevirt-private/v1/virt-usbredir-0'' \<and>
   hf_is_socket sample_host ''/proc/42/root/var/run/kubevirt-private/v1/virt-usbredir-0''"
proof -
  have "char_of (48 :: nat) = CHR ''0''" by code_simp
  then have "locate sample_host sample_locator ''v1'' [''p1''] 0 = Some ''/proc/42/root/var/run/kubevirt-private/v1/virt-usbredir-0''"
    by (simp add: locate_def sample_host_def sample_locator_def candidates_def path_join_def starts_with_def socket_name_def
        show_int_def show_nat.simps digit_def process_in_pods_def List.map_filter_def rust_defs Let_def)
  with located_socket_is_the_launchers [OF this] show ?thesis by blast
qed

end
