(* ===== verification/Proto.thy ===== *)
theory Proto
  imports Externs
begin

text \<open>
  \<open>src/proto.rs\<close> and \<open>read_psk\<close> of \<open>src/watch.rs\<close>: the handshake between an
  attaching agent and an exporting one. A request carries an HMAC over its length-prefixed fields, a
  timestamp and a nonce; the exporter verifies the three and remembers nonces for the skew window.
  Timestamps are \<open>i64\<close>, here 64-bit words read as signed numbers: the subtraction and the absolute
  value wrap around, as in the release build. JSON is written and read by \<open>serde_json\<close>, so the
  serializer and the parser are arguments of \<open>write_line\<close> and \<open>read_line\<close>. A connection is
  the bytes that arrive and the error every later read returns.
\<close>

section \<open>Data\<close>

type_synonym i64 = "64 word"

definition PROTOCOL :: string where
  "PROTOCOL = ''atomic-usb/1''"

definition MAX_CLOCK_SKEW_SECS :: int where
  "MAX_CLOCK_SKEW_SECS = 120"

definition MAX_LINE_BYTES :: nat where
  "MAX_LINE_BYTES = 16 * 1024"

record ClaimRef =
  cr_namespace :: string
  cr_name :: string
  cr_uid :: string

record Hello =
  he_protocol :: string
  he_device :: string
  he_claim :: ClaimRef
  he_timestamp :: i64
  he_nonce :: string
  he_mac :: string

record Reply =
  re_ok :: bool
  re_error :: "string option"

datatype AuthError = ProtocolError string | Mac | Expired | Replay

text \<open>The \<open>Display\<close> text of an error, with \<open>{0:?}\<close> rendered by the library.\<close>

fun show_auth_error :: "Lib \<Rightarrow> AuthError \<Rightarrow> string" where
  "show_auth_error L (ProtocolError p) = ''unsupported protocol '' @ str_debug L p"
| "show_auth_error L Mac = ''invalid MAC''"
| "show_auth_error L Expired = ''timestamp outside the allowed clock skew''"
| "show_auth_error L Replay = ''nonce replayed''"

section \<open>The message authentication code\<close>

text \<open>\<open>u64::to_be_bytes\<close>: the eight bytes, the most significant first.\<close>

definition to_be_bytes :: "u64 \<Rightarrow> bytes" where
  "to_be_bytes w = map (\<lambda>i. char_of (unat w div 256 ^ i)) [7, 6, 5, 4, 3, 2, 1, 0]"

definition frame :: "string \<Rightarrow> bytes" where
  "frame field = to_be_bytes (of_nat (length field)) @ field"

definition mac_fields :: "Hello \<Rightarrow> string list" where
  "mac_fields h =
     [he_protocol h, he_device h, cr_namespace (he_claim h), cr_name (he_claim h), cr_uid (he_claim h),
      show_int (sint (he_timestamp h)), he_nonce h]"

text \<open>
  Feeding an HMAC piece by piece authenticates the concatenation of the pieces, so the code's loop
  of \<open>update\<close> calls is one application to the framed fields.
\<close>

definition mac_for :: "Lib \<Rightarrow> Hello \<Rightarrow> bytes \<Rightarrow> bytes" where
  "mac_for L h psk = hmac_sha256 L psk (concat (map frame (mac_fields h)))"

text \<open>The random nonce of \<open>Hello::new\<close> is an argument: the sixteen bytes drawn.\<close>

definition hello_new :: "Lib \<Rightarrow> bytes \<Rightarrow> bytes \<Rightarrow> string \<Rightarrow> ClaimRef \<Rightarrow> i64 \<Rightarrow> Hello" where
  "hello_new L random psk device claim timestamp =
     (let hello = \<lparr>he_protocol = PROTOCOL, he_device = device, he_claim = claim, he_timestamp = timestamp,
                   he_nonce = hex_encode L random, he_mac = []\<rparr>
      in hello\<lparr>he_mac := hex_encode L (mac_for L hello psk)\<rparr>)"

section \<open>Verification and replay protection\<close>

text \<open>\<open>i64::abs\<close>, which maps the smallest number to itself when it wraps.\<close>

definition i64_abs :: "i64 \<Rightarrow> i64" where
  "i64_abs x = (if sint x < 0 then - x else x)"

definition clock_skew :: "i64 \<Rightarrow> i64 \<Rightarrow> int" where
  "clock_skew now ts = sint (i64_abs (now - ts))"

definition verify :: "Lib \<Rightarrow> Hello \<Rightarrow> bytes \<Rightarrow> i64 \<Rightarrow> AuthError + unit" where
  "verify L h psk now =
     (if he_protocol h \<noteq> PROTOCOL then Inl (ProtocolError (he_protocol h))
      else case hex_decode L (he_mac h) of
             None \<Rightarrow> Inl Mac
           | Some expected \<Rightarrow>
               if mac_for L h psk \<noteq> expected then Inl Mac
               else if clock_skew now (he_timestamp h) > MAX_CLOCK_SKEW_SECS then Inl Expired
               else Inr ())"

type_synonym NonceCache = "string \<rightharpoonup> i64"

definition check_and_insert :: "NonceCache \<Rightarrow> string \<Rightarrow> i64 \<Rightarrow> i64 \<Rightarrow> (AuthError + unit) \<times> NonceCache" where
  "check_and_insert seen nonce timestamp now =
     (let seen' = retain (\<lambda>_ ts. clock_skew now ts \<le> MAX_CLOCK_SKEW_SECS) seen
      in if seen' nonce \<noteq> None then (Inl Replay, seen')
         else (Inr (), seen'(nonce \<mapsto> timestamp)))"

section \<open>The pre-shared key\<close>

text \<open>\<open>trim_ascii\<close> removes the bytes of \<open>u8::is_ascii_whitespace\<close> at both ends.\<close>

definition is_ascii_whitespace :: "char \<Rightarrow> bool" where
  "is_ascii_whitespace c \<longleftrightarrow> code c \<in> {9, 10, 12, 13, 32}"

definition trim_ascii :: "bytes \<Rightarrow> bytes" where
  "trim_ascii raw = rev (dropWhile is_ascii_whitespace (rev (dropWhile is_ascii_whitespace raw)))"

text \<open>\<open>file\<close> is what reading the key file returned.\<close>

definition read_psk :: "string \<Rightarrow> string + bytes \<Rightarrow> string + bytes" where
  "read_psk path file =
     (case file of
        Inl e \<Rightarrow> Inl (''reading pre-shared key '' @ path @ '': '' @ e)
      | Inr raw \<Rightarrow>
          let key = trim_ascii raw
          in if length key \<ge> 16 then Inr key
             else Inl (''pre-shared key '' @ path @ '' is shorter than 16 bytes''))"

section \<open>Lines\<close>

datatype IoError = UnexpectedEof | InvalidData string | OtherIo string

record Conn =
  cn_arrived :: bytes
  cn_then :: IoError

definition NEWLINE :: char where
  "NEWLINE = CHR 0x0A"

fun read_line_loop :: "bytes \<Rightarrow> IoError \<Rightarrow> bytes \<Rightarrow> (IoError + bytes) \<times> bytes" where
  "read_line_loop [] err line = (Inl err, [])"
| "read_line_loop (byte # rest) err line =
     (if byte = NEWLINE then (Inr line, rest)
      else if length line \<ge> MAX_LINE_BYTES then (Inl (InvalidData ''handshake line too long''), rest)
      else read_line_loop rest err (line @ [byte]))"

definition read_line :: "(bytes \<Rightarrow> string + 'a) \<Rightarrow> Conn \<Rightarrow> (IoError + 'a) \<times> Conn" where
  "read_line from_slice r =
     (case read_line_loop (cn_arrived r) (cn_then r) [] of
        (Inl err, rest) \<Rightarrow> (Inl err, r\<lparr>cn_arrived := rest\<rparr>)
      | (Inr line, rest) \<Rightarrow>
          ((case from_slice line of Inl e \<Rightarrow> Inl (InvalidData e) | Inr v \<Rightarrow> Inr v), r\<lparr>cn_arrived := rest\<rparr>))"

text \<open>The bytes \<open>write_line\<close> sends for a value it can serialize.\<close>

definition write_line :: "('a \<Rightarrow> string + bytes) \<Rightarrow> 'a \<Rightarrow> IoError + bytes" where
  "write_line to_vec v = (case to_vec v of Inl e \<Rightarrow> Inl (OtherIo e) | Inr line \<Rightarrow> Inr (line @ [NEWLINE]))"

section \<open>The framing is a prefix code\<close>

definition from_be_bytes :: "bytes \<Rightarrow> nat" where
  "from_be_bytes bs = foldl (\<lambda>acc c. 256 * acc + code c) 0 bs"

lemma length_to_be_bytes [simp]: "length (to_be_bytes w) = 8"
  by (simp add: to_be_bytes_def)

lemma from_to_be_bytes: "from_be_bytes (to_be_bytes w) = unat w"
proof -
  have small: "unat w < 2 ^ 64" using unsigned_less [of w] by simp
  have step: "256 * (n div (256 * b)) + (n div b) mod 256 = n div b" for n b :: nat
    by (metis div_mult2_eq mult.commute mult_div_mod_eq)
  from small have "unat w div 72057594037927936 mod 256 = unat w div 72057594037927936"
    by (intro mod_less) (simp add: less_mult_imp_div_less)
  then show ?thesis
    using step [of "unat w" 1] step [of "unat w" 256] step [of "unat w" 65536] step [of "unat w" 16777216]
      step [of "unat w" 4294967296] step [of "unat w" 1099511627776] step [of "unat w" 281474976710656]
    by (simp add: to_be_bytes_def from_be_bytes_def)
qed

lemma frame_prefix_free:
  assumes "length a < 2 ^ 64" and "length b < 2 ^ 64" and "frame a @ r = frame b @ s"
  shows "a = b \<and> r = s"
proof -
  from assms(3) have "to_be_bytes (of_nat (length a)) = to_be_bytes (of_nat (length b))" and eq: "a @ r = b @ s"
    by (simp_all add: frame_def append_eq_append_conv)
  then have "unat (of_nat (length a) :: u64) = unat (of_nat (length b) :: u64)"
    by (metis from_to_be_bytes)
  with assms(1,2) have "length a = length b"
    by (simp add: unat_of_nat)
  with eq show ?thesis by simp
qed

lemma frames_injective:
  assumes "length xs = length ys" and "\<forall>x \<in> set xs. length x < 2 ^ 64" and "\<forall>y \<in> set ys. length y < 2 ^ 64"
    and "concat (map frame xs) = concat (map frame ys)"
  shows "xs = ys"
  using assms
proof (induction xs ys rule: list_induct2)
  case (Cons x xs y ys)
  then show ?case using frame_prefix_free [of x y "concat (map frame xs)" "concat (map frame ys)"] by simp
qed simp

lemma show_int_inj: "show_int i = show_int j \<longleftrightarrow> i = j"
proof
  have ne: "show_nat m \<noteq> CHR ''-'' # show_nat n" for m n
    using dash_not_in_show_nat [of m] by (metis list.set_intros(1))
  assume "show_int i = show_int j"
  then show "i = j"
    by (auto simp: show_int_def ne ne [symmetric] split: if_splits)
qed simp

lemma length_show_nat: "length (show_nat n) \<le> Suc n"
proof (induction n rule: show_nat.induct)
  case (1 n)
  then show ?case by (cases "n < 10") (auto simp: show_nat.simps [of n])
qed


lemma mac_fields_short:
  assumes "length (he_protocol h) < 2 ^ 64" and "length (he_device h) < 2 ^ 64"
    and "length (cr_namespace (he_claim h)) < 2 ^ 64" and "length (cr_name (he_claim h)) < 2 ^ 64"
    and "length (cr_uid (he_claim h)) < 2 ^ 64" and "length (he_nonce h) < 2 ^ 64"
  shows "\<forall>f \<in> set (mac_fields h). length f < 2 ^ 64"
proof -
  have "- (2 ^ 63) \<le> sint (he_timestamp h)" "sint (he_timestamp h) < 2 ^ 63"
    using sint_greater_eq [of "he_timestamp h"] sint_less [of "he_timestamp h"] by simp_all
  then have "length (show_int (sint (he_timestamp h))) < 2 ^ 64"
    using length_show_nat [of "nat (sint (he_timestamp h))"] length_show_nat [of "nat (- sint (he_timestamp h))"]
    by (auto simp: show_int_def)
  with assms show ?thesis by (simp add: mac_fields_def)
qed

section \<open>Clocks\<close>

text \<open>Clocks within 73 billion years of the epoch, far beyond what a timestamp can hold.\<close>

definition sane_clock :: "i64 \<Rightarrow> bool" where
  "sane_clock now \<longleftrightarrow> - (2 ^ 61) \<le> sint now \<and> sint now \<le> 2 ^ 61"

lemma sint_wrap:
  fixes x y :: i64
  shows "sint (x - y) = (sint x - sint y + 2 ^ 63) mod 2 ^ 64 - 2 ^ 63"
    and "sint (- x) = (2 ^ 63 - sint x) mod 2 ^ 64 - 2 ^ 63"
  by (simp_all add: sint_word_ariths signed_take_bit_eq_take_bit_shift take_bit_eq_mod)

lemma skew_iff:
  assumes "sane_clock now"
  shows "clock_skew now ts \<le> MAX_CLOCK_SKEW_SECS \<longleftrightarrow>
     \<bar>sint now - sint ts\<bar> \<le> 120 \<or> \<bar>sint now - sint ts\<bar> = 2 ^ 63"
proof -
  define d where "d = sint now - sint ts"
  have "- (2 ^ 63) \<le> sint ts" "sint ts < 2 ^ 63"
    using sint_greater_eq [of ts] sint_less [of ts] by simp_all
  with assms have d: "- (2 ^ 62) - 2 ^ 63 < d" "d \<le> 2 ^ 62 + 2 ^ 63"
    by (simp_all add: d_def sane_clock_def)
  have w: "sint (now - ts) = (if d < - (2 ^ 63) then d + 2 ^ 64 else if d < 2 ^ 63 then d else d - 2 ^ 64)"
  proof -
    consider "d < - (2 ^ 63)" | "- (2 ^ 63) \<le> d" "d < 2 ^ 63" | "2 ^ 63 \<le> d" by linarith
    then show ?thesis
    proof cases
      case 1
      have "(d + 2 ^ 63) mod 2 ^ 64 = (d + 2 ^ 63 + 2 ^ 64) mod 2 ^ 64" by (rule mod_add_self2 [symmetric])
      also have "\<dots> = d + 2 ^ 63 + 2 ^ 64" using 1 d by (intro mod_pos_pos_trivial) simp_all
      finally show ?thesis using 1 by (simp add: sint_wrap d_def)
    next
      case 2
      then show ?thesis by (simp add: sint_wrap flip: d_def)
    next
      case 3
      have "(d + 2 ^ 63) mod 2 ^ 64 = (d + 2 ^ 63 - 2 ^ 64) mod 2 ^ 64" by (rule minus_mod_self2 [symmetric])
      also have "\<dots> = d + 2 ^ 63 - 2 ^ 64" using 3 d by (intro mod_pos_pos_trivial) simp_all
      finally show ?thesis using 3 by (simp add: sint_wrap flip: d_def)
    qed
  qed
  have neg: "sint (- x) = (if sint x = - (2 ^ 63) then - (2 ^ 63) else - sint x)" if "sint x < 0" for x :: i64
  proof (cases "sint x = - (2 ^ 63)")
    case False
    with that sint_greater_eq [of x] have "(2 ^ 63 - sint x) mod 2 ^ 64 = 2 ^ 63 - sint x"
      by (intro mod_pos_pos_trivial) simp_all
    with False show ?thesis by (simp add: sint_wrap)
  qed (simp add: sint_wrap)
  show ?thesis
    using d w neg [of "now - ts"] by (auto simp: clock_skew_def i64_abs_def MAX_CLOCK_SKEW_SECS_def simp flip: d_def)
qed

text \<open>
  The times at which a timestamp is accepted form an interval, whatever the timestamp: a timestamp that
  slips through because the difference wraps is accepted for a single second.
\<close>

lemma skew_convex:
  assumes "sane_clock t1" and "sane_clock t2" and "sane_clock t3" and "sint t1 \<le> sint t2" and "sint t2 \<le> sint t3"
    and "clock_skew t1 ts \<le> MAX_CLOCK_SKEW_SECS" and "clock_skew t3 ts \<le> MAX_CLOCK_SKEW_SECS"
  shows "clock_skew t2 ts \<le> MAX_CLOCK_SKEW_SECS"
  using assms unfolding skew_iff [OF assms(1)] skew_iff [OF assms(2)] skew_iff [OF assms(3)]
  by (simp add: sane_clock_def) arith


section \<open>What the nonce cache promises\<close>

text \<open>
  A guard against replays admits or refuses a nonce with its timestamp. It refuses a nonce it remembers,
  remembers what it admits, and forgets an entry only when its timestamp is no longer live. Then nothing is
  admitted twice by a clock that does not run backwards, provided every request is live when presented.
\<close>

locale replay_guard =
  fixes admit :: "'c \<Rightarrow> 'n \<Rightarrow> 's \<Rightarrow> int \<Rightarrow> bool \<times> 'c"
    and remembers :: "'c \<Rightarrow> 'n \<Rightarrow> 's option"
    and live :: "int \<Rightarrow> 's \<Rightarrow> bool"
  assumes refuses: "remembers c n = Some s \<Longrightarrow> live now s \<Longrightarrow> \<not> fst (admit c n s' now)"
    and admitted: "fst (admit c n s now) \<Longrightarrow> remembers (snd (admit c n s now)) n = Some s"
    and keeps: "remembers c m = Some s \<Longrightarrow> live now s \<Longrightarrow> m \<noteq> n \<or> \<not> fst (admit c n s' now) \<Longrightarrow>
        remembers (snd (admit c n s' now)) m = Some s"
    and live_convex: "live t1 s \<Longrightarrow> live t3 s \<Longrightarrow> t1 \<le> t2 \<Longrightarrow> t2 \<le> t3 \<Longrightarrow> live t2 s"
begin

fun cache_after :: "'c \<Rightarrow> ('n \<times> 's \<times> int) list \<Rightarrow> 'c" where
  "cache_after c [] = c"
| "cache_after c ((n, s, now) # reqs) = cache_after (snd (admit c n s now)) reqs"

lemma keeps_live: "remembers c m = Some s \<Longrightarrow> live now s \<Longrightarrow> remembers (snd (admit c n s' now)) m = Some s"
  using keeps refuses by (cases "m = n") blast+

lemma cache_after_keeps:
  assumes "remembers c m = Some s" and "\<forall>(n, s', now) \<in> set reqs. live now s"
  shows "remembers (cache_after c reqs) m = Some s"
  using assms
proof (induction c reqs rule: cache_after.induct)
  case (2 c n s' now reqs)
  then show ?case using keeps_live by auto
qed simp

lemma no_second_admission:
  assumes "fst (admit c n s t1)" and "live t1 s" and "live t3 s"
    and "\<forall>(n', s', t2) \<in> set reqs. t1 \<le> t2 \<and> t2 \<le> t3"
  shows "\<not> fst (admit (cache_after (snd (admit c n s t1)) reqs) n s' t3)"
proof -
  have "remembers (cache_after (snd (admit c n s t1)) reqs) n = Some s"
    using assms live_convex by (intro cache_after_keeps admitted) blast+
  with assms(3) show ?thesis by (rule refuses [rotated -1])
qed

end

definition admit_nonce :: "NonceCache \<Rightarrow> string \<Rightarrow> i64 \<Rightarrow> int \<Rightarrow> bool \<times> NonceCache" where
  "admit_nonce seen nonce ts t =
     (let r = check_and_insert seen nonce ts (word_of_int t) in (fst r = Inr (), snd r))"

definition live_at :: "int \<Rightarrow> i64 \<Rightarrow> bool" where
  "live_at t ts \<longleftrightarrow> \<bar>t\<bar> \<le> 2 ^ 61 \<and> clock_skew (word_of_int t) ts \<le> MAX_CLOCK_SKEW_SECS"

lemma sint_word_of_small: "\<bar>t\<bar> \<le> 2 ^ 61 \<Longrightarrow> sint (word_of_int t :: i64) = t"
  by (simp add: signed_of_int signed_take_bit_int_eq_self)

lemma live_at_convex:
  assumes "live_at t1 s" and "live_at t3 s" and "t1 \<le> t2" and "t2 \<le> t3"
  shows "live_at t2 s"
proof -
  from assms have small: "\<bar>t1\<bar> \<le> 2 ^ 61" "\<bar>t2\<bar> \<le> 2 ^ 61" "\<bar>t3\<bar> \<le> 2 ^ 61"
    by (auto simp: live_at_def)
  note sints = small [THEN sint_word_of_small]
  from small have "sane_clock (word_of_int t1)" "sane_clock (word_of_int t2)" "sane_clock (word_of_int t3)"
    by (auto simp: sane_clock_def sints)
  then show ?thesis
    using assms small skew_convex [of "word_of_int t1" "word_of_int t2" "word_of_int t3" s]
    by (simp add: live_at_def sints)
qed

interpretation nonces: replay_guard admit_nonce "\<lambda>seen. seen" live_at
proof
  show "live_at t1 s \<Longrightarrow> live_at t3 s \<Longrightarrow> t1 \<le> t2 \<Longrightarrow> t2 \<le> t3 \<Longrightarrow> live_at t2 s" for t1 t2 t3 s
    by (rule live_at_convex)
qed (auto simp: admit_nonce_def check_and_insert_def live_at_def retain_def Let_def split: if_splits option.splits)

section \<open>Properties\<close>

lemma verify_Inr:
  "verify L h psk now = Inr () \<longleftrightarrow>
     he_protocol h = PROTOCOL \<and> hex_decode L (he_mac h) = Some (mac_for L h psk) \<and>
     clock_skew now (he_timestamp h) \<le> MAX_CLOCK_SKEW_SECS"
  by (auto simp: verify_def split: option.splits)

lemma hello_new_simps [simp]:
  "he_protocol (hello_new L random psk device claim ts) = PROTOCOL"
  "he_timestamp (hello_new L random psk device claim ts) = ts"
  "he_device (hello_new L random psk device claim ts) = device"
  "he_claim (hello_new L random psk device claim ts) = claim"
  "he_nonce (hello_new L random psk device claim ts) = hex_encode L random"
  by (simp_all add: hello_new_def Let_def)

lemma hello_new_mac:
  "h = hello_new L random psk device claim ts \<Longrightarrow> he_mac h = hex_encode L (mac_for L h psk)"
  by (simp add: hello_new_def Let_def mac_for_def mac_fields_def)

lemma verify_hello_new:
  "hex_contract L \<Longrightarrow>
   verify L (hello_new L random psk device claim ts) psk now = Inr () \<longleftrightarrow> clock_skew now ts \<le> MAX_CLOCK_SKEW_SECS"
  by (simp add: verify_Inr hello_new_mac [OF refl] hex_contract_def)

text \<open>
  Property C17: the handshake's MAC binds every field. If the exporter accepts a request that carries the MAC
  of a request made by \<open>Hello::new\<close> under the same key (perhaps spelled in other hex digits), it is
  that very request, field for field, or two different messages with the same HMAC are at hand: the length
  prefixes leave no way to move bytes from one field to the next. (No string has 2^64 bytes.)
\<close>

theorem tampering_needs_a_collision:
  assumes "hex_contract L"
    and "sent = hello_new L random psk device claim ts"
    and "verify L received psk now = Inr ()" and "hex_decode L (he_mac received) = hex_decode L (he_mac sent)"
    and "\<forall>f \<in> set (mac_fields sent @ mac_fields received). length f < 2 ^ 64"
  shows "received\<lparr>he_mac := he_mac sent\<rparr> = sent \<or>
    (\<exists>m m'. m \<noteq> m' \<and> hmac_sha256 L psk m = hmac_sha256 L psk m')"
proof -
  have same: "mac_for L sent psk = mac_for L received psk"
    using assms(1,3,4) by (simp add: verify_Inr hello_new_mac [OF assms(2)] hex_contract_def)
  show ?thesis
  proof (cases "concat (map frame (mac_fields sent)) = concat (map frame (mac_fields received))")
    case True
    moreover have "length (mac_fields sent) = length (mac_fields received)" by (simp add: mac_fields_def)
    ultimately have "mac_fields sent = mac_fields received"
      using assms(5) by (intro frames_injective) auto
    then have "received\<lparr>he_mac := he_mac sent\<rparr> = sent"
      by (auto simp: mac_fields_def show_int_inj dest: signed_word_eqI [where 'a = int] intro!: Hello.equality ClaimRef.equality)
    then show ?thesis ..
  next
    case False
    with same show ?thesis unfolding mac_for_def by blast
  qed
qed

text \<open>
  A request made by \<open>Hello::new\<close> verifies under the same key exactly while the two clocks differ by at
  most two minutes, in either direction.
\<close>

theorem fresh_hello_verifies_iff:
  assumes "hex_contract L" and "sane_clock now" and "sane_clock ts"
  shows "verify L (hello_new L random psk device claim ts) psk now = Inr () \<longleftrightarrow> \<bar>sint now - sint ts\<bar> \<le> 120"
  using assms(2,3) by (auto simp: verify_hello_new [OF assms(1)] skew_iff [OF assms(2)] sane_clock_def)

text \<open>
  The freshness check can be passed by a timestamp that is not fresh at all: one that lies exactly
  2^63 seconds from the exporter's clock, because the absolute value of the smallest \<open>i64\<close> is negative.
  Only a holder of the key can make such a request, and it is accepted during that one second only.
\<close>

theorem far_timestamp_verifies:
  assumes "hex_contract L" and "sane_clock now"
  defines "ts \<equiv> now + 2 ^ 63"
  shows "verify L (hello_new L random psk device claim ts) psk now = Inr () \<and> \<bar>sint now - sint ts\<bar> = 2 ^ 63"
proof (intro conjI)
  have skew: "clock_skew now ts = - (2 ^ 63)"
    by (simp add: clock_skew_def i64_abs_def ts_def)
  then show "verify L (hello_new L random psk device claim ts) psk now = Inr ()"
    by (simp add: verify_hello_new [OF assms(1)] MAX_CLOCK_SKEW_SECS_def)
  have "ts = now - 2 ^ 63" by (simp add: ts_def)
  then have ts: "sint ts = sint now mod 2 ^ 64 - 2 ^ 63" by (simp add: sint_wrap)
  show "\<bar>sint now - sint ts\<bar> = 2 ^ 63"
  proof (cases "0 \<le> sint now")
    case True
    with assms(2) show ?thesis by (simp add: ts sane_clock_def)
  next
    case False
    have "sint now mod 2 ^ 64 = (sint now + 2 ^ 64) mod 2 ^ 64" by (rule mod_add_self2 [symmetric])
    also have "\<dots> = sint now + 2 ^ 64"
      using False assms(2) by (intro mod_pos_pos_trivial) (simp_all add: sane_clock_def)
    finally show ?thesis by (simp add: ts)
  qed
qed

section \<open>Lines do not eat into the stream\<close>

lemma read_line_loop_line:
  "NEWLINE \<notin> set line \<Longrightarrow> length acc + length line \<le> MAX_LINE_BYTES \<Longrightarrow>
   read_line_loop (line @ NEWLINE # rest) err acc = (Inr (acc @ line), rest)"
  by (induction line arbitrary: acc) auto

text \<open>
  Property C33: a value written by one side is what the other side reads, and not a byte of the usbredir stream
  that follows is consumed, provided the parser inverts the serializer, which writes compact
  JSON (no raw newline), and the line is at most 16 KiB.
\<close>

theorem handshake_line_roundtrip:
  assumes "to_vec v = Inr line" and "from_slice line = Inr v"
    and "NEWLINE \<notin> set line" and "length line \<le> MAX_LINE_BYTES"
  shows "\<exists>sent. write_line to_vec v = Inr sent \<and>
    read_line from_slice \<lparr>cn_arrived = sent @ stream, cn_then = err\<rparr> = (Inr v, \<lparr>cn_arrived = stream, cn_then = err\<rparr>)"
  using assms read_line_loop_line [of line "[]" stream err] by (simp add: write_line_def read_line_def)

lemma read_line_loop_consumes:
  "length line \<le> MAX_LINE_BYTES \<Longrightarrow> read_line_loop input err line = (r, rest) \<Longrightarrow>
   \<exists>eaten. input = eaten @ rest \<and> length line + length eaten \<le> Suc MAX_LINE_BYTES"
proof (induction input err line rule: read_line_loop.induct)
  case (2 byte input err line)
  show ?case
  proof (cases "byte = NEWLINE \<or> MAX_LINE_BYTES \<le> length line")
    case True
    with 2 have "rest = input" by (auto split: if_splits)
    with 2 show ?thesis by (intro exI [of _ "[byte]"]) simp
  next
    case False
    with 2 obtain eaten where "input = eaten @ rest" "length (line @ [byte]) + length eaten \<le> Suc MAX_LINE_BYTES"
      by auto
    then show ?thesis by (intro exI [of _ "byte # eaten"]) simp
  qed
qed simp

text \<open>
  Whatever a peer sends, reading its handshake line takes at most 16 KiB and one byte off the connection, in
  order, and leaves the rest untouched.
\<close>

theorem handshake_line_bounded:
  "\<exists>eaten. cn_arrived c = eaten @ cn_arrived (snd (read_line from_slice c)) \<and> length eaten \<le> Suc MAX_LINE_BYTES"
  using read_line_loop_consumes [of "[]" "cn_arrived c" "cn_then c"]
  by (fastforce simp: read_line_def split: prod.splits sum.splits)

lemma trim_ascii_ends:
  assumes "trim_ascii raw \<noteq> []"
  shows "\<not> is_ascii_whitespace (hd (trim_ascii raw))" and "\<not> is_ascii_whitespace (last (trim_ascii raw))"
proof -
  define body where "body = dropWhile is_ascii_whitespace raw"
  have ends: "trim_ascii raw = rev (dropWhile is_ascii_whitespace (rev body))" by (simp add: trim_ascii_def body_def)
  from assms ends have inner: "dropWhile is_ascii_whitespace (rev body) \<noteq> []" by auto
  then show "\<not> is_ascii_whitespace (last (trim_ascii raw))"
    by (simp add: ends last_rev hd_dropWhile)
  have "body \<noteq> []" using inner by auto
  then have hd_body: "\<not> is_ascii_whitespace (hd body)" by (metis body_def hd_dropWhile)
  obtain us where "rev body = us @ dropWhile is_ascii_whitespace (rev body)"
    by (metis takeWhile_dropWhile_id)
  then have "last (dropWhile is_ascii_whitespace (rev body)) = last (rev body)"
    by (metis inner last_appendR)
  then show "\<not> is_ascii_whitespace (hd (trim_ascii raw))"
    using hd_body by (simp add: ends hd_rev last_rev)
qed

text \<open>
  A pre-shared key that is accepted has at least sixteen bytes and no white space at its ends.
\<close>

theorem read_psk_strong:
  assumes "read_psk path file = Inr key"
  shows "16 \<le> length key" and "\<not> is_ascii_whitespace (hd key)" and "\<not> is_ascii_whitespace (last key)"
proof -
  from assms obtain raw where "key = trim_ascii raw" and l: "16 \<le> length key"
    by (auto simp: read_psk_def Let_def split: sum.splits if_splits)
  moreover from l have "key \<noteq> []" by auto
  ultimately show "16 \<le> length key" "\<not> is_ascii_whitespace (hd key)" "\<not> is_ascii_whitespace (last key)"
    using trim_ascii_ends [of raw] by simp_all
qed

section \<open>The properties at work\<close>

definition sample_claim_ref :: ClaimRef where
  "sample_claim_ref = \<lparr>cr_namespace = ''default'', cr_name = ''usb-claim'', cr_uid = ''4f0c''\<rparr>"

definition sample_psk :: bytes where
  "sample_psk = ''0123456789abcdef''"

definition sample_hello :: Hello where
  "sample_hello = hello_new sample_lib ''nonce'' sample_psk ''dev-a'' sample_claim_ref 1000"

lemma sample_clocks: "sane_clock 1000" "sane_clock 1010" "clock_skew 1010 1000 \<le> MAX_CLOCK_SKEW_SECS"
  by (simp_all add: sane_clock_def clock_skew_def i64_abs_def MAX_CLOCK_SKEW_SECS_def)

lemma sample_fields: "\<forall>f \<in> set (mac_fields sample_hello). length f < 2 ^ 64"
proof (rule mac_fields_short)
  have "length (hex_encode sample_lib ''nonce'') = 10"
    using hex_sample by (simp add: hex_contract_def)
  then show "length (he_nonce sample_hello) < 2 ^ 64" by (simp add: sample_hello_def)
qed (simp_all add: sample_hello_def sample_claim_ref_def PROTOCOL_def)

theorem tampering_needs_a_collision_witness:
  "verify sample_lib sample_hello sample_psk 1010 = Inr () \<and>
   (sample_hello\<lparr>he_mac := he_mac sample_hello\<rparr> = sample_hello \<or>
    (\<exists>m m'. m \<noteq> m' \<and> hmac_sha256 sample_lib sample_psk m = hmac_sha256 sample_lib sample_psk m'))"
proof -
  have ok: "verify sample_lib sample_hello sample_psk 1010 = Inr ()"
    unfolding sample_hello_def using sample_clocks verify_hello_new [OF hex_sample] by blast
  moreover have "\<forall>f \<in> set (mac_fields sample_hello @ mac_fields sample_hello). length f < 2 ^ 64"
    using sample_fields by simp
  ultimately show ?thesis
    using tampering_needs_a_collision [OF hex_sample sample_hello_def ok refl] by blast
qed

theorem fresh_hello_verifies_iff_witness:
  "verify sample_lib (hello_new sample_lib ''nonce'' sample_psk ''dev-a'' sample_claim_ref 1000) sample_psk 1010 = Inr ()"
  using fresh_hello_verifies_iff [OF hex_sample sample_clocks(2,1)] by simp

theorem far_timestamp_verifies_witness:
  "verify sample_lib (hello_new sample_lib ''nonce'' sample_psk ''dev-a'' sample_claim_ref (1000 + 2 ^ 63)) sample_psk 1000 = Inr ()"
  using far_timestamp_verifies [OF hex_sample sample_clocks(1)] by blast

text \<open>A serializer and a parser for the one reply that starts a stream.\<close>

definition ok_line :: bytes where
  "ok_line = map char_of [123, 34, 111, 107, 34, 58, 116, 114, 117, 101, 125 :: nat]"

definition ok_reply :: Reply where
  "ok_reply = \<lparr>re_ok = True, re_error = None\<rparr>"

definition write_ok :: "Reply \<Rightarrow> string + bytes" where
  "write_ok r = (if r = ok_reply then Inr ok_line else Inl ''not supported'')"

definition parse_ok :: "bytes \<Rightarrow> string + Reply" where
  "parse_ok b = (if b = ok_line then Inr ok_reply else Inl ''syntax error'')"

theorem handshake_line_roundtrip_witness:
  "\<exists>sent. write_line write_ok ok_reply = Inr sent \<and>
     read_line parse_ok \<lparr>cn_arrived = sent @ ''USBREDIR'', cn_then = UnexpectedEof\<rparr> =
       (Inr ok_reply, \<lparr>cn_arrived = ''USBREDIR'', cn_then = UnexpectedEof\<rparr>)"
proof (rule handshake_line_roundtrip)
  show "NEWLINE \<notin> set ok_line" by code_simp
  show "length ok_line \<le> MAX_LINE_BYTES" by code_simp
qed (simp_all add: write_ok_def parse_ok_def)

end
