(* ===== verification/Kubevirt.thy ===== *)
theory Kubevirt
  imports Crd
begin

text \<open>
  \<open>src/kubevirt.rs\<close>: the views of KubeVirt objects that the controller and the agents
  read out of untyped JSON, and how a claim's owner references follow its VM. A JSON object is the
  association list of its members in key order, a number its literal (no number is read). \<open>unpause\<close> is an API call; it is modelled with
  the other calls in theory \<open>Api\<close>.
\<close>

section \<open>Untyped objects\<close>

datatype Json =
    JNull
  | JBool bool
  | JNumber string
  | JString string
  | JArray "Json list"
  | JObject "(string \<times> Json) list"

fun json_get :: "Json \<Rightarrow> string \<Rightarrow> Json option" where
  "json_get (JObject members) key = map_of members key"
| "json_get _ key = None"

fun as_str :: "Json \<Rightarrow> string option" where
  "as_str (JString s) = Some s"
| "as_str _ = None"

fun as_array :: "Json \<Rightarrow> Json list option" where
  "as_array (JArray xs) = Some xs"
| "as_array _ = None"

fun as_object :: "Json \<Rightarrow> (string \<times> Json) list option" where
  "as_object (JObject members) = Some members"
| "as_object _ = None"

text \<open>
  \<open>Value::pointer\<close> on the pointers the source uses, whose tokens are member names: none of
  them is an array index, so a pointer into an array finds nothing.
\<close>

fun pointer :: "Json \<Rightarrow> string list \<Rightarrow> Json option" where
  "pointer v [] = Some v"
| "pointer v (token # tokens) = (case json_get v token of None \<Rightarrow> None | Some w \<Rightarrow> pointer w tokens)"

record DynamicObject =
  do_metadata :: ObjectMeta
  do_data :: Json

section \<open>Constants\<close>

definition USBREDIR_SLOTS :: int where
  "USBREDIR_SLOTS = 4"

definition KIND_VM :: string where
  "KIND_VM = ''VirtualMachine''"

definition KIND_VMI :: string where
  "KIND_VMI = ''VirtualMachineInstance''"

definition API_VERSION :: string where
  "API_VERSION = ''kubevirt.io/v1''"

definition CONDITION_PAUSED :: string where
  "CONDITION_PAUSED = ''Paused''"

definition START_STRATEGY_PAUSED :: string where
  "START_STRATEGY_PAUSED = ''Paused''"

section \<open>Instances\<close>

record VmiInfo =
  vi_namespace :: string
  vi_name :: string
  vi_uid :: string
  vi_phase :: "string option"
  vi_node :: "string option"
  vi_client_passthrough :: bool
  vi_start_paused :: bool
  vi_paused :: bool
  vi_paused_since :: "string option"
  vi_active_pods :: "(string, string) btree"
  vi_controlled_by_vm :: bool
  vi_deleting :: bool

abbreviation json_opt_get :: "Json option \<Rightarrow> string \<Rightarrow> Json option" where
  "json_opt_get v key \<equiv> Option.bind v (\<lambda>w. json_get w key)"

definition str_at :: "Json option \<Rightarrow> string \<Rightarrow> string option" where
  "str_at v key = Option.bind (json_opt_get v key) as_str"

definition not_null :: "Json option \<Rightarrow> bool" where
  "not_null v = (case v of None \<Rightarrow> False | Some w \<Rightarrow> w \<noteq> JNull)"

definition active_pods_of :: "Json option \<Rightarrow> (string, string) btree" where
  "active_pods_of status =
     (case Option.bind (json_opt_get status ''activePods'') as_object of
        None \<Rightarrow> []
      | Some pods \<Rightarrow>
          bt_collect (List.map_filter (\<lambda>(uid, node). map_option (\<lambda>n. (uid, n)) (as_str node)) pods))"

definition paused_condition :: "Json option \<Rightarrow> Json option" where
  "paused_condition status =
     (case Option.bind (Option.bind (json_opt_get status ''conditions'') as_array)
             (find (\<lambda>c. str_at (Some c) ''type'' = Some CONDITION_PAUSED)) of
        None \<Rightarrow> None
      | Some c \<Rightarrow> if str_at (Some c) ''status'' = Some ''True'' then Some c else None)"

definition vmi_from_object :: "DynamicObject \<Rightarrow> VmiInfo option" where
  "vmi_from_object obj =
     (let spec = json_get (do_data obj) ''spec'';
          status = json_get (do_data obj) ''status'';
          client_passthrough = not_null (Option.bind spec (\<lambda>s. pointer s [''domain'', ''devices'', ''clientPassthrough'']));
          controlled_by_vm = list_ex (\<lambda>r. or_kind r = KIND_VM \<and> or_controller r = Some True)
                               (om_owner_references (do_metadata obj));
          paused_cond = paused_condition status
      in case (om_namespace (do_metadata obj), om_uid (do_metadata obj)) of
           (Some namespace, Some uid) \<Rightarrow>
             Some \<lparr>vi_namespace = namespace, vi_name = om_name_any (do_metadata obj), vi_uid = uid,
                   vi_phase = str_at status ''phase'',
                   vi_node = (case str_at status ''nodeName'' of None \<Rightarrow> None | Some n \<Rightarrow> if n \<noteq> [] then Some n else None),
                   vi_client_passthrough = client_passthrough,
                   vi_start_paused = (str_at spec ''startStrategy'' = Some START_STRATEGY_PAUSED),
                   vi_paused = (paused_cond \<noteq> None),
                   vi_paused_since = Option.bind paused_cond (\<lambda>c. str_at (Some c) ''lastTransitionTime''),
                   vi_active_pods = active_pods_of status,
                   vi_controlled_by_vm = controlled_by_vm,
                   vi_deleting = (om_deletion_timestamp (do_metadata obj) \<noteq> None)\<rparr>
         | _ \<Rightarrow> None)"

definition is_running :: "VmiInfo \<Rightarrow> bool" where
  "is_running v \<longleftrightarrow> vi_phase v = Some ''Running'' \<and> vi_node v \<noteq> None"

definition launcher_pods_on :: "VmiInfo \<Rightarrow> string \<Rightarrow> string list" where
  "launcher_pods_on v node = map fst (filter (\<lambda>(_, n). n = node) (vi_active_pods v))"

section \<open>Virtual machines\<close>

record VmInfo =
  vm_namespace :: string
  vm_name :: string
  vm_uid :: string
  vm_client_passthrough :: bool
  vm_start_paused :: bool
  vm_printable_status :: "string option"
  vm_deleting :: bool

definition vm_from_object :: "DynamicObject \<Rightarrow> VmInfo option" where
  "vm_from_object obj =
     (case (om_namespace (do_metadata obj), om_uid (do_metadata obj)) of
        (Some namespace, Some uid) \<Rightarrow>
          Some \<lparr>vm_namespace = namespace, vm_name = om_name_any (do_metadata obj), vm_uid = uid,
                vm_client_passthrough =
                  not_null (pointer (do_data obj) [''spec'', ''template'', ''spec'', ''domain'', ''devices'', ''clientPassthrough'']),
                vm_start_paused =
                  (Option.bind (pointer (do_data obj) [''spec'', ''template'', ''spec'', ''startStrategy'']) as_str
                     = Some START_STRATEGY_PAUSED),
                vm_printable_status = Option.bind (pointer (do_data obj) [''status'', ''printableStatus'']) as_str,
                vm_deleting = (om_deletion_timestamp (do_metadata obj) \<noteq> None)\<rparr>
      | _ \<Rightarrow> None)"

section \<open>Ownership\<close>

record VmOwner =
  vo_kind :: string
  vo_name :: string
  vo_uid :: string

definition owner_reference :: "VmOwner \<Rightarrow> OwnerReference" where
  "owner_reference o1 =
     \<lparr>or_api_version = API_VERSION, or_kind = vo_kind o1, or_name = vo_name o1, or_uid = vo_uid o1,
      or_controller = Some False, or_block_owner_deletion = Some False\<rparr>"

definition vm_owner :: "VmInfo option \<Rightarrow> VmiInfo option \<Rightarrow> VmOwner option" where
  "vm_owner vm vmi =
     (case vm of
        Some v \<Rightarrow> Some \<lparr>vo_kind = KIND_VM, vo_name = vm_name v, vo_uid = vm_uid v\<rparr>
      | None \<Rightarrow>
          (case vmi of
             None \<Rightarrow> None
           | Some i \<Rightarrow> if vi_controlled_by_vm i then None
                       else Some \<lparr>vo_kind = KIND_VMI, vo_name = vi_name i, vo_uid = vi_uid i\<rparr>))"

definition vm_present :: "VmInfo option \<Rightarrow> VmiInfo option \<Rightarrow> bool" where
  "vm_present vm vmi =
     (case (vm, vmi) of
        (Some v, _) \<Rightarrow> \<not> vm_deleting v
      | (None, Some i) \<Rightarrow> \<not> vi_deleting i
      | (None, None) \<Rightarrow> False)"

definition is_kubevirt_vm_reference :: "OwnerReference \<Rightarrow> bool" where
  "is_kubevirt_vm_reference r \<longleftrightarrow>
     starts_with (or_api_version r) ''kubevirt.io/'' \<and> (or_kind r = KIND_VM \<or> or_kind r = KIND_VMI)"

definition claim_owner_references ::
  "OwnerReference list \<Rightarrow> string \<Rightarrow> VmOwner option \<Rightarrow> OwnerReference list option" where
  "claim_owner_references existing vm_name_arg owner =
     (let kept = filter (\<lambda>r. \<not> is_kubevirt_vm_reference r \<or> (owner = None \<and> or_name r = vm_name_arg)) existing;
          desired = (case owner of None \<Rightarrow> kept | Some o1 \<Rightarrow> kept @ [owner_reference o1])
      in if desired \<noteq> existing then Some desired else None)"

section \<open>Lemmas\<close>

lemma vm_owner_kind: "vm_owner vm vmi = Some o1 \<Longrightarrow> vo_kind o1 = KIND_VM \<or> vo_kind o1 = KIND_VMI"
  by (auto simp: vm_owner_def split: option.splits if_splits)

lemma owner_reference_is_vm: "vo_kind o1 = KIND_VM \<or> vo_kind o1 = KIND_VMI \<Longrightarrow> is_kubevirt_vm_reference (owner_reference o1)"
  by (auto simp: is_kubevirt_vm_reference_def owner_reference_def API_VERSION_def starts_with_def)

text \<open>What a claim's references should be: exactly the owner among the KubeVirt references, or
  without an owner only references to the claim's VM name.\<close>

definition owner_references_settled :: "string \<Rightarrow> VmOwner option \<Rightarrow> OwnerReference list \<Rightarrow> bool" where
  "owner_references_settled vm_name_arg owner refs \<longleftrightarrow>
     (case owner of
        Some o1 \<Rightarrow> filter is_kubevirt_vm_reference refs = [owner_reference o1]
      | None \<Rightarrow> list_all (\<lambda>r. or_name r = vm_name_arg) (filter is_kubevirt_vm_reference refs))"

lemma claim_owner_references_desired:
  fixes existing vm_arg vm vmi
  defines "final \<equiv> (case claim_owner_references existing vm_arg (vm_owner vm vmi) of None \<Rightarrow> existing | Some refs \<Rightarrow> refs)"
  shows "owner_references_settled vm_arg (vm_owner vm vmi) final"
    and "filter (\<lambda>r. \<not> is_kubevirt_vm_reference r) final = filter (\<lambda>r. \<not> is_kubevirt_vm_reference r) existing"
    and "claim_owner_references final vm_arg (vm_owner vm vmi) = None"
proof -
  let ?o = "vm_owner vm vmi"
  let ?P = "\<lambda>r. \<not> is_kubevirt_vm_reference r \<or> (?o = None \<and> or_name r = vm_arg)"
  have final: "final = filter ?P existing @ (case ?o of None \<Rightarrow> [] | Some o1 \<Rightarrow> [owner_reference o1])"
    unfolding final_def claim_owner_references_def by (auto simp: Let_def split: option.splits)
  have own: "is_kubevirt_vm_reference (owner_reference o1)" if "?o = Some o1" for o1
    using vm_owner_kind [OF that] by (rule owner_reference_is_vm)
  have "filter is_kubevirt_vm_reference (filter (\<lambda>r. \<not> is_kubevirt_vm_reference r) xs) = []" for xs
    by (simp add: filter_empty_conv)
  then show "owner_references_settled vm_arg ?o final"
    using own by (auto simp: final owner_references_settled_def list_all_iff split: option.splits)
  show "filter (\<lambda>r. \<not> is_kubevirt_vm_reference r) final = filter (\<lambda>r. \<not> is_kubevirt_vm_reference r) existing"
    using own by (auto simp: final split: option.splits intro: filter_cong)
  have "filter ?P final = filter ?P existing"
    using own by (auto simp: final split: option.splits)
  then show "claim_owner_references final vm_arg ?o = None"
    by (auto simp: claim_owner_references_def Let_def final split: option.splits)
qed

text \<open>
  One application of \<open>claim_owner_references\<close> settles a claim's owner references
  for good: afterwards the only KubeVirt reference is the owner (or, without an owner, they all
  name the claim's VM), the references to other kinds are the same in the same order, and
  a second application finds nothing to change, so the controller does not patch in a loop.
\<close>

theorem owner_references_settle:
  "case claim_owner_references existing vm_arg (vm_owner vm vmi) of
     None \<Rightarrow> owner_references_settled vm_arg (vm_owner vm vmi) existing
   | Some refs \<Rightarrow>
       refs \<noteq> existing \<and> owner_references_settled vm_arg (vm_owner vm vmi) refs \<and>
       filter (\<lambda>r. \<not> is_kubevirt_vm_reference r) refs = filter (\<lambda>r. \<not> is_kubevirt_vm_reference r) existing \<and>
       claim_owner_references refs vm_arg (vm_owner vm vmi) = None"
proof (cases "claim_owner_references existing vm_arg (vm_owner vm vmi)")
  case None
  with claim_owner_references_desired(1) [where existing = existing and vm_arg = vm_arg and vm = vm and vmi = vmi] show ?thesis by simp
next
  case (Some refs)
  then have "refs \<noteq> existing" by (auto simp: claim_owner_references_def Let_def split: if_splits)
  with Some claim_owner_references_desired [where existing = existing and vm_arg = vm_arg and vm = vm and vmi = vmi] show ?thesis by simp
qed

lemma vmi_from_object_node: "vmi_from_object obj = Some v \<Longrightarrow> vi_node v \<noteq> Some []"
  by (auto simp: vmi_from_object_def Let_def split: option.splits prod.splits if_splits)

lemma active_pods_sorted: "bt_sorted (active_pods_of status)"
  by (auto simp: active_pods_of_def split: option.splits)

lemma vmi_from_object_pods: "vmi_from_object obj = Some v \<Longrightarrow> bt_sorted (vi_active_pods v)"
  by (auto simp: vmi_from_object_def Let_def active_pods_sorted split: option.splits prod.splits)

lemma launcher_pods_on_iff: "uid \<in> set (launcher_pods_on v node) \<longleftrightarrow> (uid, node) \<in> set (vi_active_pods v)"
  by (force simp: launcher_pods_on_def)

end
