(* ===== verification/Slots.thy ===== *)
theory Slots
  imports Kubevirt
begin

text \<open>
  \<open>allocate_slots\<close> of \<open>src/controller.rs\<close>: every claim gets one of its VM's usbredir
  slots, in three loops per VM: pinned slots, slots claims already have, then the highest free
  slot. Each loop is an instance of the locale \<open>grant_pass\<close>; the properties at the end
  compose the three.
\<close>

section \<open>Model\<close>

record SlotRequest =
  sr_uid :: string
  sr_name :: string
  sr_vm :: "string \<times> string"
  sr_pinned :: "int option"
  sr_previous :: "int option"

type_synonym slot_result = "string + int"
type_synonym slot_state = "(string \<rightharpoonup> slot_result) \<times> (int \<rightharpoonup> string)"

definition bt_push :: "'k::linorder \<Rightarrow> 'v \<Rightarrow> ('k, 'v list) btree \<Rightarrow> ('k, 'v list) btree" where
  "bt_push k v m = bt_insert k ((case map_of m k of None \<Rightarrow> [] | Some vs \<Rightarrow> vs) @ [v]) m"

definition by_vm_of :: "SlotRequest list \<Rightarrow> (string \<times> string, SlotRequest list) btree" where
  "by_vm_of requests = fold (\<lambda>r. bt_push (sr_vm r) r) requests []"

definition in_range :: "int \<Rightarrow> bool" where
  "in_range slot \<longleftrightarrow> 0 \<le> slot \<and> slot < USBREDIR_SLOTS"

definition pin_slot :: "SlotRequest \<Rightarrow> slot_state \<Rightarrow> slot_state" where
  "pin_slot r st =
     (case sr_pinned r of
        None \<Rightarrow> st
      | Some slot \<Rightarrow>
          let (result, used) = st
          in if \<not> in_range slot then
               (result(sr_uid r \<mapsto> Inl (''spec.slot must be between 0 and '' @ show_int (USBREDIR_SLOTS - 1))), used)
             else case used slot of
                    Some owner \<Rightarrow>
                      (result(sr_uid r \<mapsto> Inl (''slot '' @ show_int slot @ '' is already pinned by claim '' @ owner)), used)
                  | None \<Rightarrow> (result(sr_uid r \<mapsto> Inr slot), used(slot \<mapsto> sr_name r)))"

definition keep_slot :: "SlotRequest \<Rightarrow> slot_state \<Rightarrow> slot_state" where
  "keep_slot r st =
     (let (result, used) = st
      in case sr_previous r of
           None \<Rightarrow> st
         | Some slot \<Rightarrow>
             if in_range slot \<and> used slot = None
             then (result(sr_uid r \<mapsto> Inr slot), used(slot \<mapsto> sr_name r)) else st)"

definition top_slot :: "SlotRequest \<Rightarrow> slot_state \<Rightarrow> slot_state" where
  "top_slot r st =
     (let (result, used) = st
      in case find (\<lambda>s. used s = None) (rev [0..USBREDIR_SLOTS - 1]) of
           Some slot \<Rightarrow> (result(sr_uid r \<mapsto> Inr slot), used(slot \<mapsto> sr_name r))
         | None \<Rightarrow>
             (result(sr_uid r \<mapsto> Inl (''all '' @ show_int USBREDIR_SLOTS @ '' usbredir slots of the VM are in use'')), used))"

definition pinned_pass :: "SlotRequest list \<Rightarrow> slot_state \<Rightarrow> slot_state" where
  "pinned_pass requests = fold pin_slot requests"

definition previous_pass :: "SlotRequest list \<Rightarrow> slot_state \<Rightarrow> slot_state" where
  "previous_pass requests = fold keep_slot (filter (\<lambda>r. sr_pinned r = None) requests)"

definition top_pass :: "SlotRequest list \<Rightarrow> slot_state \<Rightarrow> slot_state" where
  "top_pass requests st = fold top_slot (filter (\<lambda>r. fst st (sr_uid r) = None) requests) st"

definition allocate_vm_state :: "SlotRequest list \<Rightarrow> (string \<rightharpoonup> slot_result) \<Rightarrow> slot_state" where
  "allocate_vm_state requests result = top_pass requests (previous_pass requests (pinned_pass requests (result, Map.empty)))"

definition allocate_vm :: "SlotRequest list \<Rightarrow> (string \<rightharpoonup> slot_result) \<Rightarrow> (string \<rightharpoonup> slot_result)" where
  "allocate_vm requests result = fst (allocate_vm_state requests result)"

definition allocate_slots :: "SlotRequest list \<Rightarrow> (string \<rightharpoonup> slot_result)" where
  "allocate_slots requests = fold (\<lambda>(_, rs). allocate_vm rs) (by_vm_of requests) Map.empty"

section \<open>Grouping by VM\<close>

lemma map_of_bt_push: "map_of (bt_push k v m) = (map_of m)(k \<mapsto> (case map_of m k of None \<Rightarrow> [] | Some vs \<Rightarrow> vs) @ [v])"
  by (simp add: bt_push_def map_of_bt_insert)

lemma bt_push_sorted: "bt_sorted m \<Longrightarrow> bt_sorted (bt_push k v m)"
  unfolding bt_push_def by (rule bt_sorted_insert)

lemma fold_bt_push_get:
  "map_of (fold (\<lambda>r. bt_push (f r) (g r)) rs m) k =
     (case filter (\<lambda>r. f r = k) rs of
        [] \<Rightarrow> map_of m k
      | q # qs \<Rightarrow> Some ((case map_of m k of None \<Rightarrow> [] | Some vs \<Rightarrow> vs) @ map g (q # qs)))"
  by (induction rs arbitrary: m) (auto simp: map_of_bt_push split: list.splits option.splits)

lemma fold_bt_push_sorted: "bt_sorted (fold (\<lambda>r. bt_push (f r) (g r)) rs [])"
  by (rule fold_invariant_set [where P = bt_sorted]) (simp_all add: bt_push_sorted)

lemma fold_bt_push_entries:
  "(k, vs) \<in> set (fold (\<lambda>r. bt_push (f r) (g r)) rs []) \<longleftrightarrow>
     vs = map g (filter (\<lambda>r. f r = k) rs) \<and> vs \<noteq> []"
  by (auto simp: bt_entries_get [OF fold_bt_push_sorted] fold_bt_push_get split: list.splits)

lemma by_vm_sorted: "bt_sorted (by_vm_of requests)"
  using fold_bt_push_sorted [of sr_vm "\<lambda>r. r" requests] by (simp add: by_vm_of_def)

lemma by_vm_entries:
  "(vm, rs) \<in> set (by_vm_of requests) \<longleftrightarrow> rs = filter (\<lambda>r. sr_vm r = vm) requests \<and> rs \<noteq> []"
  using fold_bt_push_entries [of vm rs sr_vm "\<lambda>r. r" requests] by (simp add: by_vm_of_def)

section \<open>The three passes\<close>

definition granted_slot :: "slot_state \<Rightarrow> string \<rightharpoonup> int" where
  "granted_slot st u = (case fst st u of Some (Inr s) \<Rightarrow> Some s | _ \<Rightarrow> None)"

abbreviation slots_in_use :: "slot_state \<Rightarrow> int set" where
  "slots_in_use st \<equiv> dom (snd st)"

text \<open>A step that writes the result of its request, and grants only a slot that is free.\<close>

definition slot_step_ok :: "SlotRequest \<Rightarrow> slot_state \<Rightarrow> slot_state \<Rightarrow> bool" where
  "slot_step_ok r st st' \<longleftrightarrow> st' = st \<or>
     (\<exists>e. st' = ((fst st)(sr_uid r \<mapsto> Inl e), snd st)) \<or>
     (\<exists>s. in_range s \<and> snd st s = None \<and> st' = ((fst st)(sr_uid r \<mapsto> Inr s), (snd st)(s \<mapsto> sr_name r)))"

lemma find_top_slot:
  "find (\<lambda>s. used s = None) (rev [0..USBREDIR_SLOTS - 1]) = Some s \<Longrightarrow> in_range s \<and> used s = None"
  by (auto simp: in_range_def dest!: find_SomeD)

lemma slot_steps_ok:
  "slot_step_ok r st (pin_slot r st)" "slot_step_ok r st (keep_slot r st)" "slot_step_ok r st (top_slot r st)"
  using find_top_slot [of "snd st"]
  by (auto simp: slot_step_ok_def pin_slot_def keep_slot_def top_slot_def Let_def split: option.splits prod.splits)

lemma slot_step_grants:
  assumes "slot_step_ok r st st'"
  shows "(slots_in_use st' = slots_in_use st \<and>
      (granted_slot st' = granted_slot st \<or> granted_slot st' = (granted_slot st)(sr_uid r := None))) \<or>
    (\<exists>s. s \<notin> slots_in_use st \<and> granted_slot st' = (granted_slot st)(sr_uid r \<mapsto> s) \<and>
       slots_in_use st' = insert s (slots_in_use st))"
  using assms unfolding slot_step_ok_def
proof (elim disjE exE conjE)
  fix e assume "st' = ((fst st)(sr_uid r \<mapsto> Inl e), snd st)"
  then have "granted_slot st' = (granted_slot st)(sr_uid r := None)" "slots_in_use st' = slots_in_use st"
    by (auto simp: granted_slot_def fun_eq_iff)
  then show ?thesis by blast
next
  fix s assume "snd st s = None" "st' = ((fst st)(sr_uid r \<mapsto> Inr s), (snd st)(s \<mapsto> sr_name r))"
  then have "s \<notin> slots_in_use st" "granted_slot st' = (granted_slot st)(sr_uid r \<mapsto> s)"
    "slots_in_use st' = insert s (slots_in_use st)"
    by (auto simp: granted_slot_def fun_eq_iff)
  then show ?thesis by blast
qed simp

interpretation pins: grant_pass pin_slot sr_uid granted_slot "\<lambda>st. slots_in_use st"
  by unfold_locales (rule slot_step_grants [OF slot_steps_ok(1)])

interpretation keeps: grant_pass keep_slot sr_uid granted_slot "\<lambda>st. slots_in_use st"
  by unfold_locales (rule slot_step_grants [OF slot_steps_ok(2)])

interpretation tops: grant_pass top_slot sr_uid granted_slot "\<lambda>st. slots_in_use st"
  by unfold_locales (rule slot_step_grants [OF slot_steps_ok(3)])

lemmas slot_exclusive_def = pins.exclusive_def
lemmas slot_backed_def = pins.backed_def

section \<open>Frames\<close>

text \<open>A pass changes the results of its own requests only, and is blind to those of others.\<close>

lemma slot_fold_frame:
  assumes "\<And>r st. slot_step_ok r st (f r st)" and "u \<notin> sr_uid ` set rs"
  shows "fst (fold f rs st) u = fst st u"
  using assms(2)
proof (induction rs arbitrary: st)
  case (Cons r rs)
  have "fst (f r st) u = fst st u"
    using assms(1) [of r st] Cons.prems by (auto simp: slot_step_ok_def)
  with Cons show ?case by simp
qed simp

lemmas pass_defs = pinned_pass_def previous_pass_def top_pass_def

lemma pass_frame:
  assumes "u \<notin> sr_uid ` set rs"
  shows "fst (pinned_pass rs st) u = fst st u" "fst (previous_pass rs st) u = fst st u" "fst (top_pass rs st) u = fst st u"
  unfolding pass_defs using assms by (auto intro!: slot_fold_frame slot_steps_ok)

lemma allocate_vm_frame: "u \<notin> sr_uid ` set rs \<Longrightarrow> allocate_vm rs result u = result u"
  by (simp add: allocate_vm_def allocate_vm_state_def pass_frame)

definition agree :: "string set \<Rightarrow> slot_state \<Rightarrow> slot_state \<Rightarrow> bool" where
  "agree U st st' \<longleftrightarrow> snd st = snd st' \<and> (\<forall>u \<in> U. fst st u = fst st' u)"

lemma steps_agree:
  assumes "agree U st st'"
  shows "agree U (pin_slot r st) (pin_slot r st')" "agree U (keep_slot r st) (keep_slot r st')"
    "agree U (top_slot r st) (top_slot r st')"
  using assms
  by (auto simp: agree_def pin_slot_def keep_slot_def top_slot_def Let_def split: option.splits prod.splits)

lemma fold_agree:
  assumes "\<And>r st st'. agree U st st' \<Longrightarrow> agree U (f r st) (f r st')" and "agree U st st'"
  shows "agree U (fold f rs st) (fold f rs st')"
  using assms(2) by (induction rs arbitrary: st st') (simp_all add: assms(1))

lemma allocate_vm_agree:
  assumes "\<And>r. r \<in> set rs \<Longrightarrow> result (sr_uid r) = result' (sr_uid r)" and "r \<in> set rs"
  shows "allocate_vm rs result (sr_uid r) = allocate_vm rs result' (sr_uid r)"
proof -
  let ?U = "sr_uid ` set rs"
  have top: "agree ?U (top_pass rs st) (top_pass rs st')" if "agree ?U st st'" for st st'
  proof -
    have "filter (\<lambda>r. fst st (sr_uid r) = None) rs = filter (\<lambda>r. fst st' (sr_uid r) = None) rs"
      using that by (auto simp: agree_def intro!: filter_cong)
    then show ?thesis unfolding top_pass_def using that by (auto intro: fold_agree steps_agree)
  qed
  have "agree ?U (result, Map.empty) (result', Map.empty)" using assms(1) by (auto simp: agree_def)
  then have "agree ?U (allocate_vm_state rs result) (allocate_vm_state rs result')"
    unfolding allocate_vm_state_def pinned_pass_def previous_pass_def by (intro top fold_agree steps_agree)
  with assms(2) show ?thesis by (simp add: agree_def allocate_vm_def)
qed

section \<open>From one VM to all\<close>

lemma fold_groups_frame:
  "u \<notin> (\<Union>g \<in> set groups. sr_uid ` set (snd g)) \<Longrightarrow> fold (\<lambda>(_, rs). allocate_vm rs) groups acc u = acc u"
  by (induction groups arbitrary: acc) (auto simp: allocate_vm_frame)

lemma allocate_slots_of_vm:
  assumes "distinct (map sr_uid requests)" and r: "r \<in> set requests"
  shows "allocate_slots requests (sr_uid r) = allocate_vm (filter (\<lambda>q. sr_vm q = sr_vm r) requests) Map.empty (sr_uid r)"
proof -
  let ?rs = "filter (\<lambda>q. sr_vm q = sr_vm r) requests"
  have "(sr_vm r, ?rs) \<in> set (by_vm_of requests)" using r by (auto simp: by_vm_entries filter_empty_conv)
  then obtain us vs where groups: "by_vm_of requests = us @ (sr_vm r, ?rs) # vs" by (meson split_list)
  have keys: "sr_vm r \<notin> fst ` set us \<union> fst ` set vs"
    using bt_sorted_distinct [OF by_vm_sorted [of requests]] groups by auto
  have other: "sr_uid q \<notin> (\<Union>g \<in> set (us @ vs). sr_uid ` set (snd g))" if q: "q \<in> set ?rs" for q
  proof
    assume "sr_uid q \<in> (\<Union>g \<in> set (us @ vs). sr_uid ` set (snd g))"
    then obtain g q' where g: "g \<in> set (us @ vs)" and q': "q' \<in> set (snd g)" "sr_uid q' = sr_uid q"
      by fastforce
    obtain vm rs where vm: "g = (vm, rs)" by (cases g)
    have "(vm, rs) \<in> set (by_vm_of requests)" using groups g vm by auto
    then have "q' \<in> set requests" "sr_vm q' = vm" using q' vm by (auto simp: by_vm_entries)
    moreover have "vm \<noteq> sr_vm r" using keys g vm by (auto simp: rev_image_eqI)
    moreover have "inj_on sr_uid (set requests)" using assms(1) by (simp add: distinct_map)
    ultimately show False using q q' by (auto dest: inj_onD)
  qed
  have "allocate_slots requests (sr_uid r) =
      allocate_vm ?rs (fold (\<lambda>(_, rs). allocate_vm rs) us Map.empty) (sr_uid r)"
    unfolding allocate_slots_def groups using other [of r] r by (simp add: fold_groups_frame)
  also have "\<dots> = allocate_vm ?rs Map.empty (sr_uid r)"
  proof (rule allocate_vm_agree)
    show "fold (\<lambda>(_, rs). allocate_vm rs) us Map.empty (sr_uid q) = None" if "q \<in> set ?rs" for q
      using other [OF that] by (subst fold_groups_frame) auto
  qed (use r in simp)
  finally show ?thesis .
qed

section \<open>One VM\<close>

abbreviation vm_start :: slot_state where
  "vm_start \<equiv> (Map.empty, Map.empty)"

abbreviation pinned_state :: "SlotRequest list \<Rightarrow> slot_state" where
  "pinned_state rs \<equiv> pinned_pass rs vm_start"

abbreviation kept_state :: "SlotRequest list \<Rightarrow> slot_state" where
  "kept_state rs \<equiv> previous_pass rs (pinned_state rs)"

lemma allocate_vm_state_passes: "allocate_vm_state rs Map.empty = top_pass rs (kept_state rs)"
  by (simp add: allocate_vm_state_def)

definition slots_ok :: "slot_state \<Rightarrow> bool" where
  "slots_ok st \<longleftrightarrow> (\<forall>u s. fst st u = Some (Inr s) \<longrightarrow> in_range s)"

lemma slot_step_slots_ok: "slot_step_ok r st st' \<Longrightarrow> slots_ok st \<Longrightarrow> slots_ok st'"
  by (auto simp: slot_step_ok_def slots_ok_def split: if_splits)

lemma slots_ok_passes:
  "slots_ok st \<Longrightarrow> slots_ok (pinned_pass rs st)" "slots_ok st \<Longrightarrow> slots_ok (previous_pass rs st)"
  "slots_ok st \<Longrightarrow> slots_ok (top_pass rs st)"
  unfolding pass_defs by (auto intro!: fold_invariant_set [where P = slots_ok] intro: slot_step_slots_ok slot_steps_ok)

lemma allocate_vm_in_range:
  "(\<And>u s. result u = Some (Inr s) \<Longrightarrow> in_range s) \<Longrightarrow> allocate_vm rs result u = Some (Inr s) \<Longrightarrow> in_range s"
  using slots_ok_passes [of _ rs] unfolding allocate_vm_def allocate_vm_state_def
  by (metis fst_conv slots_ok_def)

lemma top_fold_decides: "u \<in> sr_uid ` set rs \<or> fst st u \<noteq> None \<Longrightarrow> fst (fold top_slot rs st) u \<noteq> None"
  by (induction rs arbitrary: st) (auto simp: top_slot_def Let_def split: option.splits prod.splits)

lemma allocate_vm_decides: "u \<in> sr_uid ` set rs \<Longrightarrow> allocate_vm rs result u \<noteq> None"
  unfolding allocate_vm_def allocate_vm_state_def top_pass_def by (rule top_fold_decides) auto

lemma slot_fold_decided:
  assumes "\<And>r st. slot_step_ok r st (f r st)" and "fst st u \<noteq> None"
  shows "fst (fold f rs st) u \<noteq> None"
  using assms(2)
proof (induction rs arbitrary: st)
  case (Cons r rs)
  have "fst (f r st) u \<noteq> None" using assms(1) [of r st] Cons.prems by (auto simp: slot_step_ok_def)
  with Cons.IH show ?case by simp
qed simp

lemma allocate_vm_keeps_decided: "result u \<noteq> None \<Longrightarrow> allocate_vm rs result u \<noteq> None"
  unfolding allocate_vm_def allocate_vm_state_def pass_defs
  by (intro slot_fold_decided slot_steps_ok) simp

lemma pinned_state_used:
  "slots_in_use (fold pin_slot rs st) = slots_in_use st \<union> {s. in_range s \<and> (\<exists>q \<in> set rs. sr_pinned q = Some s)}"
  by (induction rs arbitrary: st) (auto simp: pin_slot_def Let_def split: option.splits prod.splits)

lemma kept_used: "slots_in_use (fold keep_slot rs st) \<subseteq> slots_in_use st \<union> {s. \<exists>q \<in> set rs. sr_previous q = Some s}"
proof (induction rs arbitrary: st)
  case (Cons r rs)
  have "slots_in_use (keep_slot r st) \<subseteq> slots_in_use st \<union> {s. sr_previous r = Some s}"
    by (auto simp: keep_slot_def Let_def split: option.splits prod.splits if_splits)
  with Cons.IH [of "keep_slot r st"] show ?case by auto
qed simp

text \<open>The passes after the one that decides a claim leave its result alone.\<close>

lemma top_pass_keeps: "fst st u = Some x \<Longrightarrow> fst (top_pass rs st) u = Some x"
  unfolding top_pass_def by (subst slot_fold_frame [OF slot_steps_ok(3)]) auto

lemma previous_pass_keeps_pinned:
  assumes "distinct (map sr_uid rs)" "r \<in> set rs" "sr_pinned r \<noteq> None"
  shows "fst (previous_pass rs st) (sr_uid r) = fst st (sr_uid r)"
  unfolding previous_pass_def
  by (rule slot_fold_frame [OF slot_steps_ok(2)]) (simp only: key_in_filter [OF assms(1,2)] assms(3) not_True_eq_False simp_thms)

lemma allocate_vm_pinned:
  assumes "distinct (map sr_uid rs)" and rs: "rs = us @ r # vs" and slot: "sr_pinned r = Some s"
  shows "if in_range s \<and> (\<forall>q \<in> set us. sr_pinned q \<noteq> Some s)
    then allocate_vm rs Map.empty (sr_uid r) = Some (Inr s)
    else \<exists>e. allocate_vm rs Map.empty (sr_uid r) = Some (Inl e)"
proof -
  let ?st = "fold pin_slot us vm_start"
  have frame: "sr_uid r \<notin> sr_uid ` set vs" using assms(1) rs by auto
  have "fst (pinned_state rs) (sr_uid r) = fst (pin_slot r ?st) (sr_uid r)"
    by (simp add: pinned_pass_def rs slot_fold_frame [OF slot_steps_ok(1) frame])
  moreover have "\<exists>x. fst (pin_slot r ?st) (sr_uid r) = Some x \<and>
      (if in_range s \<and> (\<forall>q \<in> set us. sr_pinned q \<noteq> Some s) then x = Inr s else \<exists>e. x = Inl e)"
  proof -
    have "s \<in> slots_in_use ?st \<longleftrightarrow> in_range s \<and> (\<exists>q \<in> set us. sr_pinned q = Some s)"
      by (simp add: pinned_state_used)
    then show ?thesis
      by (cases ?st) (auto simp: pin_slot_def slot Let_def split: option.splits)
  qed
  ultimately obtain x where x: "fst (pinned_state rs) (sr_uid r) = Some x"
    and cases: "if in_range s \<and> (\<forall>q \<in> set us. sr_pinned q \<noteq> Some s) then x = Inr s else \<exists>e. x = Inl e" by metis
  have "fst (kept_state rs) (sr_uid r) = Some x"
    using x by (subst previous_pass_keeps_pinned [OF assms(1)]) (auto simp: rs slot)
  then have "allocate_vm rs Map.empty (sr_uid r) = Some x"
    unfolding allocate_vm_def allocate_vm_state_passes by (rule top_pass_keeps)
  with cases show ?thesis by (auto split: if_splits)
qed

lemma allocate_vm_previous:
  assumes "distinct (map sr_uid rs)" and rs: "rs = us @ r # vs" and slot: "sr_pinned r = None" "sr_previous r = Some s"
    and free: "in_range s" "\<forall>q \<in> set rs. sr_pinned q \<noteq> Some s"
      "\<forall>q \<in> set us. sr_pinned q = None \<longrightarrow> sr_previous q \<noteq> Some s"
  shows "allocate_vm rs Map.empty (sr_uid r) = Some (Inr s)"
proof -
  let ?U = "filter (\<lambda>r. sr_pinned r = None)"
  let ?st = "fold keep_slot (?U us) (pinned_state rs)"
  have "s \<notin> slots_in_use (pinned_state rs)"
    using free(2) by (auto simp: pinned_pass_def pinned_state_used)
  then have "s \<notin> slots_in_use ?st"
    using kept_used [of "?U us" "pinned_state rs"] free(3) by auto
  then have "fst (keep_slot r ?st) (sr_uid r) = Some (Inr s)"
    using free(1) slot by (cases ?st) (auto simp: keep_slot_def)
  moreover have "sr_uid r \<notin> sr_uid ` set (?U vs)" using assms(1) rs by auto
  ultimately have "fst (kept_state rs) (sr_uid r) = Some (Inr s)"
    using slot(1) by (simp add: rs previous_pass_def slot_fold_frame [OF slot_steps_ok(2)])
  then show ?thesis unfolding allocate_vm_def allocate_vm_state_passes by (rule top_pass_keeps)
qed

lemma allocate_vm_exclusive: "pins.exclusive (allocate_vm_state rs Map.empty)"
proof -
  have "pins.exclusive vm_start" by (simp add: pins.exclusive_def granted_slot_def)
  then show ?thesis
    unfolding allocate_vm_state_def pass_defs by (intro pins.exclusive_fold keeps.exclusive_fold tops.exclusive_fold)
qed

lemma allocate_vm_backed:
  assumes "distinct (map sr_uid rs)"
  shows "pins.backed (kept_state rs)" and "pins.backed (allocate_vm_state rs Map.empty)"
proof -
  have "pins.backed (pinned_state rs)"
    unfolding pinned_pass_def
    by (rule pins.backed_fold) (use assms in \<open>auto simp: pins.backed_def granted_slot_def ran_def\<close>)
  moreover have "granted_slot (pinned_state rs) (sr_uid r) = None" if "r \<in> set rs" "sr_pinned r = None" for r
  proof -
    have "fold pin_slot rs st = fold pin_slot (filter (\<lambda>r. sr_pinned r \<noteq> None) rs) st" for st
      by (induction rs arbitrary: st) (auto simp: pin_slot_def)
    moreover have "sr_uid r \<notin> sr_uid ` set (filter (\<lambda>r. sr_pinned r \<noteq> None) rs)"
      by (simp only: key_in_filter [OF assms that(1)] that(2) simp_thms)
    ultimately show ?thesis
      by (simp add: pinned_pass_def granted_slot_def slot_fold_frame [OF slot_steps_ok(1)])
  qed
  ultimately show kept: "pins.backed (kept_state rs)"
    unfolding previous_pass_def
    by (intro keeps.backed_fold) (use assms in \<open>auto simp: distinct_map_filter\<close>)
  then show "pins.backed (allocate_vm_state rs Map.empty)"
    unfolding allocate_vm_state_passes top_pass_def
    by (intro tops.backed_fold) (use assms in \<open>auto simp: distinct_map_filter granted_slot_def\<close>)
qed

text \<open>An error of the third pass means that every slot is taken.\<close>

lemma top_fold_exhausted:
  assumes "distinct (map sr_uid rs)" "r \<in> set rs" "fst (fold top_slot rs st) (sr_uid r) = Some (Inl e)" "in_range s"
  shows "s \<in> slots_in_use (fold top_slot rs st)"
proof -
  obtain us vs where rs: "rs = us @ r # vs" using split_list [OF assms(2)] by blast
  let ?st = "fold top_slot us st"
  have "sr_uid r \<notin> sr_uid ` set vs" using assms(1) rs by auto
  then have "fst (top_slot r ?st) (sr_uid r) = Some (Inl e)"
    using assms(3) by (simp add: rs slot_fold_frame [OF slot_steps_ok(3)])
  then have "find (\<lambda>s. snd ?st s = None) (rev [0..USBREDIR_SLOTS - 1]) = None"
    by (cases ?st) (auto simp: top_slot_def split: option.splits)
  then have "s \<in> slots_in_use ?st" using assms(4) by (auto simp: find_None_iff in_range_def)
  then show ?thesis
    using tops.in_use_fold [of ?st "r # vs"] by (auto simp: rs)
qed

lemma keep_fold_no_error: "fst (fold keep_slot rs st) u = Some (Inl e) \<Longrightarrow> fst st u = Some (Inl e)"
proof (induction rs arbitrary: st)
  case (Cons r rs)
  then have "fst (keep_slot r st) u = Some (Inl e)" by simp
  then show ?case by (auto simp: keep_slot_def Let_def split: option.splits prod.splits if_splits)
qed simp

lemma pin_fold_unpinned:
  "(\<And>q. q \<in> set rs \<Longrightarrow> sr_uid q = u \<Longrightarrow> sr_pinned q = None) \<Longrightarrow> fst (fold pin_slot rs st) u = fst st u"
proof (induction rs arbitrary: st)
  case (Cons r rs)
  have "fst (pin_slot r st) u = fst st u"
    using Cons.prems [of r] by (cases "sr_uid r = u") (auto simp: pin_slot_def Let_def split: option.splits prod.splits)
  with Cons show ?case by simp
qed simp

lemma allocate_vm_exhausted:
  assumes "distinct (map sr_uid rs)" and r: "r \<in> set rs" "sr_pinned r = None"
    and err: "allocate_vm rs Map.empty (sr_uid r) = Some (Inl e)" and "in_range s"
  shows "\<exists>q \<in> set rs. allocate_vm rs Map.empty (sr_uid q) = Some (Inr s)"
proof -
  let ?st = "allocate_vm_state rs Map.empty"
  let ?un = "filter (\<lambda>r. fst (kept_state rs) (sr_uid r) = None) rs"
  have "fst (pinned_state rs) (sr_uid r) = None"
    unfolding pinned_pass_def by (subst pin_fold_unpinned) (use r key_unique [OF assms(1) _ r(1)] in auto)
  then have "fst (kept_state rs) (sr_uid r) \<noteq> Some (Inl e)"
    using keep_fold_no_error [of "filter (\<lambda>r. sr_pinned r = None) rs" "pinned_state rs" "sr_uid r" e]
    by (auto simp: previous_pass_def)
  then have "r \<in> set ?un"
    using err r top_pass_keeps [of "kept_state rs" "sr_uid r" _ rs]
    by (cases "fst (kept_state rs) (sr_uid r)") (auto simp: allocate_vm_def allocate_vm_state_passes)
  then have "s \<in> slots_in_use ?st"
    using err assms(1,5) unfolding allocate_vm_def allocate_vm_state_passes top_pass_def
    by (intro top_fold_exhausted [where r = r and e = e]) (auto simp: distinct_map_filter)
  then obtain u where u: "granted_slot ?st u = Some s"
    using allocate_vm_backed(2) [OF assms(1)] by (auto simp: pins.backed_def ran_def)
  then have "u \<in> sr_uid ` set rs"
    using allocate_vm_frame [of u rs Map.empty] by (auto simp: granted_slot_def allocate_vm_def split: option.splits)
  with u show ?thesis by (auto simp: granted_slot_def allocate_vm_def split: option.splits sum.splits)
qed

section \<open>Properties\<close>

lemma allocate_slots_dom: "dom (allocate_slots requests) = sr_uid ` set requests"
proof (intro set_eqI iffI)
  let ?groups = "by_vm_of requests"
  have uids: "(\<Union>g \<in> set ?groups. sr_uid ` set (snd g)) = sr_uid ` set requests"
  proof -
    have "r \<in> set (snd (sr_vm r, filter (\<lambda>q. sr_vm q = sr_vm r) requests)) \<and>
        (sr_vm r, filter (\<lambda>q. sr_vm q = sr_vm r) requests) \<in> set ?groups" if "r \<in> set requests" for r
      using that by (auto simp: by_vm_entries filter_empty_conv)
    moreover have "set (snd g) \<subseteq> set requests" if "g \<in> set ?groups" for g
      using that by_vm_entries [of "fst g" "snd g" requests] by auto
    ultimately show ?thesis by blast
  qed
  fix u
  show "u \<in> sr_uid ` set requests" if "u \<in> dom (allocate_slots requests)"
    using that fold_groups_frame [of u ?groups Map.empty] uids by (auto simp: allocate_slots_def)
  have "fold (\<lambda>(_, rs). allocate_vm rs) groups acc u \<noteq> None"
    if "u \<in> (\<Union>g \<in> set groups. sr_uid ` set (snd g)) \<or> acc u \<noteq> None" for groups acc
    using that
  proof (induction groups arbitrary: acc)
    case (Cons g groups)
    have "allocate_vm (snd g) acc u \<noteq> None" if "u \<in> sr_uid ` set (snd g) \<or> acc u \<noteq> None"
      using that allocate_vm_decides allocate_vm_keeps_decided by blast
    with Cons.prems have "u \<in> (\<Union>g \<in> set groups. sr_uid ` set (snd g)) \<or> allocate_vm (snd g) acc u \<noteq> None" by auto
    then show ?case using Cons.IH by (simp add: case_prod_unfold)
  qed simp
  then show "u \<in> dom (allocate_slots requests)" if "u \<in> sr_uid ` set requests"
    using that uids unfolding allocate_slots_def by blast
qed

lemma allocate_slots_in_range: "allocate_slots requests u = Some (Inr s) \<Longrightarrow> in_range s"
proof -
  let ?P = "\<lambda>result. \<forall>u s. result u = Some (Inr s) \<longrightarrow> in_range s"
  have "?P (allocate_slots requests)"
    unfolding allocate_slots_def
    by (rule fold_invariant_set [where P = ?P]) (auto intro: allocate_vm_in_range)
  then show "allocate_slots requests u = Some (Inr s) \<Longrightarrow> in_range s" by blast
qed

text \<open>
  \<open>allocate_slots\<close> is total and stays in range: it decides exactly the claims
  that were passed in, each with a slot or an error, and every slot it hands out is one of the
  sockets 0 to 3 that KubeVirt creates.
\<close>

theorem slots_total_and_in_range:
  "dom (allocate_slots requests) = sr_uid ` set requests \<and>
   {s. \<exists>u. allocate_slots requests u = Some (Inr s)} \<subseteq> {0..3}"
  using allocate_slots_dom [of requests] allocate_slots_in_range [of requests]
  by (fastforce simp: in_range_def USBREDIR_SLOTS_def)

text \<open>
  Property C13: two claims of one VM never share a slot.
\<close>

theorem slots_exclusive_per_vm:
  assumes "distinct (map sr_uid requests)" and "q \<in> set requests" and "r \<in> set requests" and "sr_vm q = sr_vm r"
    and "allocate_slots requests (sr_uid q) = Some (Inr s)" and "allocate_slots requests (sr_uid r) = Some (Inr s)"
  shows "q = r"
proof -
  let ?rs = "filter (\<lambda>q. sr_vm q = sr_vm r) requests"
  have "granted_slot (allocate_vm_state ?rs Map.empty) (sr_uid x) = Some s" if "x \<in> {q, r}" for x
    using that assms allocate_slots_of_vm [OF assms(1), of x] by (auto simp: granted_slot_def allocate_vm_def)
  then have "sr_uid q = sr_uid r"
    using allocate_vm_exclusive [of ?rs] unfolding slot_exclusive_def by blast
  with assms(1-3) show ?thesis by (metis key_unique)
qed

text \<open>
  Pinned slots win: a claim that pins a slot gets exactly that slot if it is in
  range and no older claim of the VM pins it, whatever other claims had before, and an error
  otherwise; it never gets another slot.
\<close>

theorem pinned_slots_win:
  assumes "distinct (map sr_uid (older @ r # younger))" and "sr_pinned r = Some s"
  shows "if in_range s \<and> (\<forall>q \<in> set older. sr_vm q = sr_vm r \<longrightarrow> sr_pinned q \<noteq> Some s)
    then allocate_slots (older @ r # younger) (sr_uid r) = Some (Inr s)
    else \<exists>e. allocate_slots (older @ r # younger) (sr_uid r) = Some (Inl e)"
proof -
  let ?rs = "filter (\<lambda>q. sr_vm q = sr_vm r) (older @ r # younger)"
  have "distinct (map sr_uid ?rs)" using assms(1) by (rule distinct_map_filter)
  moreover have "?rs = filter (\<lambda>q. sr_vm q = sr_vm r) older @ r # filter (\<lambda>q. sr_vm q = sr_vm r) younger" by simp
  ultimately have "if in_range s \<and> (\<forall>q \<in> set (filter (\<lambda>q. sr_vm q = sr_vm r) older). sr_pinned q \<noteq> Some s)
      then allocate_vm ?rs Map.empty (sr_uid r) = Some (Inr s)
      else \<exists>e. allocate_vm ?rs Map.empty (sr_uid r) = Some (Inl e)"
    using assms(2) by (rule allocate_vm_pinned)
  moreover have "allocate_slots (older @ r # younger) (sr_uid r) = allocate_vm ?rs Map.empty (sr_uid r)"
    by (rule allocate_slots_of_vm [OF assms(1)]) simp
  ultimately show ?thesis by (simp only: set_filter mem_Collect_eq Ball_def imp_conjL)
qed

text \<open>
  Slots are stable: a claim without pin keeps the slot it had, unless another claim
  of its VM pins that slot or an older unpinned claim of its VM had it too.
\<close>

theorem previous_slots_are_kept:
  assumes "distinct (map sr_uid (older @ r # younger))" and "sr_pinned r = None" and "sr_previous r = Some s"
    and "in_range s" and "\<forall>q \<in> set (older @ younger). sr_vm q = sr_vm r \<longrightarrow> sr_pinned q \<noteq> Some s"
    and "\<forall>q \<in> set older. sr_vm q = sr_vm r \<longrightarrow> sr_pinned q = None \<longrightarrow> sr_previous q \<noteq> Some s"
  shows "allocate_slots (older @ r # younger) (sr_uid r) = Some (Inr s)"
proof -
  let ?rs = "filter (\<lambda>q. sr_vm q = sr_vm r) (older @ r # younger)"
  have d: "distinct (map sr_uid ?rs)" using assms(1) by (rule distinct_map_filter)
  have rs: "?rs = filter (\<lambda>q. sr_vm q = sr_vm r) older @ r # filter (\<lambda>q. sr_vm q = sr_vm r) younger" by simp
  have "allocate_vm ?rs Map.empty (sr_uid r) = Some (Inr s)"
    by (rule allocate_vm_previous [OF d rs assms(2,3,4)]) (use assms in auto)
  with allocate_slots_of_vm [OF assms(1), of r] show ?thesis by simp
qed

text \<open>
  A claim without pin is refused only when the VM's slots are exhausted: every one
  of the slots is then held by another claim of the same VM.
\<close>

theorem unpinned_refused_only_when_exhausted:
  assumes "distinct (map sr_uid requests)" and "r \<in> set requests" and "sr_pinned r = None"
    and "allocate_slots requests (sr_uid r) = Some (Inl e)" and "in_range s"
  shows "\<exists>q \<in> set requests. sr_vm q = sr_vm r \<and> allocate_slots requests (sr_uid q) = Some (Inr s)"
proof -
  let ?rs = "filter (\<lambda>q. sr_vm q = sr_vm r) requests"
  have d: "distinct (map sr_uid ?rs)" using assms(1) by (rule distinct_map_filter)
  obtain q where "q \<in> set ?rs" "allocate_vm ?rs Map.empty (sr_uid q) = Some (Inr s)"
    using allocate_vm_exhausted [OF d, of r e s] assms allocate_slots_of_vm [OF assms(1,2)] by auto
  with allocate_slots_of_vm [OF assms(1), of q] show ?thesis by auto
qed

section \<open>Witnesses\<close>

definition slot_request :: "string \<Rightarrow> int option \<Rightarrow> int option \<Rightarrow> SlotRequest" where
  "slot_request u pin prev = \<lparr>sr_uid = u, sr_name = u, sr_vm = (''ns'', ''vm''), sr_pinned = pin, sr_previous = prev\<rparr>"

definition five_requests :: "SlotRequest list" where
  "five_requests = [slot_request ''a'' None (Some 1), slot_request ''b'' (Some 1) None, slot_request ''c'' None (Some 2),
     slot_request ''d'' None None, slot_request ''e'' None None]"

lemmas request_simps = five_requests_def slot_request_def in_range_def USBREDIR_SLOTS_def

lemma five_slots:
  "map (\<lambda>r. allocate_slots five_requests (sr_uid r)) five_requests =
     [Some (Inr 3), Some (Inr 1), Some (Inr 2), Some (Inr 0), Some (Inl ''all 4 usbredir slots of the VM are in use'')]"
  by code_simp

theorem slots_exclusive_per_vm_witness:
  "allocate_slots five_requests ''c'' = Some (Inr 2) \<and> allocate_slots five_requests ''a'' \<noteq> Some (Inr 2)"
proof -
  have c: "allocate_slots five_requests ''c'' = Some (Inr 2)" by code_simp
  moreover have "allocate_slots five_requests ''a'' \<noteq> Some (Inr 2)"
    using slots_exclusive_per_vm [of five_requests "slot_request ''a'' None (Some 1)" "slot_request ''c'' None (Some 2)" 2] c
    by (auto simp: request_simps)
  ultimately show ?thesis by blast
qed

theorem pinned_slots_win_witness:
  "allocate_slots five_requests ''b'' = Some (Inr 1) \<and> sr_previous (hd five_requests) = Some 1"
  using pinned_slots_win [of "[slot_request ''a'' None (Some 1)]" "slot_request ''b'' (Some 1) None"
      "[slot_request ''c'' None (Some 2), slot_request ''d'' None None, slot_request ''e'' None None]" 1]
  by (simp add: request_simps)

theorem previous_slots_are_kept_witness: "allocate_slots five_requests ''c'' = Some (Inr 2)"
  using previous_slots_are_kept [of "[slot_request ''a'' None (Some 1), slot_request ''b'' (Some 1) None]"
      "slot_request ''c'' None (Some 2)" "[slot_request ''d'' None None, slot_request ''e'' None None]" 2]
  by (simp add: request_simps)

theorem unpinned_refused_only_when_exhausted_witness:
  "\<exists>q \<in> set five_requests. sr_vm q = (''ns'', ''vm'') \<and> allocate_slots five_requests (sr_uid q) = Some (Inr 0)"
proof -
  have e: "allocate_slots five_requests ''e'' = Some (Inl ''all 4 usbredir slots of the VM are in use'')" by code_simp
  show ?thesis
    using unpinned_refused_only_when_exhausted [of five_requests "slot_request ''e'' None None" _ 0] e
    by (simp add: request_simps)
qed

end
