(* ===== verification/Api.thy ===== *)
theory Api
  imports Slots
begin

text \<open>
  The Kubernetes API as the controller sees it. The cluster is outside the program, so the server is
  a parameter: for every kind of call, a function from the calls made so far to the reply. No
  theorem assumes more of it than the contracts at the end state: a merge patch with a
  resource version succeeds only on the object of that version and returns the merged object.
  The controller's mutable state is the log of its calls, its working copy of the devices
  (\<open>devices\<close> in \<open>reconcile_all\<close>) and the instances it resumed (\<open>Ctx::released\<close>).
\<close>

section \<open>Merge patches\<close>

text \<open>A member of a merge patch is absent, or carries a value; null (\<^const>\<open>None\<close>) removes the member.\<close>

datatype 'a upd = Keep | Put 'a

fun put_into :: "'a upd \<Rightarrow> 'a \<Rightarrow> 'a" where
  "put_into Keep old = old"
| "put_into (Put v) old = v"

record DeviceStatusPatch =
  dp_phase :: "DevicePhase option upd"
  dp_node :: "string option upd"
  dp_port_path :: "string option upd"
  dp_bus_num :: "u32 option upd"
  dp_dev_num :: "u32 option upd"
  dp_speed :: "string option upd"
  dp_device_class :: "string option upd"
  dp_interface_classes :: "string list option upd"
  dp_exporter :: "ExporterEndpoint option upd"
  dp_last_seen :: "string option upd"
  dp_message :: "string option upd"
  dp_attached_to :: "Attachment option upd"

definition no_patch :: DeviceStatusPatch where
  "no_patch =
     \<lparr>dp_phase = Keep, dp_node = Keep, dp_port_path = Keep, dp_bus_num = Keep, dp_dev_num = Keep, dp_speed = Keep,
      dp_device_class = Keep, dp_interface_classes = Keep, dp_exporter = Keep, dp_last_seen = Keep,
      dp_message = Keep, dp_attached_to = Keep\<rparr>"

text \<open>
  Merging into a status. An exporter endpoint and an attachment serialise all their members, so
  merging one into another replaces it.
\<close>

definition merge_status :: "DeviceStatusPatch \<Rightarrow> UsbDeviceStatus \<Rightarrow> UsbDeviceStatus" where
  "merge_status p s =
     \<lparr>st_phase = put_into (dp_phase p) (st_phase s), st_node = put_into (dp_node p) (st_node s),
      st_port_path = put_into (dp_port_path p) (st_port_path s), st_bus_num = put_into (dp_bus_num p) (st_bus_num s),
      st_dev_num = put_into (dp_dev_num p) (st_dev_num s), st_speed = put_into (dp_speed p) (st_speed s),
      st_device_class = put_into (dp_device_class p) (st_device_class s),
      st_interface_classes = put_into (dp_interface_classes p) (st_interface_classes s),
      st_exporter = put_into (dp_exporter p) (st_exporter s), st_last_seen = put_into (dp_last_seen p) (st_last_seen s),
      st_message = put_into (dp_message p) (st_message s), st_attached_to = put_into (dp_attached_to p) (st_attached_to s)\<rparr>"

text \<open>
  A boot-hold report skips its optional members when they are unset, so merging a report into an
  older one keeps the older instance uid and message in their place.
\<close>

definition merge_boot_hold :: "BootHoldStatus option upd \<Rightarrow> BootHoldStatus option \<Rightarrow> BootHoldStatus option" where
  "merge_boot_hold p old =
     (case p of
        Keep \<Rightarrow> old
      | Put None \<Rightarrow> None
      | Put (Some b) \<Rightarrow>
          (case old of
             None \<Rightarrow> Some b
           | Some o1 \<Rightarrow>
               Some (b\<lparr>bh_vmi_uid := (if bh_vmi_uid b = None then bh_vmi_uid o1 else bh_vmi_uid b),
                       bh_message := (if bh_message b = None then bh_message o1 else bh_message b)\<rparr>)))"

text \<open>The claim status members the controller writes. The phase and the message are never null.\<close>

record ClaimDesired =
  cd_phase :: ClaimPhase
  cd_device_name :: "string option"
  cd_source_node :: "string option"
  cd_slot :: "int option"
  cd_message :: string
  cd_observed_generation :: "int option"

record ClaimStatusPatch =
  cp_desired :: "ClaimDesired upd"
  cp_boot_hold :: "BootHoldStatus option upd"

definition merge_claim_status :: "ClaimStatusPatch \<Rightarrow> UsbDeviceClaimStatus \<Rightarrow> UsbDeviceClaimStatus" where
  "merge_claim_status p s =
     (case cp_desired p of
        Keep \<Rightarrow> s
      | Put d \<Rightarrow>
          s\<lparr>ucs_phase := Some (cd_phase d), ucs_device_name := cd_device_name d, ucs_source_node := cd_source_node d,
            ucs_slot := cd_slot d, ucs_message := Some (cd_message d), ucs_observed_generation := cd_observed_generation d\<rparr>)
     \<lparr>ucs_boot_hold := merge_boot_hold (cp_boot_hold p) (ucs_boot_hold s)\<rparr>"

section \<open>Calls and state\<close>

datatype ApiCall =
    PatchDeviceStatus (pd_name: string) (pd_version: "string option") (pd_patch: DeviceStatusPatch)
  | PatchClaimOwners string string "string option" "OwnerReference list"
  | PatchClaimStatus (pcs_namespace: string) (pcs_name: string) (pcs_patch: ClaimStatusPatch)
  | Unpause (up_namespace: string) (up_name: string)

record Server =
  sv_patch_device :: "ApiCall list \<Rightarrow> string \<Rightarrow> string option \<Rightarrow> DeviceStatusPatch \<Rightarrow> KubeError + UsbDevice"
  sv_patch_owners :: "ApiCall list \<Rightarrow> string \<Rightarrow> string \<Rightarrow> string option \<Rightarrow> OwnerReference list \<Rightarrow> KubeError + unit"
  sv_patch_claim :: "ApiCall list \<Rightarrow> string \<Rightarrow> string \<Rightarrow> ClaimStatusPatch \<Rightarrow> KubeError + unit"
  sv_unpause :: "ApiCall list \<Rightarrow> string \<Rightarrow> string \<Rightarrow> KubeError + unit"

record CState =
  c_log :: "ApiCall list"
  c_devices :: "(string, UsbDevice) btree"
  c_released :: "string \<rightharpoonup> string"

text \<open>An operation fails with an error of the API, or panics.\<close>

datatype RunError = KubeErr KubeError | Panic string

type_synonym 'a run = "CState \<Rightarrow> (RunError + 'a) \<times> CState"

definition return :: "'a \<Rightarrow> 'a run" where
  "return v st = (Inr v, st)"

definition fail :: "RunError \<Rightarrow> 'a run" where
  "fail e st = (Inl e, st)"

text \<open>Sequencing, with the early return of the \<open>?\<close> operator.\<close>

definition and_then :: "'a run \<Rightarrow> ('a \<Rightarrow> 'b run) \<Rightarrow> 'b run" where
  "and_then m f st = (case m st of (Inl e, st') \<Rightarrow> (Inl e, st') | (Inr v, st') \<Rightarrow> f v st')"

definition record_call :: "ApiCall \<Rightarrow> CState \<Rightarrow> CState" where
  "record_call call st = st\<lparr>c_log := c_log st @ [call]\<rparr>"

definition set_device :: "string \<Rightarrow> UsbDevice \<Rightarrow> CState \<Rightarrow> CState" where
  "set_device name d st = st\<lparr>c_devices := bt_insert name d (c_devices st)\<rparr>"

section \<open>The calls\<close>

definition cas_patch_status :: "Server \<Rightarrow> UsbDevice \<Rightarrow> DeviceStatusPatch \<Rightarrow> UsbDevice option run" where
  "cas_patch_status srv d patch st =
     (let name = device_name_any d;
          version = om_resource_version (ud_metadata d);
          st' = record_call (PatchDeviceStatus name version patch) st
      in case sv_patch_device srv (c_log st) name version patch of
           Inr updated \<Rightarrow> (Inr (Some updated), st')
         | Inl err \<Rightarrow> if is_conflict err \<or> is_not_found err then (Inr None, st') else (Inl (KubeErr err), st'))"

definition patch_owners :: "Server \<Rightarrow> string \<Rightarrow> string \<Rightarrow> string option \<Rightarrow> OwnerReference list \<Rightarrow> (KubeError + unit) run" where
  "patch_owners srv namespace name version refs st =
     (Inr (sv_patch_owners srv (c_log st) namespace name version refs),
      record_call (PatchClaimOwners namespace name version refs) st)"

definition patch_claim_status :: "Server \<Rightarrow> string \<Rightarrow> string \<Rightarrow> ClaimStatusPatch \<Rightarrow> (KubeError + unit) run" where
  "patch_claim_status srv namespace name patch st =
     (Inr (sv_patch_claim srv (c_log st) namespace name patch),
      record_call (PatchClaimStatus namespace name patch) st)"

definition unpause :: "Server \<Rightarrow> string \<Rightarrow> string \<Rightarrow> (KubeError + unit) run" where
  "unpause srv namespace name st =
     (Inr (sv_unpause srv (c_log st) namespace name), record_call (Unpause namespace name) st)"

section \<open>Lemmas\<close>

lemma c_simps [simp]:
  "c_devices (record_call call st) = c_devices st" "c_released (record_call call st) = c_released st"
  "c_log (record_call call st) = c_log st @ [call]"
  "c_log (set_device name d st) = c_log st" "c_released (set_device name d st) = c_released st"
  "c_devices (set_device name d st) = bt_insert name d (c_devices st)"
  by (simp_all add: record_call_def set_device_def)

lemma and_then_Inr: "m st = (Inr v, st') \<Longrightarrow> and_then m f st = f v st'"
  by (simp add: and_then_def)

lemma and_then_Inl: "m st = (Inl e, st') \<Longrightarrow> and_then m f st = (Inl e, st')"
  by (simp add: and_then_def)

lemma and_then_return [simp]: "and_then (return v) f = f v"
  by (simp add: and_then_def return_def fun_eq_iff)

lemma cas_patch_status_log [log_simps]:
  "snd (cas_patch_status srv d patch st) =
     record_call (PatchDeviceStatus (device_name_any d) (om_resource_version (ud_metadata d)) patch) st"
  by (auto simp: cas_patch_status_def Let_def split: sum.splits)

lemma call_logs [log_simps]:
  "snd (patch_owners srv ns n v refs st) = record_call (PatchClaimOwners ns n v refs) st"
  "snd (patch_claim_status srv ns n p st) = record_call (PatchClaimStatus ns n p) st"
  "snd (unpause srv ns n st) = record_call (Unpause ns n) st"
  by (simp_all add: patch_owners_def patch_claim_status_def unpause_def)

lemma cas_patch_status_Some:
  "cas_patch_status srv d patch st = (Inr (Some u), st') \<Longrightarrow>
   sv_patch_device srv (c_log st) (device_name_any d) (om_resource_version (ud_metadata d)) patch = Inr u \<and>
   st' = record_call (PatchDeviceStatus (device_name_any d) (om_resource_version (ud_metadata d)) patch) st"
  by (auto simp: cas_patch_status_def Let_def split: sum.splits if_splits)

section \<open>What the controller relies on\<close>

text \<open>
  A reply to a device patch is the patched object: it keeps its name and its status members are the merged
  ones of the object the patch was applied to, so the members the patch puts have the values put.
\<close>

definition patch_contract :: "Server \<Rightarrow> bool" where
  "patch_contract srv \<longleftrightarrow>
     (\<forall>log name version patch d. sv_patch_device srv log name version patch = Inr d \<longrightarrow>
        device_name_any d = name \<and> (\<exists>s. ud_status d = Some (merge_status patch s)))"

text \<open>
  Optimistic concurrency: an object of a given name and version never changes, so there is a function
  \<open>V\<close> from names and versions to objects, and a patch that names a version succeeds only if
  the object is still that one; the reply is the object of its new version.
\<close>

definition genuine :: "(string \<Rightarrow> string \<Rightarrow> UsbDevice) \<Rightarrow> UsbDevice \<Rightarrow> bool" where
  "genuine V d \<longleftrightarrow> (\<exists>v. om_resource_version (ud_metadata d) = Some v \<and> d = V (device_name_any d) v)"

definition cas_contract :: "(string \<Rightarrow> string \<Rightarrow> UsbDevice) \<Rightarrow> Server \<Rightarrow> bool" where
  "cas_contract V srv \<longleftrightarrow> patch_contract srv \<and>
     (\<forall>log name v patch d. sv_patch_device srv log name (Some v) patch = Inr d \<longrightarrow>
        genuine V d \<and> ud_status d = Some (merge_status patch (status_ref (V name v))) \<and> ud_spec d = ud_spec (V name v) \<and>
        om_name (ud_metadata d) = om_name (ud_metadata (V name v)))"

lemma patch_contract_reply:
  assumes "patch_contract srv" and "sv_patch_device srv log name version patch = Inr d"
  shows "device_name_any d = name"
    and "dp_attached_to patch = Put a \<Longrightarrow> st_attached_to (status_ref d) = a"
proof -
  from assms obtain s where "device_name_any d = name" "ud_status d = Some (merge_status patch s)"
    unfolding patch_contract_def by blast
  then show "device_name_any d = name" "dp_attached_to patch = Put a \<Longrightarrow> st_attached_to (status_ref d) = a"
    by (simp_all add: status_ref_def merge_status_def)
qed

end
