(* ===== verification/Attacher.thy ===== *)
theory Attacher
  imports Agent Launcher Proto Api
begin

text \<open>
  \<open>src/agent/attacher.rs\<close>: for every claim whose virtual machine runs on this node, a session task that connects
  QEMU's socket to the exporting agent. The definitions follow the file: which sessions are wanted, the loop that starts and stops the
  tasks, the life of a task with its backoff, one connection attempt, QEMU's greeting and the reports to
  the claim. The watch caches are lists of objects; what the network, QEMU, the key file and the API do are arguments.
\<close>

section \<open>The wanted sessions\<close>

record Context =
  ax_config :: AgentConfig
  ax_claims :: "UsbDeviceClaim list"
  ax_devices :: "UsbDevice list"
  ax_vmis :: "DynamicObject list"

record SessionSpec =
  ss_claim :: ClaimRef
  ss_device :: string
  ss_slot :: int
  ss_vmi_uid :: string
  ss_vm_name :: string

definition device_in_store :: "Context \<Rightarrow> string \<Rightarrow> UsbDevice option" where
  "device_in_store ctx name = find (\<lambda>d. device_name_any d = name) (ax_devices ctx)"

definition vmi_in_store :: "Context \<Rightarrow> string \<Rightarrow> string \<Rightarrow> VmiInfo option" where
  "vmi_in_store ctx namespace name =
     Option.bind (find (\<lambda>obj. om_name_any (do_metadata obj) = name \<and> om_namespace (do_metadata obj) = Some namespace) (ax_vmis ctx))
       vmi_from_object"

definition lease_held :: "Context \<Rightarrow> string \<Rightarrow> string \<Rightarrow> bool" where
  "lease_held ctx device_name uid = is_some_and (\<lambda>d. lease_holder d = Some uid) (device_in_store ctx device_name)"

text \<open>The session one claim wants, by the uid of the claim.\<close>

definition desired_session :: "Context \<Rightarrow> UsbDeviceClaim \<Rightarrow> (string \<times> SessionSpec) option" where
  "desired_session ctx claim =
     (case (om_uid (uc_metadata claim), om_namespace (uc_metadata claim)) of
        (Some uid, Some namespace) \<Rightarrow>
          if om_deletion_timestamp (uc_metadata claim) \<noteq> None then None
          else (case uc_status claim of
                 None \<Rightarrow> None
               | Some status \<Rightarrow>
                   (case (ucs_device_name status, ucs_slot status) of
                      (Some device_name, Some slot) \<Rightarrow>
                        (case vmi_in_store ctx namespace (cs_vm_name (uc_spec claim)) of
                           None \<Rightarrow> None
                         | Some vmi \<Rightarrow>
                             if \<not> lease_held ctx device_name uid \<or> \<not> is_running vmi \<or> \<not> vi_client_passthrough vmi \<or>
                                vi_node vmi \<noteq> Some (cfg_node (ax_config ctx))
                             then None
                             else Some (uid,
                               \<lparr>ss_claim = \<lparr>cr_namespace = namespace, cr_name = claim_name_any claim, cr_uid = uid\<rparr>,
                                ss_device = device_name, ss_slot = slot, ss_vmi_uid = vi_uid vmi,
                                ss_vm_name = cs_vm_name (uc_spec claim)\<rparr>))
                    | _ \<Rightarrow> None))
      | _ \<Rightarrow> None)"

definition desired_sessions :: "Context \<Rightarrow> (string, SessionSpec) btree" where
  "desired_sessions ctx = bt_collect (List.map_filter (desired_session ctx) (ax_claims ctx))"

section \<open>Starting and stopping the tasks\<close>

record Running =
  ru_spec :: SessionSpec
  ru_cancel :: nat
  ru_handle :: nat

text \<open>
  The hash maps of the code are maps by claim uid; the order in which it walks them is not specified and only decides how the tasks are
  numbered. Tasks and cancellation tokens are numbered in the order of their creation; \<open>at_spawned\<close> records each task with its
  session, its token and the task it waits for first.
\<close>

record AttacherState =
  at_running :: "(string, Running) btree"
  at_stopping :: "string \<rightharpoonup> nat"
  at_cancelled :: "nat set"
  at_spawned :: "(SessionSpec \<times> nat option) list"

definition attacher_new :: AttacherState where
  "attacher_new = \<lparr>at_running = [], at_stopping = Map.empty, at_cancelled = {}, at_spawned = []\<rparr>"

definition is_stale :: "(string, SessionSpec) btree \<Rightarrow> (nat \<Rightarrow> bool) \<Rightarrow> string \<times> Running \<Rightarrow> bool" where
  "is_stale desired finished e \<longleftrightarrow> map_of desired (fst e) \<noteq> Some (ru_spec (snd e)) \<or> finished (ru_handle (snd e))"

definition stop_session :: "string \<times> Running \<Rightarrow> AttacherState \<Rightarrow> AttacherState" where
  "stop_session e st =
     st\<lparr>at_running := filter (\<lambda>(uid, _). uid \<noteq> fst e) (at_running st),
        at_cancelled := insert (ru_cancel (snd e)) (at_cancelled st),
        at_stopping := (at_stopping st)(fst e \<mapsto> ru_handle (snd e))\<rparr>"

definition start_session :: "string \<times> SessionSpec \<Rightarrow> AttacherState \<Rightarrow> AttacherState" where
  "start_session e st =
     (if map_of (at_running st) (fst e) \<noteq> None then st
      else
        let task = length (at_spawned st);
            previous = at_stopping st (fst e)
        in st\<lparr>at_stopping := (at_stopping st)(fst e := None),
              at_spawned := at_spawned st @ [(snd e, previous)],
              at_running := bt_insert (fst e) \<lparr>ru_spec = snd e, ru_cancel = task, ru_handle = task\<rparr> (at_running st)\<rparr>)"

text \<open>One round of \<open>Attacher::run\<close>; \<open>finished\<close> says which tasks have ended.\<close>

definition attacher_round :: "(string, SessionSpec) btree \<Rightarrow> (nat \<Rightarrow> bool) \<Rightarrow> AttacherState \<Rightarrow> AttacherState" where
  "attacher_round desired finished st =
     (let st1 = st\<lparr>at_stopping := retain (\<lambda>_ handle. \<not> finished handle) (at_stopping st)\<rparr>;
          stale = filter (is_stale desired finished) (at_running st1);
          st2 = fold stop_session stale st1
      in fold start_session desired st2)"

section \<open>Reports\<close>

record Reporter =
  rp_last :: "(ConnectionState \<times> string \<times> bool) option"
  rp_since :: string

definition reporter_new :: "Lib \<Rightarrow> seconds \<Rightarrow> Reporter" where
  "reporter_new L now = \<lparr>rp_last = None, rp_since = rfc3339 L now\<rparr>"

text \<open>
  A report is a merge patch of \<open>status.connection\<close>. Serialising a \<open>ConnectionStatus\<close> leaves out the message and the
  flag when they are unset, so the patch would keep the old ones; \<open>report_with\<close> then writes the flag explicitly, as null when
  it is not set.
\<close>

record ConnectionPatch =
  np_state :: ConnectionState
  np_node :: string
  np_device_name :: string
  np_slot :: int
  np_since :: string
  np_message :: "string option upd"
  np_awaiting_resume :: "bool option upd"

definition unset_or_put :: "'a option \<Rightarrow> 'a option upd" where
  "unset_or_put v = (if v = None then Keep else Put v)"

definition connection_value :: "ConnectionStatus \<Rightarrow> ConnectionPatch" where
  "connection_value c =
     \<lparr>np_state = co_state c, np_node = co_node c, np_device_name = co_device_name c, np_slot = co_slot c,
      np_since = co_since c, np_message = unset_or_put (co_message c), np_awaiting_resume = unset_or_put (co_awaiting_resume c)\<rparr>"

definition merge_connection :: "ConnectionPatch \<Rightarrow> ConnectionStatus option \<Rightarrow> ConnectionStatus" where
  "merge_connection p old =
     \<lparr>co_state = np_state p, co_node = np_node p, co_device_name = np_device_name p, co_slot = np_slot p, co_since = np_since p,
      co_message = put_into (np_message p) (Option.bind old co_message),
      co_awaiting_resume = put_into (np_awaiting_resume p) (Option.bind old co_awaiting_resume)\<rparr>"

definition other_node_connected :: "AgentConfig \<Rightarrow> ConnectionStatus option \<Rightarrow> bool" where
  "other_node_connected cfg current =
     is_some_and (\<lambda>c. co_node c \<noteq> cfg_node cfg \<and> co_state c = ConnConnected) current"

definition changed_state :: "(ConnectionState \<times> string \<times> bool) option \<Rightarrow> ConnectionState \<Rightarrow> bool \<Rightarrow> bool" where
  "changed_state entry state awaiting = is_none_or (\<lambda>(s, _, a). s \<noteq> state \<or> a \<noteq> awaiting) entry"

text \<open>
  \<open>report_with\<close>: \<open>current\<close> is the connection the cached claim shows, \<open>reply\<close> what the API answers to the patch. The result is
  the new state of the reporter and the patch, if one is sent.
\<close>

definition report_with ::
  "Lib \<Rightarrow> AgentConfig \<Rightarrow> SessionSpec \<Rightarrow> seconds \<Rightarrow> ConnectionStatus option \<Rightarrow> KubeError + unit \<Rightarrow>
   ConnectionState \<Rightarrow> string \<Rightarrow> bool \<Rightarrow> Reporter \<Rightarrow> Reporter \<times> ConnectionPatch option" where
  "report_with L cfg spec now current reply state message awaiting rp =
     (if rp_last rp = Some (state, message, awaiting) then (rp, None)
      else if state = ConnDisconnected \<and> other_node_connected cfg current
      then (rp\<lparr>rp_last := Some (state, message, awaiting)\<rparr>, None)
      else
        let since = (if changed_state (rp_last rp) state awaiting then rfc3339 L now else rp_since rp);
            connection = \<lparr>co_state = state, co_node = cfg_node cfg, co_device_name = ss_device spec, co_slot = ss_slot spec,
                     co_since = since, co_message = Some message, co_awaiting_resume = (if awaiting then Some True else None)\<rparr>;
            patch = (connection_value connection)\<lparr>np_awaiting_resume := Put (if awaiting then Some True else None)\<rparr>
        in (case reply of
              Inr _ \<Rightarrow> rp\<lparr>rp_since := since, rp_last := Some (state, message, awaiting)\<rparr>
            | Inl e \<Rightarrow>
                if is_not_found e then rp\<lparr>rp_since := since, rp_last := Some (state, message, awaiting)\<rparr>
                else rp\<lparr>rp_since := since\<rparr>,
            Some patch))"

section \<open>One attempt\<close>

datatype AttemptError = Waiting string | Failed string

type_synonym report = "ConnectionState \<times> string \<times> bool"

fun device_phase_text :: "DevicePhase option \<Rightarrow> string" where
  "device_phase_text None = ''unknown''"
| "device_phase_text (Some Available) = ''Available''"
| "device_phase_text (Some Unplugged) = ''Unplugged''"
| "device_phase_text (Some Lost) = ''Lost''"

text \<open>
  The checks before anything is connected: the exporter's endpoint, the node it is on and the socket. An available device without an
  exporter would be a panic; \<^const>\<open>None\<close> stands for it.
\<close>

definition attempt_checks ::
  "Lib \<Rightarrow> HostFs \<Rightarrow> Context \<Rightarrow> SessionSpec \<Rightarrow> seconds \<Rightarrow> (AttemptError + ExporterEndpoint \<times> string \<times> string) option" where
  "attempt_checks L fs ctx spec now =
     (let cfg = ax_config ctx
      in case device_in_store ctx (ss_device spec) of
           None \<Rightarrow> Some (Inl (Waiting (''UsbDevice '' @ ss_device spec @ '' not found'')))
         | Some device \<Rightarrow>
             let status = status_ref device
             in if lease_holder device \<noteq> Some (cr_uid (ss_claim spec)) then
                  Some (Inl (Waiting ''device lease is not held by this claim''))
                else if \<not> is_available L device now (sint (cfg_lost_after cfg)) then
                  Some (Inl (Waiting (''device is '' @ device_phase_text (st_phase status) @ '' (last seen on '' @
                    (case st_node status of Some n \<Rightarrow> n | None \<Rightarrow> ''unknown node'') @ '')'')))
                else case st_exporter status of
                       None \<Rightarrow> None
                     | Some exporter \<Rightarrow>
                         (case vmi_in_store ctx (cr_namespace (ss_claim spec)) (ss_vm_name spec) of
                            None \<Rightarrow> Some (Inl (Waiting ''VirtualMachineInstance not found''))
                          | Some vmi \<Rightarrow>
                              if vi_uid vmi \<noteq> ss_vmi_uid spec then Some (Inl (Waiting ''VirtualMachineInstance was replaced''))
                              else case locate fs (cfg_locator cfg) (ss_vmi_uid spec) (launcher_pods_on vmi (cfg_node cfg)) (ss_slot spec) of
                                     None \<Rightarrow> Some (Inl (Waiting (''usbredir socket '' @ socket_name (ss_slot spec) @
                                       '' not found for the VM on this node'')))
                                   | Some socket \<Rightarrow> Some (Inr (exporter, unwrap_or_default (st_node status), socket))))"

datatype GreetingRead = ReadBytes nat | ReadError string | ReadTimedOut

text \<open>
  QEMU's greeting: a list of rounds, each with whether the cached instance is paused and what the read returned. Only a paused
  instance makes the loop go on; a list that runs out leaves it waiting (\<^const>\<open>None\<close>).
\<close>

fun read_greeting :: "SessionSpec \<Rightarrow> string \<Rightarrow> (bool \<times> GreetingRead) list \<Rightarrow> report list \<times> (AttemptError + nat) option" where
  "read_greeting spec source_node [] = ([], None)"
| "read_greeting spec source_node ((paused, outcome) # rounds) =
     (let reports = (if paused then
            [(ConnConnecting, ''ready on '' @ socket_name (ss_slot spec) @ '' with the device from '' @ source_node @
               ''; waiting for the VM to resume'', True)] else [])
      in case outcome of
           ReadBytes n \<Rightarrow>
             (reports, Some (if n = 0 then Inl (Failed ''QEMU closed the usbredir socket'') else Inr n))
         | ReadError e \<Rightarrow> (reports, Some (Inl (Failed (''reading from QEMU: '' @ e))))
         | ReadTimedOut \<Rightarrow>
             if paused then
               let (more, r) = read_greeting spec source_node rounds in (reports @ more, r)
             else
               (reports, Some (Inl (Failed (''QEMU did not answer on '' @ socket_name (ss_slot spec) @
                  ''; is the slot used by another usbredir client?'')))))"

datatype Connected = ConnectTimedOut | ConnectFailed string | TcpConnected
datatype Answer = AnswerTimedOut | AnswerFailed string | Answered Reply

text \<open>What the outside does in one attempt.\<close>

record AttemptEnv =
  ae_key_file :: "string + bytes"
  ae_random :: bytes
  ae_connect :: Connected
  ae_send :: "string option"
  ae_answer :: Answer
  ae_vm_connect :: "string option"
  ae_greeting :: "(bool \<times> GreetingRead) list"
  ae_forward :: "string option"
  ae_attached_for :: nat

text \<open>
  The handshake with the exporter: the request that went out, if one did, and whether the exporter accepted it.
\<close>

definition request_exporter ::
  "Lib \<Rightarrow> AgentConfig \<Rightarrow> SessionSpec \<Rightarrow> i64 \<Rightarrow> ExporterEndpoint \<Rightarrow> string \<Rightarrow> AttemptEnv \<Rightarrow> Hello option \<times> (AttemptError + unit)" where
  "request_exporter L cfg spec now exporter source_node env =
     (case read_psk (cfg_psk_file cfg) (ae_key_file env) of
        Inl e \<Rightarrow> (None, Inl (Failed e))
      | Inr psk \<Rightarrow>
          (case ae_connect env of
             ConnectTimedOut \<Rightarrow>
               (None, Inl (Failed (''timed out connecting to exporter '' @ socket_addr exporter @ '' on '' @ source_node)))
           | ConnectFailed e \<Rightarrow>
               (None, Inl (Failed (''connecting to exporter '' @ socket_addr exporter @ '' on '' @ source_node @ '': '' @ e)))
           | TcpConnected \<Rightarrow>
               let hello = hello_new L (ae_random env) psk (ss_device spec) (ss_claim spec) now
               in (Some hello,
                   case ae_send env of
                     Some e \<Rightarrow> Inl (Failed (''sending handshake: '' @ e))
                   | None \<Rightarrow>
                       (case ae_answer env of
                          AnswerTimedOut \<Rightarrow> Inl (Failed (''exporter on '' @ source_node @ '' did not answer the handshake''))
                        | AnswerFailed e \<Rightarrow> Inl (Failed (''reading handshake reply: '' @ e))
                        | Answered reply \<Rightarrow>
                            if re_ok reply then Inr ()
                            else Inl (Failed (''exporter on '' @ source_node @ '' refused: '' @ unwrap_or_default (re_error reply)))))))"

text \<open>
  Splicing QEMU's socket onto the accepted connection: the reports and the result, the seconds the device was attached. The result
  is \<^const>\<open>None\<close> while it waits for the greeting of a paused machine.
\<close>

definition splice_vm :: "SessionSpec \<Rightarrow> string \<Rightarrow> string \<Rightarrow> AttemptEnv \<Rightarrow> report list \<times> (AttemptError + nat) option" where
  "splice_vm spec source_node socket env =
     (case ae_vm_connect env of
        Some e \<Rightarrow> ([], Some (Inl (Failed (''connecting to '' @ socket @ '': '' @ e))))
      | None \<Rightarrow>
          (case read_greeting spec source_node (ae_greeting env) of
             (reports, None) \<Rightarrow> (reports, None)
           | (reports, Some (Inl e)) \<Rightarrow> (reports, Some (Inl e))
           | (reports, Some (Inr n)) \<Rightarrow>
               (case ae_forward env of
                  Some e \<Rightarrow> (reports, Some (Inl (Failed (''forwarding to exporter: '' @ e))))
                | None \<Rightarrow>
                    (reports @ [(ConnConnected, ''attached from '' @ source_node @ '' via '' @ socket_name (ss_slot spec), False)],
                     Some (Inr (ae_attached_for env))))))"

text \<open>The part of \<open>attempt\<close> after the checks: the reports it makes, the request it sends and its result.\<close>

definition attempt_io ::
  "Lib \<Rightarrow> AgentConfig \<Rightarrow> SessionSpec \<Rightarrow> i64 \<Rightarrow> ExporterEndpoint \<Rightarrow> string \<Rightarrow> string \<Rightarrow> AttemptEnv \<Rightarrow>
   report list \<times> Hello option \<times> (AttemptError + nat) option" where
  "attempt_io L cfg spec now exporter source_node socket env =
     (let connecting = (ConnConnecting, ''connecting to exporter on '' @ source_node, False)
      in case request_exporter L cfg spec now exporter source_node env of
           (hello, Inl e) \<Rightarrow> ([connecting], hello, Some (Inl e))
         | (hello, Inr _) \<Rightarrow>
             (case splice_vm spec source_node socket env of (reports, r) \<Rightarrow> (connecting # reports, hello, r)))"

definition attempt ::
  "Lib \<Rightarrow> HostFs \<Rightarrow> Context \<Rightarrow> SessionSpec \<Rightarrow> seconds \<Rightarrow> AttemptEnv \<Rightarrow> (report list \<times> Hello option \<times> (AttemptError + nat) option) option" where
  "attempt L fs ctx spec now env =
     (case attempt_checks L fs ctx spec now of
        None \<Rightarrow> None
      | Some (Inl e) \<Rightarrow> Some ([], None, Some (Inl e))
      | Some (Inr (exporter, source_node, socket)) \<Rightarrow>
          Some (attempt_io L (ax_config ctx) spec (word_of_int now) exporter source_node socket env))"

section \<open>The life of a task\<close>

definition MIN_BACKOFF :: nat where
  "MIN_BACKOFF = 1"

definition MAX_BACKOFF :: nat where
  "MAX_BACKOFF = 30"

definition HEALTHY_SESSION :: nat where
  "HEALTHY_SESSION = 30"

text \<open>
  One turn of the loop of \<open>run_session\<close>: what it reports after an attempt, how long it sleeps and the next backoff. Waiting for the
  cluster to change leaves the backoff alone.
\<close>

definition session_turn :: "AttemptError + nat \<Rightarrow> nat \<Rightarrow> report \<times> nat \<times> nat" where
  "session_turn result backoff =
     (case result of
        Inr connected_for \<Rightarrow>
          let b = (if connected_for \<ge> HEALTHY_SESSION then MIN_BACKOFF else backoff)
          in ((ConnDisconnected, ''session ended; reconnecting'', False), b, min (b * 2) MAX_BACKOFF)
      | Inl (Waiting message) \<Rightarrow> ((ConnDisconnected, message, False), MAX_BACKOFF, backoff)
      | Inl (Failed message) \<Rightarrow> ((ConnDisconnected, message, False), backoff, min (backoff * 2) MAX_BACKOFF))"

text \<open>
  The whole task, as the reports it makes, for a list of turns. A turn is an attempt with the reports it made (as far as it came) and
  either its result and whether the task was told to stop while it slept or waited afterwards, or that it was told to stop
  during the attempt. The flag says whether the task has ended; it does so only when it is told to stop, with a last report.
\<close>

datatype Turn =
    CancelledInAttempt "report list"
  | AttemptEnded "report list" "AttemptError + nat" bool

definition detached_report :: report where
  "detached_report = (ConnDisconnected, ''detached'', False)"

fun run_session :: "nat \<Rightarrow> Turn list \<Rightarrow> report list \<times> bool" where
  "run_session backoff [] = ([], False)"
| "run_session backoff (CancelledInAttempt reports # turns) = (reports @ [detached_report], True)"
| "run_session backoff (AttemptEnded reports result cancelled # turns) =
     (let (after, _, backoff') = session_turn result backoff
      in if cancelled then (reports @ [after, detached_report], True)
         else let (more, ended) = run_session backoff' turns in (reports @ after # more, ended))"

text \<open>
  The reports reach the claim through the reporter. Each is made at a time, with a cached view of the claim's connection, and gets a
  reply; a patch that succeeds is merged into the connection the API stores.
\<close>

type_synonym report_env = "seconds \<times> ConnectionStatus option \<times> (KubeError + unit)"

definition make_report ::
  "Lib \<Rightarrow> AgentConfig \<Rightarrow> SessionSpec \<Rightarrow> report \<times> report_env \<Rightarrow> Reporter \<times> ConnectionStatus option \<Rightarrow> Reporter \<times> ConnectionStatus option" where
  "make_report L cfg spec = (\<lambda>((state, message, awaiting), now, current, reply) (rp, stored).
     case report_with L cfg spec now current reply state message awaiting rp of
       (rp', None) \<Rightarrow> (rp', stored)
     | (rp', Some patch) \<Rightarrow> (rp', case reply of Inr _ \<Rightarrow> Some (merge_connection patch stored) | Inl _ \<Rightarrow> stored))"

definition make_reports ::
  "Lib \<Rightarrow> AgentConfig \<Rightarrow> SessionSpec \<Rightarrow> (report \<times> report_env) list \<Rightarrow> Reporter \<times> ConnectionStatus option \<Rightarrow> Reporter \<times> ConnectionStatus option" where
  "make_reports L cfg spec rs = fold (make_report L cfg spec) rs"

end
