(* ===== verification/AttachSafety.thy ===== *)
theory AttachSafety
  imports Attacher
begin

text \<open>
  The properties of the attacher: a round of its loop makes the running sessions the wanted ones, every task that was ever started is
  the running session of a claim or has been told to stop, wanted sessions hold the lease of their device and no two
  of them share one, reports replace what the claim showed before without hiding another node's connection, and the backoff is
  exponential within its bounds.
\<close>

section \<open>Rounds\<close>

definition running_of :: "AttacherState \<Rightarrow> string \<rightharpoonup> SessionSpec" where
  "running_of st uid = map_option ru_spec (map_of (at_running st) uid)"

lemma start_running:
  "running_of (fold start_session ds st) uid =
     (case running_of st uid of Some spec \<Rightarrow> Some spec | None \<Rightarrow> map_of ds uid)"
proof (induction ds arbitrary: st)
  case (Cons e ds)
  have "running_of (start_session e st) uid =
      (case running_of st uid of Some spec \<Rightarrow> Some spec | None \<Rightarrow> if fst e = uid then Some (snd e) else None)"
    by (auto simp: running_of_def start_session_def Let_def map_of_bt_insert split: option.splits)
  with Cons.IH [of "start_session e st"] show ?case by (cases e) (auto split: option.splits)
qed (auto split: option.splits)

lemma stop_running: "at_running (fold stop_session es st) = filter (\<lambda>(uid, _). uid \<notin> fst ` set es) (at_running st)"
  by (induction es arbitrary: st) (auto simp: stop_session_def intro!: filter_cong)

lemma map_of_filter_key: "map_of (filter (\<lambda>(k, _). P k) xs) k = (if P k then map_of xs k else None)"
  by (induction xs) auto

text \<open>What is left after the stale sessions have been stopped.\<close>

lemma not_stale_left:
  assumes "distinct (map fst (at_running st))"
  shows "map_of (at_running (fold stop_session (filter (is_stale desired finished) (at_running st)) st)) uid =
    (case map_of (at_running st) uid of
       None \<Rightarrow> None | Some r \<Rightarrow> if is_stale desired finished (uid, r) then None else Some r)"
proof -
  have "uid \<in> fst ` set (filter (is_stale desired finished) (at_running st)) \<longleftrightarrow>
      (\<exists>r. map_of (at_running st) uid = Some r \<and> is_stale desired finished (uid, r))"
    using assms by (force simp: map_of_eq_Some_iff)
  then show ?thesis
    by (auto simp: stop_running map_of_filter_key split: option.splits)
qed

abbreviation stopped :: "(string, SessionSpec) btree \<Rightarrow> (nat \<Rightarrow> bool) \<Rightarrow> AttacherState \<Rightarrow> AttacherState" where
  "stopped desired finished st \<equiv> fold stop_session (filter (is_stale desired finished) (at_running st))
     (st\<lparr>at_stopping := retain (\<lambda>_ handle. \<not> finished handle) (at_stopping st)\<rparr>)"

lemma round_eq: "attacher_round desired finished st = fold start_session desired (stopped desired finished st)"
  by (simp add: attacher_round_def Let_def)

lemma stopped_running:
  assumes "bt_sorted (at_running st)"
  shows "map_of (at_running (stopped desired finished st)) uid =
    (case map_of (at_running st) uid of None \<Rightarrow> None | Some r \<Rightarrow> if is_stale desired finished (uid, r) then None else Some r)"
  using not_stale_left [of "st\<lparr>at_stopping := retain (\<lambda>_ handle. \<not> finished handle) (at_stopping st)\<rparr>" desired finished uid]
    bt_sorted_distinct [OF assms] by simp

lemma round_desired:
  assumes "bt_sorted (at_running st)"
  shows "running_of (attacher_round desired finished st) = map_of desired"
proof
  fix uid
  show "running_of (attacher_round desired finished st) uid = map_of desired uid"
    unfolding round_eq start_running
    by (auto simp: running_of_def stopped_running [OF assms] is_stale_def split: option.splits if_splits)
qed

text \<open>The sessions that are really served: those whose task has not ended.\<close>

definition live_of :: "(nat \<Rightarrow> bool) \<Rightarrow> AttacherState \<Rightarrow> string \<rightharpoonup> SessionSpec" where
  "live_of finished st uid =
     (case map_of (at_running st) uid of None \<Rightarrow> None | Some r \<Rightarrow> if finished (ru_handle r) then None else Some (ru_spec r))"

lemma start_running_task:
  assumes "map_of (at_running (fold start_session ds st)) uid = Some r"
  shows "map_of (at_running st) uid = Some r \<or> length (at_spawned st) \<le> ru_handle r"
  using assms
proof (induction ds arbitrary: st)
  case (Cons e ds)
  then have "map_of (at_running (start_session e st)) uid = Some r \<or> length (at_spawned (start_session e st)) \<le> ru_handle r" by simp
  then show ?case by (auto simp: start_session_def Let_def map_of_bt_insert split: if_splits)
qed simp

lemma start_keeps_running: "map_of (at_running st) uid = Some r \<Longrightarrow> map_of (at_running (fold start_session ds st)) uid = Some r"
proof (induction ds arbitrary: st)
  case (Cons e ds)
  have "map_of (at_running (start_session e st)) uid = Some r"
    using Cons.prems by (auto simp: start_session_def Let_def map_of_bt_insert)
  with Cons.IH show ?case by simp
qed simp

lemma stop_spawned [simp]: "at_spawned (fold stop_session es st) = at_spawned st"
  by (induction es arbitrary: st) (simp_all add: stop_session_def)

lemma round_running_live:
  assumes "bt_sorted (at_running st)" and "\<And>task. finished task \<Longrightarrow> task < length (at_spawned st)"
    and "map_of (at_running (attacher_round desired finished st)) uid = Some r"
  shows "\<not> finished (ru_handle r)"
proof
  assume ended: "finished (ru_handle r)"
  from start_running_task [OF assms(3) [unfolded round_eq]] show False
  proof
    assume "map_of (at_running (stopped desired finished st)) uid = Some r"
    with ended show False by (auto simp: stopped_running [OF assms(1)] is_stale_def split: option.splits if_splits)
  qed (use assms(2) [OF ended] in simp)
qed

text \<open>
  Property C18: one round of the attacher's loop makes the served sessions exactly the wanted ones, whatever was running, was stopping or
  has ended in the meantime: seen as a map from claims to sessions whose task has not ended, the loop implements the assignment \<open>running := desired\<close>, so
  a wanted session whose task has ended gets a new one. A session that is wanted and whose task goes on is left to it.
\<close>

theorem round_refines_assignment:
  assumes "bt_sorted (at_running st)" and "\<And>task. finished task \<Longrightarrow> task < length (at_spawned st)"
  shows "running_of (attacher_round desired finished st) = map_of desired \<and>
    live_of finished (attacher_round desired finished st) = map_of desired \<and>
    (\<forall>uid r. map_of (at_running st) uid = Some r \<longrightarrow> map_of desired uid = Some (ru_spec r) \<longrightarrow> \<not> finished (ru_handle r) \<longrightarrow>
       map_of (at_running (attacher_round desired finished st)) uid = Some r)"
proof (intro conjI allI impI)
  show running: "running_of (attacher_round desired finished st) = map_of desired" by (rule round_desired [OF assms(1)])
  show "live_of finished (attacher_round desired finished st) = map_of desired"
    using round_running_live [OF assms, where desired = desired]
    by (auto simp: live_of_def running_of_def fun_eq_iff running [symmetric] split: option.split)
  fix uid r
  assume "map_of (at_running st) uid = Some r" "map_of desired uid = Some (ru_spec r)" "\<not> finished (ru_handle r)"
  then show "map_of (at_running (attacher_round desired finished st)) uid = Some r"
    unfolding round_eq by (intro start_keeps_running) (simp add: stopped_running [OF assms(1)] is_stale_def)
qed

section \<open>Every task is running or cancelled\<close>

definition tasks_ok :: "(string \<rightharpoonup> Running) \<Rightarrow> nat set \<Rightarrow> (SessionSpec \<times> nat option) list \<Rightarrow> bool" where
  "tasks_ok m cancelled spawned \<longleftrightarrow>
     (\<forall>uid r. m uid = Some r \<longrightarrow> ru_cancel r < length spawned \<and> ru_handle r = ru_cancel r \<and> ru_cancel r \<notin> cancelled \<and>
        fst (spawned ! ru_cancel r) = ru_spec r) \<and>
     (\<forall>uid uid' r r'. m uid = Some r \<longrightarrow> m uid' = Some r' \<longrightarrow> ru_cancel r = ru_cancel r' \<longrightarrow> uid = uid') \<and>
     (\<forall>t \<in> cancelled. t < length spawned) \<and>
     (\<forall>t < length spawned. t \<in> cancelled \<or> (\<exists>uid r. m uid = Some r \<and> ru_cancel r = t))"

lemma tasks_ok_stop:
  assumes "tasks_ok m cancelled spawned" and "m uid = Some r"
  shows "tasks_ok (m(uid := None)) (insert (ru_cancel r) cancelled) spawned"
proof -
  have "ru_cancel r' \<noteq> ru_cancel r" if "m uid' = Some r'" "uid' \<noteq> uid" for uid' r'
    using assms that unfolding tasks_ok_def by blast
  moreover have "t \<in> insert (ru_cancel r) cancelled \<or> (\<exists>u x. (m(uid := None)) u = Some x \<and> ru_cancel x = t)" if "t < length spawned" for t
  proof -
    from assms(1) that consider "t \<in> cancelled" | u x where "m u = Some x" "ru_cancel x = t"
      unfolding tasks_ok_def by blast
    then show ?thesis
    proof cases
      case (2 u x)
      show ?thesis
      proof (cases "u = uid")
        case True
        with 2 assms(2) show ?thesis by simp
      next
        case False
        with 2 show ?thesis by (intro disjI2 exI [of _ u]) simp
      qed
    qed simp
  qed
  ultimately show ?thesis
    using assms unfolding tasks_ok_def by (simp add: fun_upd_apply)
qed

lemma tasks_ok_start:
  assumes "tasks_ok m cancelled spawned" and "m uid = None"
  shows "tasks_ok (m(uid \<mapsto> \<lparr>ru_spec = spec, ru_cancel = length spawned, ru_handle = length spawned\<rparr>)) cancelled (spawned @ [(spec, previous)])"
    (is "tasks_ok ?m _ ?spawned")
proof -
  have old: "ru_cancel r < length spawned" if "m u = Some r" for u r using assms(1) that unfolding tasks_ok_def by blast
  have "t \<in> cancelled \<or> (\<exists>u x. ?m u = Some x \<and> ru_cancel x = t)" if "t < length ?spawned" for t
  proof (cases "t = length spawned")
    case True
    then show ?thesis by (intro disjI2 exI [of _ uid]) simp
  next
    case False
    with that assms(1) consider "t \<in> cancelled" | u x where "m u = Some x" "ru_cancel x = t"
      unfolding tasks_ok_def by (metis length_append_singleton less_SucE)
    then show ?thesis
    proof cases
      case (2 u x)
      with assms(2) show ?thesis by (intro disjI2 exI [of _ u]) auto
    qed simp
  qed
  moreover have "\<forall>u x. ?m u = Some x \<longrightarrow> ru_cancel x < length ?spawned \<and> ru_handle x = ru_cancel x \<and> ru_cancel x \<notin> cancelled \<and>
      fst (?spawned ! ru_cancel x) = ru_spec x"
    using assms(1) old unfolding tasks_ok_def by (auto simp: nth_append less_SucI)
  moreover have "\<forall>u u' x x'. ?m u = Some x \<longrightarrow> ?m u' = Some x' \<longrightarrow> ru_cancel x = ru_cancel x' \<longrightarrow> u = u'"
    using assms(1) old unfolding tasks_ok_def by (auto simp: fun_upd_apply split: if_splits dest!: old)
  moreover have "\<forall>t \<in> cancelled. t < length ?spawned" using assms(1) unfolding tasks_ok_def by auto
  ultimately show ?thesis unfolding tasks_ok_def by blast
qed

definition attacher_ok :: "AttacherState \<Rightarrow> bool" where
  "attacher_ok st \<longleftrightarrow> bt_sorted (at_running st) \<and>
     (\<forall>uid. map_of (at_running st) uid \<noteq> None \<longrightarrow> at_stopping st uid = None) \<and>
     tasks_ok (map_of (at_running st)) (at_cancelled st) (at_spawned st)"

lemma attacher_ok_new: "attacher_ok attacher_new"
  by (simp add: attacher_ok_def attacher_new_def tasks_ok_def)

lemma attacher_ok_retain: "attacher_ok st \<Longrightarrow> attacher_ok (st\<lparr>at_stopping := retain P (at_stopping st)\<rparr>)"
  by (auto simp: attacher_ok_def retain_def split: option.splits)

lemma attacher_ok_stop:
  assumes ok: "attacher_ok st" and e: "map_of (at_running st) uid = Some r"
  shows "attacher_ok (stop_session (uid, r) st)"
proof -
  have m: "map_of (filter (\<lambda>(u, _). u \<noteq> uid) (at_running st)) = (map_of (at_running st))(uid := None)"
    by (auto simp: map_of_filter_key)
  have "sorted_wrt (<) (map fst (filter (\<lambda>(u, _). u \<noteq> uid) (at_running st)))"
    using ok unfolding attacher_ok_def sorted_wrt_map by (blast intro: sorted_wrt_filter)
  then show ?thesis
    using ok tasks_ok_stop [of "map_of (at_running st)" "at_cancelled st" "at_spawned st" uid r] e
    by (simp add: attacher_ok_def stop_session_def m)
qed

lemma attacher_ok_stops:
  "attacher_ok st \<Longrightarrow> distinct (map fst es) \<Longrightarrow> \<forall>(uid, r) \<in> set es. map_of (at_running st) uid = Some r \<Longrightarrow>
   attacher_ok (fold stop_session es st)"
proof (induction es arbitrary: st)
  case (Cons e es)
  obtain uid r where e: "e = (uid, r)" by fastforce
  have "\<forall>(uid', r') \<in> set es. map_of (at_running (stop_session e st)) uid' = Some r'"
  proof (clarify)
    fix uid' r' assume "(uid', r') \<in> set es"
    with Cons.prems e have "uid' \<noteq> uid" "map_of (at_running st) uid' = Some r'" by force+
    then show "map_of (at_running (stop_session e st)) uid' = Some r'" by (simp add: e stop_session_def map_of_filter_key)
  qed
  moreover have "attacher_ok (stop_session e st)" using Cons.prems e by (auto intro: attacher_ok_stop)
  ultimately show ?case using Cons by simp
qed simp

lemma attacher_ok_start: "attacher_ok st \<Longrightarrow> attacher_ok (start_session e st)"
  using tasks_ok_start [of "map_of (at_running st)" "at_cancelled st" "at_spawned st" "fst e" "snd e"]
  by (auto simp: attacher_ok_def start_session_def Let_def map_of_bt_insert bt_sorted_insert)

lemma attacher_ok_round:
  assumes ok: "attacher_ok st"
  shows "attacher_ok (attacher_round desired finished st)"
proof -
  let ?st = "st\<lparr>at_stopping := retain (\<lambda>_ handle. \<not> finished handle) (at_stopping st)\<rparr>"
  have d: "distinct (map fst (at_running st))" using ok bt_sorted_distinct by (auto simp: attacher_ok_def)
  have "attacher_ok (fold stop_session (filter (is_stale desired finished) (at_running ?st)) ?st)"
    using d by (intro attacher_ok_stops attacher_ok_retain ok) (auto simp: distinct_map_filter)
  then show ?thesis
    unfolding attacher_round_def Let_def by (rule fold_invariant_set) (rule attacher_ok_start)
qed

text \<open>The states the loop can be in, for any sequence of wanted sessions and of ending tasks.\<close>

inductive attacher_run :: "AttacherState \<Rightarrow> bool" where
  start: "attacher_run attacher_new"
| round: "attacher_run st \<Longrightarrow> attacher_run (attacher_round desired finished st)"

lemma attacher_ok_run: "attacher_run st \<Longrightarrow> attacher_ok st"
  by (induction rule: attacher_run.induct) (auto intro: attacher_ok_new attacher_ok_round)

lemma every_task_running:
  assumes "attacher_run st" and "t < length (at_spawned st)"
  shows "(t \<in> at_cancelled st \<and> (\<nexists>uid r. map_of (at_running st) uid = Some r \<and> ru_cancel r = t)) \<or>
    (t \<notin> at_cancelled st \<and> (\<exists>!uid. \<exists>r. map_of (at_running st) uid = Some r \<and> ru_cancel r = t \<and> ru_spec r = fst (at_spawned st ! t)))"
proof -
  have ok: "tasks_ok (map_of (at_running st)) (at_cancelled st) (at_spawned st)"
    using attacher_ok_run [OF assms(1)] by (simp add: attacher_ok_def)
  show ?thesis
  proof (cases "t \<in> at_cancelled st")
    case True
    with ok show ?thesis unfolding tasks_ok_def by blast
  next
    case False
    with ok assms(2) obtain uid r where "map_of (at_running st) uid = Some r" "ru_cancel r = t" "ru_spec r = fst (at_spawned st ! t)"
      unfolding tasks_ok_def by metis
    moreover have "uid' = uid" if "map_of (at_running st) uid' = Some r'" "ru_cancel r' = t" for uid' r'
      using ok calculation that unfolding tasks_ok_def by blast
    ultimately show ?thesis using False by blast
  qed
qed

text \<open>
  Property C19: no session is forgotten: in every state of the attacher's loop, each task it ever started is either running for exactly one
  claim, with the session it was started for, or has been told to stop, and never both.
\<close>

theorem every_task_is_running_or_cancelled:
  assumes "attacher_run st" and "t < length (at_spawned st)"
  shows "(t \<in> at_cancelled st \<and> (\<nexists>uid r. map_of (at_running st) uid = Some r \<and> ru_cancel r = t)) \<or>
    (t \<notin> at_cancelled st \<and> (\<exists>!uid. \<exists>r. map_of (at_running st) uid = Some r \<and> ru_cancel r = t \<and> ru_spec r = fst (at_spawned st ! t)))"
  using assms by (rule every_task_running)

section \<open>The wanted sessions\<close>

lemma desired_session_Some:
  "desired_session ctx claim = Some (uid, spec) \<longleftrightarrow>
     (\<exists>namespace status vmi. om_uid (uc_metadata claim) = Some uid \<and> om_namespace (uc_metadata claim) = Some namespace \<and>
        om_deletion_timestamp (uc_metadata claim) = None \<and> uc_status claim = Some status \<and>
        ucs_device_name status = Some (ss_device spec) \<and> ucs_slot status = Some (ss_slot spec) \<and>
        vmi_in_store ctx namespace (cs_vm_name (uc_spec claim)) = Some vmi \<and> lease_held ctx (ss_device spec) uid \<and>
        is_running vmi \<and> vi_client_passthrough vmi \<and> vi_node vmi = Some (cfg_node (ax_config ctx)) \<and>
        ss_claim spec = \<lparr>cr_namespace = namespace, cr_name = claim_name_any claim, cr_uid = uid\<rparr> \<and>
        ss_vmi_uid spec = vi_uid vmi \<and> ss_vm_name spec = cs_vm_name (uc_spec claim))"
  by (cases spec) (auto simp: desired_session_def split: option.splits if_splits)

lemma desired_sessions_from:
  assumes "map_of (desired_sessions ctx) uid = Some spec"
  shows "\<exists>claim \<in> set (ax_claims ctx). desired_session ctx claim = Some (uid, spec)"
proof -
  from assms have "(uid, spec) \<in> set (desired_sessions ctx)" by (rule map_of_SomeD)
  then have "collect_map (List.map_filter (desired_session ctx) (ax_claims ctx)) uid = Some spec"
    by (simp add: desired_sessions_def bt_collect_entries)
  then show ?thesis by (auto dest!: collect_map_SomeD simp: List.map_filter_def) (metis option.sel)
qed

lemma wanted_share:
  assumes "map_of (desired_sessions ctx) uid = Some spec" and "map_of (desired_sessions ctx) uid' = Some spec'"
  shows "(\<exists>claim vmi. claim \<in> set (ax_claims ctx) \<and> om_uid (uc_metadata claim) = Some uid \<and> om_deletion_timestamp (uc_metadata claim) = None \<and>
      vmi_in_store ctx (cr_namespace (ss_claim spec)) (ss_vm_name spec) = Some vmi \<and> vi_uid vmi = ss_vmi_uid spec \<and>
      is_running vmi \<and> vi_client_passthrough vmi \<and> vi_node vmi = Some (cfg_node (ax_config ctx))) \<and>
    lease_held ctx (ss_device spec) uid \<and> cr_uid (ss_claim spec) = uid \<and> (ss_device spec = ss_device spec' \<longrightarrow> uid = uid')"
proof (intro conjI)
  obtain claim where claim: "claim \<in> set (ax_claims ctx)" "desired_session ctx claim = Some (uid, spec)"
    using desired_sessions_from [OF assms(1)] by blast
  then show "\<exists>claim vmi. claim \<in> set (ax_claims ctx) \<and> om_uid (uc_metadata claim) = Some uid \<and> om_deletion_timestamp (uc_metadata claim) = None \<and>
      vmi_in_store ctx (cr_namespace (ss_claim spec)) (ss_vm_name spec) = Some vmi \<and> vi_uid vmi = ss_vmi_uid spec \<and>
      is_running vmi \<and> vi_client_passthrough vmi \<and> vi_node vmi = Some (cfg_node (ax_config ctx))"
    by (auto simp: desired_session_Some)
  have held: "lease_held ctx (ss_device spec) uid" "lease_held ctx (ss_device spec') uid'"
    using claim(2) desired_sessions_from [OF assms(2)] by (auto simp: desired_session_Some)
  then show "lease_held ctx (ss_device spec) uid" by simp
  show "cr_uid (ss_claim spec) = uid" using claim(2) by (auto simp: desired_session_Some)
  show "ss_device spec = ss_device spec' \<longrightarrow> uid = uid'" using held by (auto simp: lease_held_def is_some_and_iff)
qed

text \<open>
  A wanted session belongs to a claim that is not being deleted, holds the lease of the session's device and whose virtual
  machine runs on this node, as the very instance the session names, with usbredir slots; and since a device has one lease, no two wanted
  sessions use the same device.
\<close>

theorem wanted_sessions_hold_leases:
  assumes "map_of (desired_sessions ctx) uid = Some spec" and "map_of (desired_sessions ctx) uid' = Some spec'"
  shows "(\<exists>claim vmi. claim \<in> set (ax_claims ctx) \<and> om_uid (uc_metadata claim) = Some uid \<and> om_deletion_timestamp (uc_metadata claim) = None \<and>
      vmi_in_store ctx (cr_namespace (ss_claim spec)) (ss_vm_name spec) = Some vmi \<and> vi_uid vmi = ss_vmi_uid spec \<and>
      is_running vmi \<and> vi_client_passthrough vmi \<and> vi_node vmi = Some (cfg_node (ax_config ctx))) \<and>
    lease_held ctx (ss_device spec) uid \<and> cr_uid (ss_claim spec) = uid \<and> (ss_device spec = ss_device spec' \<longrightarrow> uid = uid')"
  using assms by (rule wanted_share)

lemma live_sessions_unique:
  assumes "attacher_run st" and "st' = attacher_round (desired_sessions ctx) finished st"
    and "t < length (at_spawned st')" and "t \<notin> at_cancelled st'" and "t' < length (at_spawned st')" and "t' \<notin> at_cancelled st'"
    and "ss_device (fst (at_spawned st' ! t)) = ss_device (fst (at_spawned st' ! t'))"
  shows "t = t'"
proof -
  have run: "attacher_run st'" using assms(1,2) by (simp add: attacher_run.round)
  have live: "\<exists>uid r. map_of (at_running st') uid = Some r \<and> ru_cancel r = x \<and> ru_spec r = fst (at_spawned st' ! x)"
    if "x < length (at_spawned st')" "x \<notin> at_cancelled st'" for x
    using every_task_running [OF run that(1)] that(2) by blast
  have desired: "map_of (desired_sessions ctx) uid = Some (ru_spec r)" if "map_of (at_running st') uid = Some r" for uid r
    using round_desired [of st "desired_sessions ctx" finished] attacher_ok_run [OF assms(1)] that
    by (auto simp: assms(2) running_of_def attacher_ok_def fun_eq_iff dest!: spec [of _ uid])
  from live [OF assms(3,4)] live [OF assms(5,6)] obtain uid r uid' r' where
    r: "map_of (at_running st') uid = Some r" "ru_cancel r = t" "ru_spec r = fst (at_spawned st' ! t)" and
    r': "map_of (at_running st') uid' = Some r'" "ru_cancel r' = t'" "ru_spec r' = fst (at_spawned st' ! t')"
    by blast
  have "uid = uid'"
    using wanted_share [OF desired [OF r(1)] desired [OF r'(1)]] r(3) r'(3) assms(7) by simp
  with r r' show ?thesis by simp
qed

text \<open>
  Property C20: at most one live session uses a device: after a round, of all tasks ever started for a device at most one has not been
  told to stop.
\<close>

theorem one_live_session_per_device:
  assumes "attacher_run st" and "st' = attacher_round (desired_sessions ctx) finished st"
  shows "card {t. t < length (at_spawned st') \<and> t \<notin> at_cancelled st' \<and> ss_device (fst (at_spawned st' ! t)) = name} \<le> 1"
    (is "card ?live \<le> 1")
proof (cases "?live = {}")
  case False
  then obtain t where "t \<in> ?live" by blast
  then have "?live = {t}" using live_sessions_unique [OF assms, of _ t] by auto
  then show ?thesis by simp
next
  case True
  show ?thesis unfolding True by simp
qed

section \<open>Reports\<close>

lemma report_with_patch:
  "snd (report_with L cfg spec now current reply state message awaiting rp) = Some p \<Longrightarrow>
   merge_connection p old =
     \<lparr>co_state = state, co_node = cfg_node cfg, co_device_name = ss_device spec, co_slot = ss_slot spec, co_since = np_since p,
      co_message = Some message, co_awaiting_resume = (if awaiting then Some True else None)\<rparr>"
  by (auto simp: report_with_def Let_def merge_connection_def connection_value_def unset_or_put_def split: if_splits)

text \<open>
  What a report does to the claim. Nothing is sent exactly when the report repeats the last one or says \<open>Disconnected\<close>
  while the claim shows that another node is connected (the machine has migrated); otherwise, whatever the claim showed before, it shows
  exactly this report afterwards: in particular a stale flag that a device awaits the resume is gone.
\<close>

theorem report_replaces_connection:
  "case snd (report_with L cfg spec now current reply state message awaiting rp) of
     None \<Rightarrow> rp_last rp = Some (state, message, awaiting) \<or> (state = ConnDisconnected \<and> other_node_connected cfg current)
   | Some p \<Rightarrow> merge_connection p old =
       \<lparr>co_state = state, co_node = cfg_node cfg, co_device_name = ss_device spec, co_slot = ss_slot spec, co_since = np_since p,
        co_message = Some message, co_awaiting_resume = (if awaiting then Some True else None)\<rparr>"
proof (cases "snd (report_with L cfg spec now current reply state message awaiting rp)")
  case None
  then show ?thesis by (auto simp: report_with_def Let_def split: if_splits)
next
  case (Some p)
  then show ?thesis using report_with_patch [OF Some] by simp
qed

text \<open>A delivered report is not sent again.\<close>

lemma report_settles:
  assumes "report_with L cfg spec now current (Inr ()) state message awaiting rp = (rp', p)"
  shows "snd (report_with L cfg spec now' current' reply state message awaiting rp') = None"
  using assms by (auto simp: report_with_def Let_def split: if_splits)

section \<open>The greeting\<close>

lemma greeting_reports: "list_all (\<lambda>(state, message, awaiting). state = ConnConnecting \<and> awaiting) (fst (read_greeting spec node rounds))"
  by (induction spec node rounds rule: read_greeting.induct)
    (auto simp: Let_def split: GreetingRead.splits prod.splits if_splits)

text \<open>
  QEMU's silence is only endured while the machine is paused: the loop is still waiting exactly when every round so far found
  the machine paused and timed out; every report it makes says that the device awaits the resume.
\<close>

theorem greeting_waits_only_while_paused:
  "(snd (read_greeting spec node rounds) = None \<longleftrightarrow> list_all (\<lambda>r. r = (True, ReadTimedOut)) rounds) \<and>
   list_all (\<lambda>(state, message, awaiting). state = ConnConnecting \<and> awaiting) (fst (read_greeting spec node rounds))"
proof
  show "snd (read_greeting spec node rounds) = None \<longleftrightarrow> list_all (\<lambda>r. r = (True, ReadTimedOut)) rounds"
    by (induction spec node rounds rule: read_greeting.induct)
      (auto simp: Let_def split: GreetingRead.splits prod.splits if_splits)
qed (rule greeting_reports)

section \<open>Attempts\<close>

lemma attempt_checks_Inr:
  assumes "attempt_checks L fs ctx spec now = Some (Inr (exporter, node, socket))"
  obtains device vmi where "device_in_store ctx (ss_device spec) = Some device" "lease_holder device = Some (cr_uid (ss_claim spec))"
    "is_available L device now (sint (cfg_lost_after (ax_config ctx)))" "st_exporter (status_ref device) = Some exporter"
    "vmi_in_store ctx (cr_namespace (ss_claim spec)) (ss_vm_name spec) = Some vmi" "vi_uid vmi = ss_vmi_uid spec"
    "locate fs (cfg_locator (ax_config ctx)) (ss_vmi_uid spec) (launcher_pods_on vmi (cfg_node (ax_config ctx))) (ss_slot spec) = Some socket"
  using assms by (auto simp: attempt_checks_def Let_def split: option.splits if_splits)

lemma attempt_checks_total: "attempt_checks L fs ctx spec now \<noteq> None"
  by (auto simp: attempt_checks_def Let_def is_available_def split: option.splits)

lemma request_exporter_hello:
  "request_exporter L cfg spec now exporter node env = (hello, r) \<Longrightarrow>
     (hello = None \<and> r \<noteq> Inr ()) \<or>
     (\<exists>psk. read_psk (cfg_psk_file cfg) (ae_key_file env) = Inr psk \<and>
        hello = Some (hello_new L (ae_random env) psk (ss_device spec) (ss_claim spec) now))"
  by (cases "read_psk (cfg_psk_file cfg) (ae_key_file env)"; cases "ae_connect env") (auto simp: request_exporter_def Let_def)

lemma request_exporter_accepted:
  "request_exporter L cfg spec now exporter node env = (hello, Inr ()) \<Longrightarrow> \<exists>reply. ae_answer env = Answered reply \<and> re_ok reply"
  by (cases "read_psk (cfg_psk_file cfg) (ae_key_file env)"; cases "ae_connect env"; cases "ae_send env"; cases "ae_answer env")
    (auto simp: request_exporter_def Let_def split: if_splits)

lemma splice_connected:
  assumes "splice_vm spec node socket env = (reports, r)" and "(ConnConnected, m, a) \<in> set reports"
  shows "r = Some (Inr (ae_attached_for env)) \<and> a = False"
proof (cases "read_greeting spec node (ae_greeting env)")
  case (Pair greeted g)
  have silent: "(ConnConnected, m, a) \<notin> set greeted"
    using greeting_reports [of spec node "ae_greeting env"] Pair by (auto simp: list_all_iff)
  show ?thesis
  proof (cases "\<exists>n. g = Some (Inr n)")
    case True
    then obtain n where "g = Some (Inr n)" by blast
    with assms Pair silent show ?thesis by (cases "ae_vm_connect env"; cases "ae_forward env") (auto simp: splice_vm_def)
  next
    case False
    with assms Pair silent show ?thesis by (cases "ae_vm_connect env") (auto simp: splice_vm_def split: option.splits sum.splits)
  qed
qed

lemma attempt_io_hello:
  assumes "attempt_io L cfg spec now exporter node socket env = (reports, Some hello, r)"
  shows "\<exists>psk. read_psk (cfg_psk_file cfg) (ae_key_file env) = Inr psk \<and> hello = hello_new L (ae_random env) psk (ss_device spec) (ss_claim spec) now"
proof (cases "request_exporter L cfg spec now exporter node env")
  case (Pair h q)
  with assms have "h = Some hello" by (auto simp: attempt_io_def Let_def split: sum.splits prod.splits)
  with request_exporter_hello [OF Pair] show ?thesis by auto
qed

lemma attempt_io_connected:
  assumes "attempt_io L cfg spec now exporter node socket env = (reports, hello, r)" and "(ConnConnected, m, a) \<in> set reports"
  shows "r = Some (Inr (ae_attached_for env)) \<and> (\<exists>reply. ae_answer env = Answered reply \<and> re_ok reply) \<and> a = False"
proof (cases "request_exporter L cfg spec now exporter node env")
  case (Pair h q)
  obtain spliced r' where s: "splice_vm spec node socket env = (spliced, r')" by fastforce
  with assms Pair have "q = Inr () \<and> r = r' \<and> (ConnConnected, m, a) \<in> set spliced"
    by (cases q) (auto simp: attempt_io_def Let_def)
  with splice_connected [OF s] request_exporter_accepted Pair show ?thesis by blast
qed

text \<open>
  Property C27: what an attempt does. It never panics; a request is sent only for a device that is available and leased to the session's claim,
  by the cache, and it names that device and claim; \<open>Connected\<close> is reported only after the exporter has accepted the request,
  and then the attempt has succeeded.
\<close>

theorem attempt_is_lawful:
  "\<exists>reports hello r. attempt L fs ctx spec now env = Some (reports, hello, r) \<and>
     (hello = None \<or>
      (\<exists>h device. hello = Some h \<and> he_device h = ss_device spec \<and> he_claim h = ss_claim spec \<and>
         device_in_store ctx (ss_device spec) = Some device \<and> lease_holder device = Some (cr_uid (ss_claim spec)) \<and>
         is_available L device now (sint (cfg_lost_after (ax_config ctx))))) \<and>
     (list_all (\<lambda>(state, _, _). state \<noteq> ConnConnected) reports \<or>
        r = Some (Inr (ae_attached_for env)) \<and> (\<exists>reply. ae_answer env = Answered reply \<and> re_ok reply))"
proof (cases "attempt_checks L fs ctx spec now")
  case None
  then show ?thesis by (simp add: attempt_checks_total)
next
  case (Some checks)
  show ?thesis
  proof (cases checks)
    case (Inl e)
    with Some show ?thesis by (simp add: attempt_def)
  next
    case (Inr ok)
    obtain exporter node socket where ok: "ok = (exporter, node, socket)" by (cases ok)
    obtain reports hello r where io: "attempt_io L (ax_config ctx) spec (word_of_int now) exporter node socket env = (reports, hello, r)"
      by (cases "attempt_io L (ax_config ctx) spec (word_of_int now) exporter node socket env")
    have "attempt L fs ctx spec now env = Some (reports, hello, r)" using Some Inr ok io by (simp add: attempt_def)
    moreover obtain device where "device_in_store ctx (ss_device spec) = Some device" "lease_holder device = Some (cr_uid (ss_claim spec))"
      "is_available L device now (sint (cfg_lost_after (ax_config ctx)))"
      using Some [unfolded Inr ok] by (rule attempt_checks_Inr)
    moreover have "hello = None \<or> (\<exists>h. hello = Some h \<and> he_device h = ss_device spec \<and> he_claim h = ss_claim spec)"
      using io by (cases hello) (auto dest: attempt_io_hello)
    moreover have "list_all (\<lambda>(state, _, _). state \<noteq> ConnConnected) reports \<or>
        r = Some (Inr (ae_attached_for env)) \<and> (\<exists>reply. ae_answer env = Answered reply \<and> re_ok reply)"
      using attempt_io_connected [OF io] by (auto simp: list_all_iff)
    ultimately show ?thesis by (intro exI [of _ reports] exI [of _ hello] exI [of _ r] conjI) auto
  qed
qed

section \<open>Backoff\<close>

definition backoff_after :: "(AttemptError + nat) list \<Rightarrow> nat" where
  "backoff_after results = fold (\<lambda>r b. snd (snd (session_turn r b))) results MIN_BACKOFF"

lemma session_turn_bounds:
  "1 \<le> b \<Longrightarrow> b \<le> 30 \<Longrightarrow> 1 \<le> fst (snd (session_turn r b)) \<and> fst (snd (session_turn r b)) \<le> 30 \<and>
     1 \<le> snd (snd (session_turn r b)) \<and> snd (snd (session_turn r b)) \<le> 30"
  by (auto simp: session_turn_def Let_def MIN_BACKOFF_def MAX_BACKOFF_def split: sum.splits AttemptError.splits)

lemma backoff_after_bounds: "1 \<le> backoff_after results \<and> backoff_after results \<le> 30"
  unfolding backoff_after_def
  by (rule fold_invariant_set [where P = "\<lambda>b. 1 \<le> b \<and> b \<le> 30"])
    (simp add: MIN_BACKOFF_def, use session_turn_bounds in blast)

lemma min_double_cap: "min (min (b * 2) 30 * 2 ^ n) 30 = min (b * 2 ^ Suc n) (30 :: nat)"
proof (cases "b \<le> 15")
  case False
  have one: "1 \<le> (2 :: nat) ^ n" by simp
  have "30 * 1 \<le> 30 * (2 :: nat) ^ n" by (rule mult_le_mono2 [OF one])
  moreover have "30 * 1 \<le> (b * 2) * (2 :: nat) ^ n" by (rule mult_le_mono) (use False in simp_all)
  moreover have "min (b * 2) 30 = (30 :: nat)" using False by simp
  ultimately show ?thesis by (simp add: min_absorb2 mult.assoc)
qed (simp add: min_def mult.assoc)

text \<open>
  A task never spins and never sleeps for more than half a minute: whatever the results of its attempts, it waits between one and
  thirty seconds after each; and after \<open>n\<close> failures in a row the backoff is \<open>2^n\<close> seconds, capped at thirty.
\<close>

theorem backoff_is_capped_exponential:
  "1 \<le> fst (snd (session_turn r (backoff_after results))) \<and> fst (snd (session_turn r (backoff_after results))) \<le> 30 \<and>
   backoff_after (replicate n (Inl (Failed message))) = min (2 ^ n) 30"
proof -
  have "fold (\<lambda>r b. snd (snd (session_turn r b))) (replicate n (Inl (Failed message))) b = min (b * 2 ^ n) 30" if "b \<le> 30" for b
    using that
  proof (induction n arbitrary: b)
    case (Suc n)
    have turn: "snd (snd (session_turn (Inl (Failed message)) b)) = min (b * 2) 30"
      by (simp add: session_turn_def MAX_BACKOFF_def)
    have "min (min (b * 2) 30 * 2 ^ n) 30 = min (b * 2 ^ Suc n) 30" by (rule min_double_cap)
    with Suc.IH [of "min (b * 2) 30"] show ?case by (simp add: turn)
  qed simp
  then have "backoff_after (replicate n (Inl (Failed message))) = min (2 ^ n) 30"
    by (simp add: backoff_after_def MIN_BACKOFF_def)
  with session_turn_bounds backoff_after_bounds [of results] show ?thesis by blast
qed

section \<open>The last word of a task\<close>

text \<open>A claim's connection shows a report of this node's task.\<close>

definition shows_report :: "AgentConfig \<Rightarrow> SessionSpec \<Rightarrow> report \<Rightarrow> ConnectionStatus option \<Rightarrow> bool" where
  "shows_report cfg spec = (\<lambda>(state, message, awaiting) stored.
     is_some_and (\<lambda>c. co_state c = state \<and> co_message c = Some message \<and> co_awaiting_resume c = (if awaiting then Some True else None) \<and>
       co_node c = cfg_node cfg \<and> co_device_name c = ss_device spec \<and> co_slot c = ss_slot spec) stored)"

definition reporter_ok :: "AgentConfig \<Rightarrow> SessionSpec \<Rightarrow> Reporter \<times> ConnectionStatus option \<Rightarrow> bool" where
  "reporter_ok cfg spec = (\<lambda>(rp, stored). is_none_or (\<lambda>r. shows_report cfg spec r stored) (rp_last rp))"

lemma make_report_shows:
  assumes "reporter_ok cfg spec s" and "snd (snd e) = Inr ()" and "\<not> other_node_connected cfg (fst (snd e))"
  shows "reporter_ok cfg spec (make_report L cfg spec (r, e) s) \<and> shows_report cfg spec r (snd (make_report L cfg spec (r, e) s))"
proof -
  obtain state message awaiting where r: "r = (state, message, awaiting)" by (cases r)
  obtain rp stored where s: "s = (rp, stored)" by (cases s)
  obtain now current where e: "e = (now, current, Inr ())" using assms(2) by (cases e) auto
  have alone: "\<not> other_node_connected cfg current" using assms(3) by (simp add: e)
  show ?thesis
  proof (cases "rp_last rp = Some r")
    case True
    with assms(1) show ?thesis
      by (simp add: r s e make_report_def report_with_def reporter_ok_def)
  next
    case False
    obtain rp' p where p: "report_with L cfg spec now current (Inr ()) state message awaiting rp = (rp', Some p)" "rp_last rp' = Some r"
      using False alone by (auto simp: r report_with_def Let_def)
    then have "make_report L cfg spec (r, e) s = (rp', Some (merge_connection p stored))"
      by (simp add: r s e make_report_def)
    moreover have "shows_report cfg spec r (Some (merge_connection p stored))"
      using report_with_patch [of L cfg spec now current "Inr ()" state message awaiting rp p stored] p(1) by (simp add: r shows_report_def)
    ultimately show ?thesis using p(2) by (simp add: reporter_ok_def)
  qed
qed

lemma make_reports_show:
  assumes "reporter_ok cfg spec s" and "\<forall>(_, e) \<in> set rs. snd (snd e) = Inr () \<and> \<not> other_node_connected cfg (fst (snd e))"
  shows "reporter_ok cfg spec (make_reports L cfg spec rs s) \<and>
    (rs = [] \<or> shows_report cfg spec (fst (last rs)) (snd (make_reports L cfg spec rs s)))"
  using assms
proof (induction rs arbitrary: s)
  case (Cons x rs)
  obtain r e where x: "x = (r, e)" by (cases x)
  note one = make_report_shows [of cfg spec s e L r]
  have "reporter_ok cfg spec (make_report L cfg spec x s) \<and> shows_report cfg spec r (snd (make_report L cfg spec x s))"
    using one Cons.prems by (simp add: x)
  with Cons.IH [of "make_report L cfg spec x s"] Cons.prems(2) show ?case
    by (auto simp: make_reports_def x)
qed (simp add: make_reports_def)

lemma run_session_ended: "snd (run_session b turns) \<Longrightarrow> \<exists>reports. fst (run_session b turns) = reports @ [detached_report]"
proof (induction turns arbitrary: b)
  case (Cons turn turns)
  show ?case
  proof (cases turn)
    case (AttemptEnded reports result cancelled)
    obtain after sleep b' where turn: "session_turn result b = (after, sleep, b')" by (cases "session_turn result b")
    show ?thesis
    proof (cases cancelled)
      case True
      then show ?thesis by (simp add: AttemptEnded turn)
    next
      case False
      with Cons.prems Cons.IH [of b'] show ?thesis
        by (auto simp: AttemptEnded turn split: prod.splits)
    qed
  qed simp
qed simp

text \<open>
  Property C28: the last word of a task. Once a session's task has been told to stop and has ended, whatever its attempts did before, the
  claim shows that the device is detached, with this node, device and slot and no stale flag, provided that the API took
  the reports and no other node had connected in the meantime.
\<close>

theorem ended_task_shows_detached:
  assumes "snd (run_session MIN_BACKOFF turns)" and "map fst rs = fst (run_session MIN_BACKOFF turns)"
    and "\<forall>(_, _, current, reply) \<in> set rs. reply = Inr () \<and> \<not> other_node_connected cfg current"
  shows "shows_report cfg spec (ConnDisconnected, ''detached'', False) (snd (make_reports L cfg spec rs (reporter_new L now, stored)))"
proof -
  obtain reports where "map fst rs = reports @ [detached_report]" using run_session_ended [OF assms(1)] assms(2) by auto
  then have last: "rs \<noteq> []" "fst (last rs) = detached_report" by (auto simp: map_eq_append_conv)
  have "reporter_ok cfg spec (reporter_new L now, stored)" by (simp add: reporter_ok_def reporter_new_def)
  moreover have "\<forall>(_, e) \<in> set rs. snd (snd e) = Inr () \<and> \<not> other_node_connected cfg (fst (snd e))" using assms(3) by auto
  ultimately show ?thesis
    using make_reports_show [of cfg spec "(reporter_new L now, stored)" rs L] last by (simp add: detached_report_def)
qed

section \<open>The properties at work\<close>

text \<open>One claim on this node, with its device and its running machine.\<close>

definition sample_meta :: "string \<Rightarrow> string \<Rightarrow> ObjectMeta" where
  "sample_meta name uid = \<lparr>om_name = Some name, om_name_any = name, om_namespace = Some ''ns'', om_uid = Some uid,
     om_resource_version = Some ''1'', om_generation = Some 1, om_creation_timestamp = Some 0, om_deletion_timestamp = None,
     om_owner_references = [], om_labels = []\<rparr>"

definition sample_claim :: UsbDeviceClaim where
  "sample_claim = \<lparr>uc_metadata = sample_meta ''radio'' ''c1'',
     uc_spec = \<lparr>cs_vm_name = ''vm'', cs_selector = sample_selector, cs_slot = None, cs_hold_boot = None\<rparr>,
     uc_status = Some (default_claim_status\<lparr>ucs_device_name := Some ''usb-x'', ucs_slot := Some 0\<rparr>)\<rparr>"

definition sample_usb_device :: UsbDevice where
  "sample_usb_device = \<lparr>ud_metadata = sample_meta ''usb-x'' ''d1'',
     ud_spec = \<lparr>ds_vendor_id = ''10c4'', ds_product_id = ''ea60'', ds_serial = None, ds_manufacturer = None, ds_product = None,
       ds_bcd_device = None, ds_identity = Descriptor\<rparr>,
     ud_status = Some (EMPTY_STATUS\<lparr>st_attached_to := Some \<lparr>at_namespace = ''ns'', at_claim = ''radio'', at_claim_uid = ''c1'',
       at_vm_name = ''vm'', at_since = []\<rparr>\<rparr>)\<rparr>"

definition sample_vmi :: DynamicObject where
  "sample_vmi = \<lparr>do_metadata = sample_meta ''vm'' ''i1'',
     do_data = JObject [(''spec'', JObject [(''domain'', JObject [(''devices'', JObject [(''clientPassthrough'', JObject [])])])]),
       (''status'', JObject [(''nodeName'', JString ''n1''), (''phase'', JString ''Running'')])]\<rparr>"

definition sample_context :: Context where
  "sample_context = \<lparr>ax_config = sample_cfg, ax_claims = [sample_claim], ax_devices = [sample_usb_device], ax_vmis = [sample_vmi]\<rparr>"

definition sample_spec :: SessionSpec where
  "sample_spec = \<lparr>ss_claim = \<lparr>cr_namespace = ''ns'', cr_name = ''radio'', cr_uid = ''c1''\<rparr>, ss_device = ''usb-x'', ss_slot = 0,
     ss_vmi_uid = ''i1'', ss_vm_name = ''vm''\<rparr>"

lemma sample_desired: "desired_sessions sample_context = [(''c1'', sample_spec)]"
  by code_simp

definition sample_round :: AttacherState where
  "sample_round = attacher_round (desired_sessions sample_context) (\<lambda>_. False) attacher_new"

lemma sample_round_run: "attacher_run sample_round"
  unfolding sample_round_def by (intro attacher_run.intros)

lemma sample_round_spawned: "at_spawned sample_round = [(sample_spec, None)]"
  by (simp add: sample_round_def sample_desired attacher_round_def attacher_new_def start_session_def retain_def)

text \<open>The task of the sample session has ended, so the next round starts another one.\<close>

theorem round_refines_assignment_witness:
  "live_of (\<lambda>task. task = 0) sample_round = Map.empty \<and>
   live_of (\<lambda>task. task = 0) (attacher_round (desired_sessions sample_context) (\<lambda>task. task = 0) sample_round) = [''c1'' \<mapsto> sample_spec]"
proof -
  have running: "at_running sample_round = [(''c1'', \<lparr>ru_spec = sample_spec, ru_cancel = 0, ru_handle = 0\<rparr>)]"
    by (simp add: sample_round_def sample_desired attacher_round_def attacher_new_def start_session_def Let_def)
  have "live_of (\<lambda>task. task = 0) (attacher_round (desired_sessions sample_context) (\<lambda>task. task = 0) sample_round) = map_of (desired_sessions sample_context)"
    using round_refines_assignment [of sample_round "\<lambda>task. task = 0" "desired_sessions sample_context"]
    by (simp add: running sample_round_spawned)
  then show ?thesis by (auto simp: running live_of_def sample_desired)
qed

theorem every_task_is_running_or_cancelled_witness:
  "(0 \<in> at_cancelled sample_round \<and> (\<nexists>uid r. map_of (at_running sample_round) uid = Some r \<and> ru_cancel r = 0)) \<or>
   (0 \<notin> at_cancelled sample_round \<and>
    (\<exists>!uid. \<exists>r. map_of (at_running sample_round) uid = Some r \<and> ru_cancel r = 0 \<and> ru_spec r = sample_spec))"
  using every_task_is_running_or_cancelled [OF sample_round_run, of 0] by (simp add: sample_round_spawned)

theorem wanted_sessions_hold_leases_witness: "lease_held sample_context ''usb-x'' ''c1''"
  using wanted_sessions_hold_leases [of sample_context "''c1''" sample_spec "''c1''" sample_spec]
  by (simp add: sample_desired sample_spec_def)

theorem one_live_session_per_device_witness:
  "card {t. t < length (at_spawned sample_round) \<and> t \<notin> at_cancelled sample_round \<and>
     ss_device (fst (at_spawned sample_round ! t)) = ''usb-x''} \<le> 1"
  by (rule one_live_session_per_device [OF attacher_run.start sample_round_def])

theorem ended_task_shows_detached_witness:
  "shows_report sample_cfg sample_spec (ConnDisconnected, ''detached'', False)
     (snd (make_reports sample_lib sample_cfg sample_spec
        [((ConnDisconnected, ''m'', False), 5, None, Inr ()), (detached_report, 7, None, Inr ())] (reporter_new sample_lib 0, None)))"
  by (rule ended_task_shows_detached [of "[AttemptEnded [] (Inl (Failed ''m'')) True]"])
    (simp_all add: session_turn_def other_node_connected_def)

end
