(* ===== verification/Exporter.thy ===== *)
theory Exporter
  imports Agent Proto
begin

text \<open>
  \<open>src/agent/exporter.rs\<close>: serving local devices to attaching agents. Every connection is handled by
  its own task, and the tasks interleave, so the exporter is a state machine: its state holds the
  session table, the nonce cache, the counters, the cancelled tokens, the published view of the local devices
  and, per connection, how far its handler has come. \<open>ex_step\<close> takes one task one step, a step
  being what the handler does between two points where another task may intervene (an \<open>await\<close> or the
  taking of a lock); what comes from outside (the bytes that arrive, the clock, the key file, the
  API's reply, what the \<open>usbredirect\<close> process does) is part of the event. A cancellation token is
  the number of the \<open>begin_session\<close> that made it, the per-device mutex is the task that holds it.
\<close>

section \<open>State\<close>

record ActiveSession =
  as_id :: u64
  as_claim :: string
  as_bus_dev :: string
  as_cancel :: nat

record DeviceSessions =
  ds_busy :: "nat option"
  ds_active :: "ActiveSession option"

definition default_sessions :: DeviceSessions where
  "default_sessions = \<lparr>ds_busy = None, ds_active = None\<rparr>"

text \<open>What a handler knows once it has begun a session.\<close>

record Session =
  se_hello :: Hello
  se_info :: UsbDeviceInfo
  se_id :: u64
  se_token :: nat

abbreviation se_device :: "Session \<Rightarrow> string" where
  "se_device se \<equiv> he_device (se_hello se)"

text \<open>The progress of \<open>serve\<close>; a \<open>usbredirect\<close> process is running from \<open>Opening\<close> to \<open>Stopping\<close>.\<close>

datatype ServePc =
    Starting
  | Opening
  | Greeting
  | Streaming
  | Stopping "string option"
  | Replying string
  | Served

datatype Pc =
    Handshaking
  | Received Hello
  | Authenticated Hello
  | Located Hello UsbDeviceInfo
  | Authorized Hello UsbDeviceInfo
  | Rejecting string
  | AwaitingBusy Session
  | HasBusy Session
  | Superseded Session
  | Serving Session ServePc
  | NotStopped Session
  | Leaving Session
  | Done

record Exporter =
  ex_sessions :: "(string, DeviceSessions) btree"
  ex_nonces :: NonceCache
  ex_next_id :: u64
  ex_next_token :: nat
  ex_cancelled :: "nat list"
  ex_local :: LocalDevices
  ex_tasks :: "nat \<rightharpoonup> Pc"
  ex_next_task :: nat

definition exporter_new :: "LocalDevices \<Rightarrow> Exporter" where
  "exporter_new devices =
     \<lparr>ex_sessions = [], ex_nonces = Map.empty, ex_next_id = 1, ex_next_token = 0, ex_cancelled = [],
      ex_local = devices, ex_tasks = Map.empty, ex_next_task = 0\<rparr>"

section \<open>Authorization\<close>

definition claim_text :: "Hello \<Rightarrow> string" where
  "claim_text h = cr_namespace (he_claim h) @ ''/'' @ cr_name (he_claim h)"

definition authenticate ::
  "Lib \<Rightarrow> AgentConfig \<Rightarrow> string + bytes \<Rightarrow> i64 \<Rightarrow> Hello \<Rightarrow> NonceCache \<Rightarrow> (string + unit) \<times> NonceCache" where
  "authenticate L cfg file now h seen =
     (case read_psk (cfg_psk_file cfg) file of
        Inl e \<Rightarrow> (Inl (''exporter misconfigured: '' @ e), seen)
      | Inr psk \<Rightarrow>
          (case verify L h psk now of
             Inl e \<Rightarrow> (Inl (''authentication failed: '' @ show_auth_error L e), seen)
           | Inr _ \<Rightarrow>
               (case check_and_insert seen (he_nonce h) (he_timestamp h) now of
                  (Inl e, seen') \<Rightarrow> (Inl (show_auth_error L e), seen')
                | (Inr _, seen') \<Rightarrow> (Inr (), seen'))))"

definition locate_device :: "AgentConfig \<Rightarrow> LocalDevices \<Rightarrow> Hello \<Rightarrow> string + UsbDeviceInfo" where
  "locate_device cfg devices h =
     (case map_of devices (he_device h) of
        None \<Rightarrow> Inl (''device '' @ he_device h @ '' is not plugged into node '' @ cfg_node cfg)
      | Some d \<Rightarrow> Inr d)"

text \<open>\<open>show_err\<close> is the client library's rendering of its errors.\<close>

definition check_lease :: "(KubeError \<Rightarrow> string) \<Rightarrow> Hello \<Rightarrow> UsbDeviceInfo \<Rightarrow> KubeError + UsbDevice option \<Rightarrow> string + UsbDeviceInfo" where
  "check_lease show_err h device reply =
     (case reply of
        Inl e \<Rightarrow> Inl (''checking lease: '' @ show_err e)
      | Inr None \<Rightarrow> Inl (''UsbDevice '' @ he_device h @ '' does not exist'')
      | Inr (Some obj) \<Rightarrow>
          (case st_attached_to (status_ref obj) of
             None \<Rightarrow> Inl ''device is not leased to any claim''
           | Some lease \<Rightarrow>
               if at_claim_uid lease = cr_uid (he_claim h) \<and> at_namespace lease = cr_namespace (he_claim h) \<and>
                  at_claim lease = cr_name (he_claim h)
               then Inr device
               else Inl (''device is leased to claim '' @ at_namespace lease @ ''/'' @ at_claim lease)))"

text \<open>\<open>authorize\<close> is the three checks in this order; the API is only asked when the others pass.\<close>

definition authorize ::
  "Lib \<Rightarrow> (KubeError \<Rightarrow> string) \<Rightarrow> AgentConfig \<Rightarrow> string + bytes \<Rightarrow> i64 \<Rightarrow> LocalDevices \<Rightarrow> (string \<Rightarrow> KubeError + UsbDevice option) \<Rightarrow>
   Hello \<Rightarrow> NonceCache \<Rightarrow> (string + UsbDeviceInfo) \<times> NonceCache" where
  "authorize L show_err cfg file now devices get_opt h seen =
     (case authenticate L cfg file now h seen of
        (Inl e, seen') \<Rightarrow> (Inl e, seen')
      | (Inr _, seen') \<Rightarrow>
          (case locate_device cfg devices h of
             Inl e \<Rightarrow> (Inl e, seen')
           | Inr device \<Rightarrow> (check_lease show_err h device (get_opt (he_device h)), seen')))"

section \<open>The session table\<close>

definition entry_or_default :: "string \<Rightarrow> Exporter \<Rightarrow> DeviceSessions" where
  "entry_or_default name s = (case map_of (ex_sessions s) name of None \<Rightarrow> default_sessions | Some ds \<Rightarrow> ds)"

definition set_entry :: "string \<Rightarrow> DeviceSessions \<Rightarrow> Exporter \<Rightarrow> Exporter" where
  "set_entry name ds s = s\<lparr>ex_sessions := bt_insert name ds (ex_sessions s)\<rparr>"

definition cancel_token :: "nat \<Rightarrow> Exporter \<Rightarrow> Exporter" where
  "cancel_token tok s = s\<lparr>ex_cancelled := tok # ex_cancelled s\<rparr>"

definition begin_session :: "Hello \<Rightarrow> UsbDeviceInfo \<Rightarrow> string \<Rightarrow> Exporter \<Rightarrow> Session \<times> Exporter" where
  "begin_session h device claim s =
     (let entry = entry_or_default (he_device h) s;
          s1 = (case ds_active entry of None \<Rightarrow> s | Some previous \<Rightarrow> cancel_token (as_cancel previous) s);
          sid = ex_next_id s1;
          cancel = ex_next_token s1;
          s2 = s1\<lparr>ex_next_id := sid + 1, ex_next_token := Suc cancel\<rparr>;
          active = \<lparr>as_id = sid, as_claim = claim, as_bus_dev = bus_dev device, as_cancel = cancel\<rparr>
      in (\<lparr>se_hello = h, se_info = device, se_id = sid, se_token = cancel\<rparr>,
          set_entry (he_device h) (entry\<lparr>ds_active := Some active\<rparr>) s2))"

definition end_session :: "string \<Rightarrow> u64 \<Rightarrow> Exporter \<Rightarrow> Exporter" where
  "end_session device sid s =
     (case map_of (ex_sessions s) device of
        None \<Rightarrow> s
      | Some entry \<Rightarrow>
          if is_some_and (\<lambda>a. as_id a = sid) (ds_active entry)
          then set_entry device (entry\<lparr>ds_active := None\<rparr>) s else s)"

text \<open>One round of \<open>end_sessions_of_removed_devices\<close>, over all entries of the table.\<close>

definition sweep_removed :: "LocalDevices \<Rightarrow> Exporter \<Rightarrow> Exporter" where
  "sweep_removed devices s =
     fold (\<lambda>(name, ds) st.
       case ds_active ds of
         None \<Rightarrow> st
       | Some active \<Rightarrow>
           if is_none_or (\<lambda>d. bus_dev d \<noteq> as_bus_dev active) (map_of devices name)
           then cancel_token (as_cancel active) st else st) (ex_sessions s) s"

section \<open>The usbredirect process\<close>

definition STDERR_TAIL_LINES :: nat where
  "STDERR_TAIL_LINES = 5"

text \<open>One line of the loop of \<open>forward_stderr\<close>.\<close>

definition push_line :: "string \<Rightarrow> string list \<Rightarrow> string list" where
  "push_line line tail = (if length tail = STDERR_TAIL_LINES then tl tail else tail) @ [line]"

definition forward_stderr :: "string list \<Rightarrow> string list" where
  "forward_stderr lines = fold push_line lines []"

definition tail_text :: "string list \<Rightarrow> string" where
  "tail_text lines = (if lines = [] then ''no output'' else join '' | '' lines)"

datatype Signal = SIGINT | SIGKILL

text \<open>
  \<open>terminate\<close>: which signals a process gets, given whether it has already exited, still has a
  process id and exits in time.
\<close>

definition terminate :: "bool \<Rightarrow> bool \<Rightarrow> bool \<Rightarrow> Signal list" where
  "terminate exited has_pid exits_in_time =
     (if exited then []
      else (if has_pid then [SIGINT] else []) @ (if exits_in_time then [] else [SIGKILL]))"

datatype ServeEvent =
    BindFailed
  | SpawnFailed string
  | Spawned
  | ChildConnected
  | AcceptFailed
  | ChildExited string "string list"
  | WaitFailed
  | OpenTimedOut
  | CancelSeen
  | ReplySent
  | ReplyFailed
  | StreamEnded
  | Terminated
  | RefusalWritten

text \<open>
  \<open>serve\<close> as a machine. An error that leaves through \<open>?\<close> drops the process, which kills it.
  \<open>ChildExited\<close> carries the exit status and the lines the process wrote to its standard error.
\<close>

fun serve_step :: "AgentConfig \<Rightarrow> bool \<Rightarrow> ServePc \<Rightarrow> ServeEvent \<Rightarrow> ServePc option" where
  "serve_step cfg cancelled Starting ev =
     (case ev of
        BindFailed \<Rightarrow> Some Served
      | SpawnFailed err \<Rightarrow> Some (Replying (''cannot start '' @ cfg_usbredirect cfg @ '': '' @ err))
      | Spawned \<Rightarrow> Some Opening
      | _ \<Rightarrow> None)"
| "serve_step cfg cancelled Opening ev =
     (case ev of
        ChildConnected \<Rightarrow> Some Greeting
      | AcceptFailed \<Rightarrow> Some Served
      | ChildExited status stderr \<Rightarrow>
          Some (Replying (''usbredirect exited ('' @ status @ ''): '' @ tail_text (forward_stderr stderr)))
      | WaitFailed \<Rightarrow> Some Served
      | OpenTimedOut \<Rightarrow> Some (Stopping (Some ''usbredirect did not open the device in time''))
      | CancelSeen \<Rightarrow> if cancelled then Some (Stopping (Some ''session cancelled'')) else None
      | _ \<Rightarrow> None)"
| "serve_step cfg cancelled Greeting ev =
     (case ev of ReplySent \<Rightarrow> Some Streaming | ReplyFailed \<Rightarrow> Some Served | _ \<Rightarrow> None)"
| "serve_step cfg cancelled Streaming ev =
     (case ev of
        StreamEnded \<Rightarrow> Some (Stopping None)
      | ChildExited status stderr \<Rightarrow> Some (Stopping None)
      | CancelSeen \<Rightarrow> if cancelled then Some (Stopping None) else None
      | _ \<Rightarrow> None)"
| "serve_step cfg cancelled (Stopping refusal) ev =
     (case ev of
        Terminated \<Rightarrow> Some (case refusal of None \<Rightarrow> Served | Some reason \<Rightarrow> Replying reason)
      | _ \<Rightarrow> None)"
| "serve_step cfg cancelled (Replying reason) ev = (case ev of RefusalWritten \<Rightarrow> Some Served | _ \<Rightarrow> None)"
| "serve_step cfg cancelled Served ev = None"

section \<open>The handler\<close>

datatype HandshakeOutcome = GotHello Hello | GotError IoError | TimedOut

text \<open>The events: those of the accept loop, of the watch on the local devices, and of one handler each.\<close>

datatype HandlerEvent =
    Handshake HandshakeOutcome
  | Authenticate "string + bytes" i64
  | Locate
  | LeaseReply string "KubeError + UsbDevice option"
  | Begin
  | Reject
  | BusyAcquired
  | BusyTimedOut
  | CheckToken
  | Serve ServeEvent
  | Release
  | End

datatype Event = Accept | PublishLocal LocalDevices | SweepRemoved | Handler nat HandlerEvent

fun show_io_error :: "IoError \<Rightarrow> string" where
  "show_io_error UnexpectedEof = ''early eof''"
| "show_io_error (InvalidData e) = e"
| "show_io_error (OtherIo e) = e"

text \<open>The replies: a refusal with its reason, and the one that starts the stream.\<close>

definition reject_reply :: "string \<Rightarrow> Reply" where
  "reject_reply reason = \<lparr>re_ok = False, re_error = Some reason\<rparr>"

definition accept_reply :: Reply where
  "accept_reply = \<lparr>re_ok = True, re_error = None\<rparr>"

definition after_handshake :: "HandshakeOutcome \<Rightarrow> Pc" where
  "after_handshake outcome =
     (case outcome of
        GotHello h \<Rightarrow> Received h
      | GotError UnexpectedEof \<Rightarrow> Done
      | GotError e \<Rightarrow> Rejecting (''bad handshake: '' @ show_io_error e)
      | TimedOut \<Rightarrow> Rejecting ''handshake timeout'')"

definition or_reject :: "('a \<Rightarrow> Pc) \<Rightarrow> string + 'a \<Rightarrow> Pc" where
  "or_reject next r = (case r of Inl reason \<Rightarrow> Rejecting reason | Inr v \<Rightarrow> next v)"

definition set_busy :: "string \<Rightarrow> nat option \<Rightarrow> Exporter \<Rightarrow> Exporter" where
  "set_busy name holder s = set_entry name (entry_or_default name s\<lparr>ds_busy := holder\<rparr>) s"

text \<open>What one handler step does to the shared state and where the handler goes; \<^const>\<open>None\<close> when the event
  cannot happen there.\<close>

fun handler_step ::
  "Lib \<Rightarrow> (KubeError \<Rightarrow> string) \<Rightarrow> AgentConfig \<Rightarrow> nat \<Rightarrow> Pc \<Rightarrow> HandlerEvent \<Rightarrow> Exporter \<Rightarrow> (Pc \<times> Exporter) option" where
  "handler_step L show_err cfg k Handshaking ev s =
     (case ev of Handshake outcome \<Rightarrow> Some (after_handshake outcome, s) | _ \<Rightarrow> None)"
| "handler_step L show_err cfg k (Received h) ev s =
     (case ev of
        Authenticate file now \<Rightarrow>
          let (r, seen) = authenticate L cfg file now h (ex_nonces s)
          in Some (or_reject (\<lambda>_. Authenticated h) r, s\<lparr>ex_nonces := seen\<rparr>)
      | _ \<Rightarrow> None)"
| "handler_step L show_err cfg k (Authenticated h) ev s =
     (case ev of
        Locate \<Rightarrow> Some (or_reject (Located h) (locate_device cfg (ex_local s) h), s)
      | _ \<Rightarrow> None)"
| "handler_step L show_err cfg k (Located h device) ev s =
     (case ev of
        LeaseReply name reply \<Rightarrow>
          if name = he_device h then Some (or_reject (Authorized h) (check_lease show_err h device reply), s) else None
      | _ \<Rightarrow> None)"
| "handler_step L show_err cfg k (Authorized h device) ev s =
     (case ev of
        Begin \<Rightarrow> let (se, s') = begin_session h device (claim_text h) s in Some (AwaitingBusy se, s')
      | _ \<Rightarrow> None)"
| "handler_step L show_err cfg k (Rejecting reason) ev s = (case ev of Reject \<Rightarrow> Some (Done, s) | _ \<Rightarrow> None)"
| "handler_step L show_err cfg k (AwaitingBusy se) ev s =
     (case ev of
        BusyAcquired \<Rightarrow>
          if ds_busy (entry_or_default (se_device se) s) = None
          then Some (HasBusy se, set_busy (se_device se) (Some k) s) else None
      | BusyTimedOut \<Rightarrow> Some (NotStopped se, s)
      | _ \<Rightarrow> None)"
| "handler_step L show_err cfg k (HasBusy se) ev s =
     (case ev of
        CheckToken \<Rightarrow> Some (if se_token se \<in> set (ex_cancelled s) then Superseded se else Serving se Starting, s)
      | _ \<Rightarrow> None)"
| "handler_step L show_err cfg k (Serving se pc) ev s =
     (case ev of
        Serve e \<Rightarrow>
          map_option (\<lambda>pc'. (Serving se pc', s)) (serve_step cfg (se_token se \<in> set (ex_cancelled s)) pc e)
      | Release \<Rightarrow> if pc = Served then Some (Leaving se, set_busy (se_device se) None s) else None
      | _ \<Rightarrow> None)"
| "handler_step L show_err cfg k (Superseded se) ev s =
     (case ev of Release \<Rightarrow> Some (Leaving se, set_busy (se_device se) None s) | _ \<Rightarrow> None)"
| "handler_step L show_err cfg k (NotStopped se) ev s = (case ev of Release \<Rightarrow> Some (Leaving se, s) | _ \<Rightarrow> None)"
| "handler_step L show_err cfg k (Leaving se) ev s =
     (case ev of End \<Rightarrow> Some (Done, end_session (se_device se) (se_id se) s) | _ \<Rightarrow> None)"
| "handler_step L show_err cfg k Done ev s = None"

fun ex_step :: "Lib \<Rightarrow> (KubeError \<Rightarrow> string) \<Rightarrow> AgentConfig \<Rightarrow> Exporter \<Rightarrow> Event \<Rightarrow> Exporter option" where
  "ex_step L show_err cfg s Accept =
     Some (s\<lparr>ex_tasks := (ex_tasks s)(ex_next_task s \<mapsto> Handshaking), ex_next_task := Suc (ex_next_task s)\<rparr>)"
| "ex_step L show_err cfg s (PublishLocal devices) = Some (s\<lparr>ex_local := devices\<rparr>)"
| "ex_step L show_err cfg s SweepRemoved = Some (sweep_removed (ex_local s) s)"
| "ex_step L show_err cfg s (Handler k ev) =
     (case ex_tasks s k of
        None \<Rightarrow> None
      | Some pc \<Rightarrow>
          (case handler_step L show_err cfg k pc ev s of
             None \<Rightarrow> None
           | Some (pc', s') \<Rightarrow> Some (s'\<lparr>ex_tasks := (ex_tasks s')(k \<mapsto> pc')\<rparr>)))"

inductive exporter_run :: "Lib \<Rightarrow> (KubeError \<Rightarrow> string) \<Rightarrow> AgentConfig \<Rightarrow> Event list \<Rightarrow> Exporter \<Rightarrow> bool"
  for L show_err cfg where
  start: "exporter_run L show_err cfg [] (exporter_new devices)"
| step: "exporter_run L show_err cfg events s \<Longrightarrow> ex_step L show_err cfg s ev = Some s' \<Longrightarrow>
    exporter_run L show_err cfg (events @ [ev]) s'"

section \<open>How the steps change the session table\<close>

abbreviation busy_of :: "Exporter \<Rightarrow> string \<Rightarrow> nat option" where
  "busy_of s name \<equiv> ds_busy (entry_or_default name s)"

abbreviation active_of :: "Exporter \<Rightarrow> string \<Rightarrow> ActiveSession option" where
  "active_of s name \<equiv> ds_active (entry_or_default name s)"

fun session_of :: "Pc \<Rightarrow> Session option" where
  "session_of (AwaitingBusy se) = Some se"
| "session_of (HasBusy se) = Some se"
| "session_of (Superseded se) = Some se"
| "session_of (Serving se _) = Some se"
| "session_of (NotStopped se) = Some se"
| "session_of (Leaving se) = Some se"
| "session_of _ = None"

fun guarded :: "Pc \<Rightarrow> bool" where
  "guarded (HasBusy _) = True"
| "guarded (Superseded _) = True"
| "guarded (Serving _ _) = True"
| "guarded _ = False"

text \<open>The handler owns a running \<open>usbredirect\<close> process.\<close>

fun child_running :: "Pc \<Rightarrow> bool" where
  "child_running (Serving _ Opening) = True"
| "child_running (Serving _ Greeting) = True"
| "child_running (Serving _ Streaming) = True"
| "child_running (Serving _ (Stopping _)) = True"
| "child_running _ = False"

lemma child_running_guarded: "child_running pc \<Longrightarrow> guarded pc"
  by (cases pc) auto

lemma guarded_session: "guarded pc \<Longrightarrow> \<exists>se. session_of pc = Some se"
  by (cases pc) auto

lemma entry_set_entry [simp]:
  "entry_or_default name (set_entry n ds s) = (if name = n then ds else entry_or_default name s)"
  by (simp add: entry_or_default_def set_entry_def map_of_bt_insert)

lemma set_entry_fields [simp]:
  "ex_tasks (set_entry n ds s) = ex_tasks s" "ex_cancelled (set_entry n ds s) = ex_cancelled s"
  "ex_next_id (set_entry n ds s) = ex_next_id s" "ex_next_token (set_entry n ds s) = ex_next_token s"
  "ex_next_task (set_entry n ds s) = ex_next_task s" "ex_local (set_entry n ds s) = ex_local s"
  by (simp_all add: set_entry_def)

lemma set_busy_fields [simp]:
  "ex_tasks (set_busy n h s) = ex_tasks s" "ex_cancelled (set_busy n h s) = ex_cancelled s"
  "ex_next_id (set_busy n h s) = ex_next_id s" "ex_next_token (set_busy n h s) = ex_next_token s"
  "ex_next_task (set_busy n h s) = ex_next_task s"
  "busy_of (set_busy n h s) name = (if name = n then h else busy_of s name)"
  "active_of (set_busy n h s) name = active_of s name"
  by (simp_all add: set_busy_def)

lemma entry_irrelevant [simp]:
  "entry_or_default name (s\<lparr>ex_nonces := v1\<rparr>) = entry_or_default name s"
  "entry_or_default name (s\<lparr>ex_tasks := v2\<rparr>) = entry_or_default name s"
  "entry_or_default name (s\<lparr>ex_local := v3\<rparr>) = entry_or_default name s"
  "entry_or_default name (s\<lparr>ex_next_task := v4\<rparr>) = entry_or_default name s"
  "entry_or_default name (s\<lparr>ex_next_id := v5\<rparr>) = entry_or_default name s"
  "entry_or_default name (s\<lparr>ex_next_token := v6\<rparr>) = entry_or_default name s"
  "entry_or_default name (s\<lparr>ex_cancelled := v7\<rparr>) = entry_or_default name s"
  "entry_or_default name (cancel_token tok s) = entry_or_default name s"
  by (simp_all add: entry_or_default_def cancel_token_def)

lemma cancel_token_fields [simp]:
  "ex_tasks (cancel_token tok s) = ex_tasks s" "ex_cancelled (cancel_token tok s) = tok # ex_cancelled s"
  "ex_next_id (cancel_token tok s) = ex_next_id s" "ex_next_token (cancel_token tok s) = ex_next_token s"
  "ex_next_task (cancel_token tok s) = ex_next_task s" "ex_sessions (cancel_token tok s) = ex_sessions s"
  by (simp_all add: cancel_token_def)

lemma begin_session_eq:
  assumes "begin_session h device claim s = (se, s')"
  shows "se = \<lparr>se_hello = h, se_info = device, se_id = ex_next_id s, se_token = ex_next_token s\<rparr>"
    and "ex_tasks s' = ex_tasks s" and "ex_next_id s' = ex_next_id s + 1" and "ex_next_token s' = Suc (ex_next_token s)"
    and "set (ex_cancelled s') = set (ex_cancelled s) \<union> as_cancel ` set_option (active_of s (he_device h))"
    and "busy_of s' name = busy_of s name"
    and "active_of s' name = (if name = he_device h
      then Some \<lparr>as_id = ex_next_id s, as_claim = claim, as_bus_dev = bus_dev device, as_cancel = ex_next_token s\<rparr>
      else active_of s name)"
    and "ex_next_task s' = ex_next_task s"
  using assms by (auto simp: begin_session_def Let_def split: option.splits)

lemma end_session_eq [simp]:
  "ex_tasks (end_session d sid s) = ex_tasks s" "ex_cancelled (end_session d sid s) = ex_cancelled s"
  "ex_next_id (end_session d sid s) = ex_next_id s" "ex_next_token (end_session d sid s) = ex_next_token s"
  "ex_next_task (end_session d sid s) = ex_next_task s"
  "busy_of (end_session d sid s) name = busy_of s name"
  "active_of (end_session d sid s) name =
     (if name = d \<and> is_some_and (\<lambda>a. as_id a = sid) (active_of s d) then None else active_of s name)"
  by (auto simp: end_session_def entry_or_default_def set_entry_def map_of_bt_insert default_sessions_def split: option.splits)

lemma fold_cancel_tokens:
  fixes dead :: "string \<times> DeviceSessions \<Rightarrow> nat option"
  defines "f \<equiv> \<lambda>e st. case dead e of None \<Rightarrow> st | Some tok \<Rightarrow> cancel_token tok st"
  shows "ex_sessions (fold f es s) = ex_sessions s" and "ex_tasks (fold f es s) = ex_tasks s"
    and "ex_next_id (fold f es s) = ex_next_id s" and "ex_next_token (fold f es s) = ex_next_token s"
    and "ex_next_task (fold f es s) = ex_next_task s"
    and "set (ex_cancelled (fold f es s)) = set (ex_cancelled s) \<union> {tok. \<exists>e \<in> set es. dead e = Some tok}"
proof -
  show "ex_sessions (fold f es s) = ex_sessions s" "ex_tasks (fold f es s) = ex_tasks s"
    "ex_next_id (fold f es s) = ex_next_id s" "ex_next_token (fold f es s) = ex_next_token s"
    "ex_next_task (fold f es s) = ex_next_task s"
    by (induction es arbitrary: s) (auto simp: f_def split: option.splits)
  show "set (ex_cancelled (fold f es s)) = set (ex_cancelled s) \<union> {tok. \<exists>e \<in> set es. dead e = Some tok}"
    by (induction es arbitrary: s) (auto simp: f_def split: option.splits)
qed

text \<open>The token an entry loses to a sweep.\<close>

definition dead_token :: "LocalDevices \<Rightarrow> string \<times> DeviceSessions \<Rightarrow> nat option" where
  "dead_token devices e =
     (case ds_active (snd e) of
        None \<Rightarrow> None
      | Some a \<Rightarrow> if is_none_or (\<lambda>d. bus_dev d \<noteq> as_bus_dev a) (map_of devices (fst e)) then Some (as_cancel a) else None)"

lemma sweep_removed_alt:
  "sweep_removed devices s =
     fold (\<lambda>e st. case dead_token devices e of None \<Rightarrow> st | Some tok \<Rightarrow> cancel_token tok st) (ex_sessions s) s"
  unfolding sweep_removed_def
  by (intro fold_cong) (auto simp: dead_token_def fun_eq_iff split: option.splits)

lemma sweep_removed_eq [simp]:
  "ex_tasks (sweep_removed devices s) = ex_tasks s" "ex_next_id (sweep_removed devices s) = ex_next_id s"
  "ex_next_token (sweep_removed devices s) = ex_next_token s" "ex_next_task (sweep_removed devices s) = ex_next_task s"
  "entry_or_default name (sweep_removed devices s) = entry_or_default name s"
  "set (ex_cancelled (sweep_removed devices s)) =
     set (ex_cancelled s) \<union> {tok. \<exists>e \<in> set (ex_sessions s). dead_token devices e = Some tok}"
  unfolding sweep_removed_alt by (simp_all add: fold_cancel_tokens entry_or_default_def)

definition same_table :: "Exporter \<Rightarrow> Exporter \<Rightarrow> bool" where
  "same_table s s' \<longleftrightarrow> ex_sessions s' = ex_sessions s \<and> ex_tasks s' = ex_tasks s \<and> ex_cancelled s' = ex_cancelled s \<and>
     ex_next_id s' = ex_next_id s \<and> ex_next_token s' = ex_next_token s \<and> ex_next_task s' = ex_next_task s"

lemma same_tableD:
  assumes "same_table s s'"
  shows "ex_tasks s' = ex_tasks s" "ex_cancelled s' = ex_cancelled s" "ex_next_id s' = ex_next_id s"
    "ex_next_token s' = ex_next_token s" "entry_or_default name s' = entry_or_default name s"
    "ex_next_task s' = ex_next_task s"
  using assms by (simp_all add: same_table_def entry_or_default_def)

lemma same_table_simps [simp]: "same_table s s" "same_table s (s\<lparr>ex_nonces := seen\<rparr>)"
  by (simp_all add: same_table_def)

text \<open>The six ways a handler moves.\<close>

lemma step_before_session:
  assumes "handler_step L show_err cfg k pc ev s = Some (pc', s')" and "session_of pc = None" and "\<And>h device. pc \<noteq> Authorized h device"
  shows "session_of pc' = None \<and> same_table s s'"
  using assms
  by (cases pc) (auto simp: or_reject_def after_handshake_def
      split: HandlerEvent.splits HandshakeOutcome.splits IoError.splits prod.splits sum.splits if_splits)

lemma step_awaiting_busy:
  assumes "handler_step L show_err cfg k (AwaitingBusy se) ev s = Some (pc', s')"
  shows "pc' = HasBusy se \<and> busy_of s (se_device se) = None \<and> s' = set_busy (se_device se) (Some k) s \<or> pc' = NotStopped se \<and> s' = s"
  using assms by (cases ev) (simp_all split: if_splits)

lemma step_serving:
  assumes "handler_step L show_err cfg k (Serving se spc) ev s = Some (pc', s')"
  shows "(\<exists>spc'. pc' = Serving se spc' \<and> s' = s) \<or> pc' = Leaving se \<and> s' = set_busy (se_device se) None s"
  using assms by (cases ev) (auto split: if_splits)

lemma handler_step_cases [consumes 1, case_names before begun acquire stay release finish]:
  assumes "handler_step L show_err cfg k pc ev s = Some (pc', s')"
  obtains
    "session_of pc = None" "session_of pc' = None" "same_table s s'"
  | h device se where "pc = Authorized h device" "pc' = AwaitingBusy se" "begin_session h device (claim_text h) s = (se, s')"
  | se where "pc = AwaitingBusy se" "pc' = HasBusy se" "busy_of s (se_device se) = None"
      "s' = set_busy (se_device se) (Some k) s"
  | se where "session_of pc = Some se" "session_of pc' = Some se" "guarded pc' = guarded pc" "s' = s"
  | se where "guarded pc" "session_of pc = Some se" "pc' = Leaving se" "s' = set_busy (se_device se) None s"
  | se where "pc = Leaving se" "pc' = Done" "s' = end_session (se_device se) (se_id se) s"
proof (cases pc)
  case (Authorized h device)
  with assms obtain se where "pc' = AwaitingBusy se" "begin_session h device (claim_text h) s = (se, s')"
    by (auto split: HandlerEvent.splits prod.splits)
  with Authorized show ?thesis by (intro that(2)) simp_all
next
  case (AwaitingBusy se)
  from step_awaiting_busy [OF assms [unfolded AwaitingBusy]] show ?thesis
    using that(3) [OF AwaitingBusy] that(4) [of se] AwaitingBusy by auto
next
  case (HasBusy se)
  with assms show ?thesis by (intro that(4) [of se]) (auto split: HandlerEvent.splits if_splits)
next
  case (Superseded se)
  with assms show ?thesis by (intro that(5) [of se]) (auto split: HandlerEvent.splits)
next
  case (Serving se spc)
  from step_serving [OF assms [unfolded Serving]] show ?thesis
    using that(4,5) [of se] Serving by auto
next
  case (NotStopped se)
  with assms show ?thesis by (intro that(4) [of se]) (auto split: HandlerEvent.splits)
next
  case (Leaving se)
  with assms show ?thesis by (intro that(6) [of se]) (auto split: HandlerEvent.splits)
qed (use that(1) step_before_session [OF assms] in simp_all)

lemma ex_step_handler:
  assumes "ex_step L show_err cfg s (Handler j e) = Some s'"
  obtains pc pc' s1 where "ex_tasks s j = Some pc" "handler_step L show_err cfg j pc e s = Some (pc', s1)"
    "s' = s1\<lparr>ex_tasks := (ex_tasks s1)(j \<mapsto> pc')\<rparr>" "ex_tasks s1 = ex_tasks s" "ex_next_task s1 = ex_next_task s"
proof -
  from assms obtain pc pc' s1 where j: "ex_tasks s j = Some pc"
    and hs: "handler_step L show_err cfg j pc e s = Some (pc', s1)"
    and s': "s' = s1\<lparr>ex_tasks := (ex_tasks s1)(j \<mapsto> pc')\<rparr>"
    by (auto split: option.splits)
  have "ex_tasks s1 = ex_tasks s \<and> ex_next_task s1 = ex_next_task s"
    using hs by (cases rule: handler_step_cases) (simp_all add: same_tableD begin_session_eq)
  with that [OF j hs s'] show ?thesis by simp
qed

section \<open>One session per device\<close>

definition lock_ok :: "Exporter \<Rightarrow> bool" where
  "lock_ok s \<longleftrightarrow> (\<forall>k pc se. ex_tasks s k = Some pc \<longrightarrow> guarded pc \<longrightarrow> session_of pc = Some se \<longrightarrow>
     busy_of s (se_device se) = Some k)"

lemma lockD:
  "lock_ok s \<Longrightarrow> ex_tasks s k = Some pc \<Longrightarrow> guarded pc \<Longrightarrow> session_of pc = Some se \<Longrightarrow>
   busy_of s (se_device se) = Some k"
  by (simp add: lock_ok_def)

lemma lock_ok_step:
  assumes "lock_ok s" and "ex_step L show_err cfg s ev = Some s'"
  shows "lock_ok s'"
proof (cases ev)
  case (Handler k e)
  with assms(2) obtain pc pc' s1 where pc: "ex_tasks s k = Some pc"
    and step: "handler_step L show_err cfg k pc e s = Some (pc', s1)"
    and s': "s' = s1\<lparr>ex_tasks := (ex_tasks s1)(k \<mapsto> pc')\<rparr>"
    by (auto elim: ex_step_handler simp del: ex_step.simps)
  from step show ?thesis
  proof (cases rule: handler_step_cases)
    case before
    have "\<not> guarded pc'" using before(2) guarded_session [of pc'] by auto
    with assms(1) before show ?thesis
      unfolding lock_ok_def s' by (auto simp: same_tableD [OF before(3)] split: if_splits)
  next
    case (begun h device se)
    note b = begin_session_eq [OF begun(3)]
    from assms(1) begun show ?thesis unfolding lock_ok_def s' by (auto simp: b)
  next
    case (acquire se)
    have "se_device se' \<noteq> se_device se" if "ex_tasks s j = Some pcj" "guarded pcj" "session_of pcj = Some se'" for j pcj se'
      using lockD [OF assms(1) that] acquire(3) by auto
    with assms(1) acquire show ?thesis unfolding lock_ok_def s' by (auto split: if_splits)
  next
    case (stay se)
    with assms(1) pc show ?thesis unfolding lock_ok_def s' by (auto split: if_splits)
  next
    case (release se)
    have "j = k" if "ex_tasks s j = Some pcj" "guarded pcj" "session_of pcj = Some se'" "se_device se' = se_device se" for j pcj se'
      using lockD [OF assms(1) that(1-3)] lockD [OF assms(1) pc release(1,2)] that(4) by simp
    with assms(1) release show ?thesis unfolding lock_ok_def s' by (auto split: if_splits)
  next
    case (finish se)
    with assms(1) show ?thesis unfolding lock_ok_def s' by auto
  qed
qed (use assms in \<open>auto simp: lock_ok_def split: if_splits\<close>)

lemma lock_ok_run: "exporter_run L show_err cfg events s \<Longrightarrow> lock_ok s"
  by (induction rule: exporter_run.induct) (auto simp: exporter_new_def intro: lock_ok_step, simp add: lock_ok_def)

section \<open>A session that is not registered has been cancelled\<close>

definition registered :: "Exporter \<Rightarrow> Session \<Rightarrow> bool" where
  "registered s se \<longleftrightarrow> (\<exists>a. active_of s (se_device se) = Some a \<and> as_cancel a = se_token se \<and>
     as_bus_dev a = bus_dev (se_info se) \<and> as_claim a = claim_text (se_hello se))"

definition numbered :: "Exporter \<Rightarrow> nat \<Rightarrow> u64 \<Rightarrow> bool" where
  "numbered s tok sid \<longleftrightarrow> tok < ex_next_token s \<and> sid = of_nat (Suc tok)"

definition sessions_ok :: "Exporter \<Rightarrow> bool" where
  "sessions_ok s \<longleftrightarrow>
     ex_next_id s = of_nat (Suc (ex_next_token s)) \<and>
     (\<forall>name a. active_of s name = Some a \<longrightarrow> numbered s (as_cancel a) (as_id a)) \<and>
     (\<forall>k pc se. ex_tasks s k = Some pc \<longrightarrow> session_of pc = Some se \<longrightarrow>
        numbered s (se_token se) (se_id se) \<and> (se_token se \<in> set (ex_cancelled s) \<or> registered s se)) \<and>
     (\<forall>k k' pc pc' se se'. ex_tasks s k = Some pc \<longrightarrow> session_of pc = Some se \<longrightarrow>
        ex_tasks s k' = Some pc' \<longrightarrow> session_of pc' = Some se' \<longrightarrow> se_token se = se_token se' \<longrightarrow> k = k')"

lemma numbered_inj:
  assumes "ex_next_token s < 2 ^ 64" and "numbered s t sid" and "numbered s t' sid"
  shows "t = t'"
proof -
  from assms have "unat (of_nat (Suc t) :: u64) = unat (of_nat (Suc t') :: u64)" by (simp add: numbered_def)
  moreover from assms have "Suc t < 2 ^ 64" "Suc t' < 2 ^ 64" by (simp_all add: numbered_def)
  ultimately show ?thesis by (simp add: unat_of_nat del: of_nat_Suc)
qed

text \<open>Steps that leave the counters and the registered sessions alone and begin no session.\<close>

lemma sessions_ok_mono:
  assumes "sessions_ok s"
    and "ex_next_id s' = ex_next_id s" and "ex_next_token s' = ex_next_token s"
    and "\<And>name. active_of s' name = active_of s name" and "set (ex_cancelled s) \<subseteq> set (ex_cancelled s')"
    and "\<And>k pc' se. ex_tasks s' k = Some pc' \<Longrightarrow> session_of pc' = Some se \<Longrightarrow>
        \<exists>pc. ex_tasks s k = Some pc \<and> session_of pc = Some se"
  shows "sessions_ok s'"
  using assms(1) unfolding sessions_ok_def numbered_def registered_def assms(2-4)
  by (meson assms(5,6) subsetD)

lemma sessions_ok_begin:
  assumes ok: "sessions_ok s" and b: "begin_session h device (claim_text h) s = (se, s1)" and pc: "ex_tasks s k = Some (Authorized h device)"
  shows "sessions_ok (s1\<lparr>ex_tasks := (ex_tasks s1)(k \<mapsto> AwaitingBusy se)\<rparr>)" (is "sessions_ok ?s")
proof -
  note e = begin_session_eq [OF b]
  have others: "se_token se' < ex_next_token s" if "ex_tasks s j = Some pcj" "session_of pcj = Some se'" for j pcj se'
    using ok that by (auto simp: sessions_ok_def numbered_def)
  have "numbered ?s (as_cancel a) (as_id a)" if "active_of ?s name = Some a" for name a
    using ok that by (auto simp: e sessions_ok_def numbered_def less_Suc_eq split: if_splits)
  moreover have "numbered ?s (se_token x) (se_id x) \<and> (se_token x \<in> set (ex_cancelled ?s) \<or> registered ?s x)"
    if "ex_tasks ?s j = Some pcj" "session_of pcj = Some x" for j pcj x
  proof (cases "j = k")
    case True
    with that have "x = se" by auto
    then show ?thesis using ok by (simp add: e numbered_def registered_def sessions_ok_def)
  next
    case False
    with that have j: "ex_tasks s j = Some pcj" by (simp add: e)
    with ok that(2) have "numbered s (se_token x) (se_id x)" "se_token x \<in> set (ex_cancelled s) \<or> registered s x"
      by (auto simp: sessions_ok_def)
    then show ?thesis
      by (cases "se_device x = he_device h") (auto simp: e numbered_def registered_def)
  qed
  moreover have "j = j'" if "ex_tasks ?s j = Some pcj" "session_of pcj = Some x" "ex_tasks ?s j' = Some pcj'"
    "session_of pcj' = Some x'" "se_token x = se_token x'" for j j' pcj pcj' x x'
  proof -
    have new: "se_token se = ex_next_token s" by (simp add: e)
    show ?thesis
      using that ok others [of j pcj x] others [of j' pcj' x'] new
      by (auto simp: e sessions_ok_def split: if_splits)
  qed
  moreover have "ex_next_id ?s = of_nat (Suc (ex_next_token ?s))"
    using ok by (simp add: e sessions_ok_def)
  ultimately show ?thesis unfolding sessions_ok_def by blast
qed

lemma sessions_ok_finish:
  assumes ok: "sessions_ok s" and bound: "ex_next_token s < 2 ^ 64" and pc: "ex_tasks s k = Some (Leaving se)"
  shows "sessions_ok ((end_session (se_device se) (se_id se) s)\<lparr>ex_tasks := (ex_tasks s)(k \<mapsto> Done)\<rparr>)" (is "sessions_ok ?s")
proof -
  have num: "numbered s (se_token se) (se_id se)" using ok pc by (auto simp: sessions_ok_def)
  have sub: "ex_tasks s j = Some pcj \<and> j \<noteq> k" if "ex_tasks ?s j = Some pcj" "session_of pcj = Some x" for j pcj x
    using that by (auto split: if_splits)
  have kept: "registered ?s x" if "ex_tasks s j = Some pcj" "j \<noteq> k" "session_of pcj = Some x" "registered s x" for j pcj x
  proof -
    from that(4) obtain a where a: "active_of s (se_device x) = Some a" "as_cancel a = se_token x"
      by (auto simp: registered_def)
    with ok have "numbered s (se_token x) (as_id a)" by (force simp: sessions_ok_def)
    moreover have "se_token x \<noteq> se_token se" using ok pc that by (auto simp: sessions_ok_def)
    ultimately have "as_id a \<noteq> se_id se" using numbered_inj [OF bound _ num] by auto
    with that(4) a show ?thesis by (auto simp: registered_def)
  qed
  have tasks: "numbered ?s (se_token x) (se_id x) \<and> (se_token x \<in> set (ex_cancelled ?s) \<or> registered ?s x)"
    if "ex_tasks ?s j = Some pcj" "session_of pcj = Some x" for j pcj x
  proof -
    have "numbered s (se_token x) (se_id x) \<and> (se_token x \<in> set (ex_cancelled s) \<or> registered s x)"
      using ok sub [OF that] that(2) unfolding sessions_ok_def by blast
    with kept sub [OF that] that(2) show ?thesis by (auto simp: numbered_def)
  qed
  have distinct: "j = j'" if "ex_tasks ?s j = Some pcj" "session_of pcj = Some x" "ex_tasks ?s j' = Some pcj'"
    "session_of pcj' = Some x'" "se_token x = se_token x'" for j j' pcj pcj' x x'
    using ok sub [OF that(1,2)] sub [OF that(3,4)] that(2,4,5) by (auto simp: sessions_ok_def)
  have active: "numbered ?s (as_cancel a) (as_id a)" if "active_of ?s name = Some a" for name a
    using ok that by (auto simp: sessions_ok_def numbered_def split: if_splits)
  have "ex_next_id ?s = of_nat (Suc (ex_next_token ?s))" using ok by (simp add: sessions_ok_def)
  with tasks distinct active show ?thesis unfolding sessions_ok_def by blast
qed

lemma sessions_ok_step:
  assumes ok: "sessions_ok s" and bound: "ex_next_token s < 2 ^ 64" and "ex_step L show_err cfg s ev = Some s'"
  shows "sessions_ok s'"
proof (cases ev)
  case (Handler k e)
  with assms(3) obtain pc pc' s1 where pc: "ex_tasks s k = Some pc"
    and step: "handler_step L show_err cfg k pc e s = Some (pc', s1)"
    and s': "s' = s1\<lparr>ex_tasks := (ex_tasks s1)(k \<mapsto> pc')\<rparr>"
    by (auto elim: ex_step_handler simp del: ex_step.simps)
  from step show ?thesis
  proof (cases rule: handler_step_cases)
    case before
    then show ?thesis unfolding s'
      by (intro sessions_ok_mono [OF ok]) (auto simp: same_tableD [OF before(3)] split: if_splits)
  next
    case (begun h device se)
    with pc sessions_ok_begin [OF ok begun(3)] show ?thesis by (simp add: s')
  next
    case (acquire se)
    then show ?thesis unfolding s' by (intro sessions_ok_mono [OF ok]) (auto simp: pc split: if_splits)
  next
    case (stay se)
    then show ?thesis unfolding s' by (intro sessions_ok_mono [OF ok]) (auto simp: pc split: if_splits)
  next
    case (release se)
    then show ?thesis unfolding s' by (intro sessions_ok_mono [OF ok]) (auto simp: pc split: if_splits)
  next
    case (finish se)
    with pc sessions_ok_finish [OF ok bound] show ?thesis by (simp add: s')
  qed
qed (use assms in \<open>auto intro!: sessions_ok_mono [OF ok] split: if_splits\<close>)

lemma ex_step_tokens: "ex_step L show_err cfg s ev = Some s' \<Longrightarrow> ex_next_token s \<le> ex_next_token s'"
proof (cases ev)
  case (Handler k e)
  moreover assume "ex_step L show_err cfg s ev = Some s'"
  ultimately obtain pc pc' s1 where "handler_step L show_err cfg k pc e s = Some (pc', s1)"
    and "ex_next_token s' = ex_next_token s1"
    by (auto split: option.splits)
  then show ?thesis
    by (cases rule: handler_step_cases) (auto simp: same_tableD begin_session_eq)
qed auto

lemma sessions_ok_run:
  "exporter_run L show_err cfg events s \<Longrightarrow> ex_next_token s < 2 ^ 64 \<Longrightarrow> sessions_ok s"
proof (induction rule: exporter_run.induct)
  case (start devices)
  then show ?case by (simp add: sessions_ok_def exporter_new_def entry_or_default_def default_sessions_def)
next
  case (step events s ev s')
  then have "ex_next_token s < 2 ^ 64" using ex_step_tokens [OF step.hyps(2)] by simp
  with step show ?case by (blast intro: sessions_ok_step)
qed

end
