(* ===== verification/ExportSafety.thy ===== *)
theory ExportSafety
  imports Exporter
begin

text \<open>
  The properties of the exporter: what authorization requires, that a captured handshake cannot be replayed, that at most
  one \<open>usbredirect\<close> process serves a device, that a superseded session is cancelled, that nothing is
  streamed without a lease, and what a sweep of removed devices leaves. How long a handler takes is in theory
  \<open>ExportTimed\<close>.
\<close>

section \<open>Authorization\<close>

definition lease_matches :: "Hello \<Rightarrow> UsbDevice \<Rightarrow> bool" where
  "lease_matches h obj \<longleftrightarrow> (\<exists>lease. st_attached_to (status_ref obj) = Some lease \<and>
     at_claim_uid lease = cr_uid (he_claim h) \<and> at_namespace lease = cr_namespace (he_claim h) \<and>
     at_claim lease = cr_name (he_claim h))"

lemma check_lease_Inr:
  "check_lease show_err h device reply = Inr d \<longleftrightarrow> d = device \<and> (\<exists>obj. reply = Inr (Some obj) \<and> lease_matches h obj)"
  by (auto simp: check_lease_def lease_matches_def split: sum.splits option.splits)

lemma authenticate_Inr:
  "fst (authenticate L cfg file now h seen) = Inr () \<longleftrightarrow>
     (\<exists>psk. read_psk (cfg_psk_file cfg) file = Inr psk \<and> verify L h psk now = Inr ()) \<and>
     fst (check_and_insert seen (he_nonce h) (he_timestamp h) now) = Inr ()"
  by (auto simp: authenticate_def split: sum.splits prod.splits)

text \<open>
  A connection is authorized exactly when the pre-shared key is readable and long enough, the request
  verifies under it, its nonce is new, the device is plugged in here and the API, asked last and afresh, says that the device is
  leased to the very claim the request names (uid, namespace and name); then it gets that device.
\<close>

theorem authorize_iff:
  "fst (authorize L show_err cfg file now devices get_opt h seen) = Inr d \<longleftrightarrow>
     (\<exists>psk obj. read_psk (cfg_psk_file cfg) file = Inr psk \<and> verify L h psk now = Inr () \<and>
        fst (check_and_insert seen (he_nonce h) (he_timestamp h) now) = Inr () \<and>
        map_of devices (he_device h) = Some d \<and>
        get_opt (he_device h) = Inr (Some obj) \<and> lease_matches h obj)"
proof -
  have "fst (authorize L show_err cfg file now devices get_opt h seen) = Inr d \<longleftrightarrow>
      fst (authenticate L cfg file now h seen) = Inr () \<and>
      (\<exists>dev. locate_device cfg devices h = Inr dev \<and> check_lease show_err h dev (get_opt (he_device h)) = Inr d)"
    by (auto simp: authorize_def split: prod.splits sum.splits)
  then show ?thesis
    by (auto simp: authenticate_Inr check_lease_Inr locate_device_def split: option.splits)
qed

section \<open>Replays\<close>

text \<open>A history of requests, each with the key file, the clock and the request.\<close>

fun authenticate_all ::
  "Lib \<Rightarrow> AgentConfig \<Rightarrow> ((string + bytes) \<times> i64 \<times> Hello) list \<Rightarrow> NonceCache \<Rightarrow> (string + unit) list \<times> NonceCache" where
  "authenticate_all L cfg [] seen = ([], seen)"
| "authenticate_all L cfg ((file, now, h) # reqs) seen =
     (let (r, seen') = authenticate L cfg file now h seen;
          (rs, seen'') = authenticate_all L cfg reqs seen'
      in (r # rs, seen''))"

text \<open>Only a verified request reaches the cache, so an entry survives a request unless the entry is stale.\<close>

lemma authenticate_remembers:
  assumes "sane_clock now" and "seen n = Some ts" and "clock_skew now ts \<le> MAX_CLOCK_SKEW_SECS"
  shows "snd (authenticate L cfg file now h seen) n = Some ts"
proof -
  have t: "\<bar>sint now\<bar> \<le> 2 ^ 61" and w: "word_of_int (sint now) = now"
    using assms(1) by (auto simp: sane_clock_def)
  then have "live_at (sint now) ts" using assms(3) by (simp add: live_at_def)
  then have "snd (admit_nonce seen (he_nonce h) (he_timestamp h) (sint now)) n = Some ts"
    using assms(2) by (intro nonces.keeps_live) simp_all
  then have "snd (check_and_insert seen (he_nonce h) (he_timestamp h) now) n = Some ts"
    by (simp add: admit_nonce_def Let_def w)
  with assms(2) show ?thesis by (auto simp: authenticate_def split: sum.splits prod.splits)
qed

lemma authenticate_admits:
  assumes "fst (authenticate L cfg file now h seen) = Inr ()"
  shows "snd (authenticate L cfg file now h seen) (he_nonce h) = Some (he_timestamp h)"
    and "clock_skew now (he_timestamp h) \<le> MAX_CLOCK_SKEW_SECS"
proof -
  from assms obtain psk where psk: "read_psk (cfg_psk_file cfg) file = Inr psk" and v: "verify L h psk now = Inr ()"
    and c: "fst (check_and_insert seen (he_nonce h) (he_timestamp h) now) = Inr ()"
    by (auto simp: authenticate_Inr)
  from v show "clock_skew now (he_timestamp h) \<le> MAX_CLOCK_SKEW_SECS" by (simp add: verify_Inr)
  from c have "snd (check_and_insert seen (he_nonce h) (he_timestamp h) now) (he_nonce h) = Some (he_timestamp h)"
    by (auto simp: check_and_insert_def Let_def split: if_splits)
  with c show "snd (authenticate L cfg file now h seen) (he_nonce h) = Some (he_timestamp h)"
    by (auto simp: authenticate_def psk v split: prod.splits sum.splits)
qed

lemma authenticate_refuses:
  assumes "seen (he_nonce h) = Some ts" and "clock_skew now ts \<le> MAX_CLOCK_SKEW_SECS"
  shows "fst (authenticate L cfg file now h seen) \<noteq> Inr ()"
  using assms by (auto simp: authenticate_Inr check_and_insert_def Let_def retain_def)

lemma authenticate_all_remembers:
  assumes "seen n = Some ts" and "\<forall>(file, now, h) \<in> set reqs. sane_clock now \<and> clock_skew now ts \<le> MAX_CLOCK_SKEW_SECS"
  shows "snd (authenticate_all L cfg reqs seen) n = Some ts"
  using assms
proof (induction L cfg reqs seen rule: authenticate_all.induct)
  case (2 L cfg f now h reqs seen)
  have "snd (authenticate L cfg f now h seen) n = Some ts"
    using 2(2,3) by (intro authenticate_remembers) auto
  with 2 show ?case by (auto split: prod.splits)
qed simp

lemma authenticate_all_Cons:
  "fst (authenticate_all L cfg ((f, now, h) # reqs) seen) =
     fst (authenticate L cfg f now h seen) # fst (authenticate_all L cfg reqs (snd (authenticate L cfg f now h seen)))"
  by (auto split: prod.splits)

lemma authenticate_all_append:
  "fst (authenticate_all L cfg (xs @ ys) seen) =
     fst (authenticate_all L cfg xs seen) @ fst (authenticate_all L cfg ys (snd (authenticate_all L cfg xs seen)))"
  by (induction L cfg xs seen rule: authenticate_all.induct) (auto split: prod.splits)

lemma length_authenticate_all [simp]: "length (fst (authenticate_all L cfg reqs seen)) = length reqs"
  by (induction L cfg reqs seen rule: authenticate_all.induct) (auto split: prod.splits)

text \<open>
  Property C16: a captured handshake cannot be replayed. However requests are interleaved, if the exporter's clock does
  not run backwards, then of two requests with the same nonce and timestamp, copies of one another for
  instance, the later is refused once the earlier was accepted: either its nonce is still remembered or its timestamp is
  too old by then. This covers timestamps for which the freshness check wraps around.
\<close>

theorem replay_is_refused:
  assumes "reqs = before @ (file, t, h) # between @ [(file', t', h')]"
    and "\<forall>(f, now, g) \<in> set ((file, t, h) # between @ [(file', t', h')]). sane_clock now \<and> sint t \<le> sint now \<and> sint now \<le> sint t'"
    and "he_nonce h' = he_nonce h" and "he_timestamp h' = he_timestamp h"
    and "fst (authenticate_all L cfg reqs seen) ! length before = Inr ()"
  shows "last (fst (authenticate_all L cfg reqs seen)) \<noteq> Inr ()"
proof
  define s0 where "s0 = snd (authenticate_all L cfg before seen)"
  define s1 where "s1 = snd (authenticate L cfg file t h s0)"
  define s2 where "s2 = snd (authenticate_all L cfg between s1)"
  let ?ts = "he_timestamp h"
  assume accepted: "last (fst (authenticate_all L cfg reqs seen)) = Inr ()"
  have results: "fst (authenticate_all L cfg reqs seen) =
      fst (authenticate_all L cfg before seen) @ fst (authenticate L cfg file t h s0) #
      fst (authenticate_all L cfg between s1) @ [fst (authenticate L cfg file' t' h' s2)]"
    by (simp add: assms(1) authenticate_all_append authenticate_all_Cons s0_def s1_def s2_def del: authenticate_all.simps(2))
  with assms(5) have first: "fst (authenticate L cfg file t h s0) = Inr ()" by (simp add: nth_append)
  from accepted results have second: "fst (authenticate L cfg file' t' h' s2) = Inr ()" by simp
  note seen1 = authenticate_admits [OF first, folded s1_def]
  from second have late: "clock_skew t' ?ts \<le> MAX_CLOCK_SKEW_SECS"
    using authenticate_admits(2) assms(4) by metis
  have "sane_clock now \<and> clock_skew now ?ts \<le> MAX_CLOCK_SKEW_SECS" if "(f, now, g) \<in> set between" for f now g
    using that assms(2) seen1(2) late skew_convex [of t now t' ?ts] by fastforce
  then have "s2 (he_nonce h) = Some ?ts"
    unfolding s2_def using seen1(1) by (intro authenticate_all_remembers) auto
  with authenticate_refuses [of s2 h' ?ts t'] late second assms(3) show False by metis
qed

section \<open>The tail of the error output\<close>

lemma push_line_last:
  "length t \<le> 5 \<Longrightarrow> push_line line t = drop (length (t @ [line]) - 5) (t @ [line])"
  by (cases t) (auto simp: push_line_def STDERR_TAIL_LINES_def)

text \<open>
  What is reported of the process's error output is exactly its last five lines, however many it wrote.
\<close>

theorem stderr_tail_is_last_lines: "forward_stderr lines = drop (length lines - STDERR_TAIL_LINES) lines"
proof (induction lines rule: rev_induct)
  case (snoc line lines)
  then have "forward_stderr (lines @ [line]) = push_line line (drop (length lines - 5) lines)"
    by (simp add: forward_stderr_def STDERR_TAIL_LINES_def)
  also have "\<dots> = drop (length (lines @ [line]) - 5) (lines @ [line])"
  proof (cases "length lines \<le> 4")
    case False
    then have "Suc (length lines - 5) = length lines - 4" by arith
    with False show ?thesis by (simp add: push_line_last)
  qed (simp add: push_line_last)
  finally show ?case by (simp add: STDERR_TAIL_LINES_def)
qed (simp add: forward_stderr_def)

section \<open>Sessions\<close>

text \<open>
  Property C3: at most one \<open>usbredirect\<close> process serves a device: in every state the exporter can reach, however the
  handlers of its connections interleave, two handlers that own a running process for the same device are the same handler.
\<close>

theorem one_process_per_device:
  assumes "exporter_run L show_err cfg events s"
    and "ex_tasks s k = Some pc" and "child_running pc" and "session_of pc = Some se"
    and "ex_tasks s k' = Some pc'" and "child_running pc'" and "session_of pc' = Some se'"
    and "se_device se = se_device se'"
  shows "k = k'"
  using lockD [OF lock_ok_run [OF assms(1)] assms(2) child_running_guarded [OF assms(3)] assms(4)]
    lockD [OF lock_ok_run [OF assms(1)] assms(5) child_running_guarded [OF assms(6)] assms(7)] assms(8)
  by simp

text \<open>
  Property C14: a new session replaces the old one: of all handlers that have begun a session for a device and not ended
  it, at most one has not been told to stop, and that one is the session registered in the table, with
  its claim and its bus address. (Session ids are not reused as long as fewer than 2^64 sessions have been begun.)
\<close>

theorem only_the_registered_session_is_not_cancelled:
  assumes "exporter_run L show_err cfg events s" and "ex_next_token s < 2 ^ 64"
    and "ex_tasks s k = Some pc" and "session_of pc = Some se" and "se_token se \<notin> set (ex_cancelled s)"
  shows "registered s se \<and>
    (\<forall>k' pc' se'. ex_tasks s k' = Some pc' \<and> session_of pc' = Some se' \<and> se_device se' = se_device se \<and>
       se_token se' \<notin> set (ex_cancelled s) \<longrightarrow> k' = k)"
proof -
  note ok = sessions_ok_run [OF assms(1,2)]
  have reg: "registered s x" if "ex_tasks s j = Some pcj" "session_of pcj = Some x" "se_token x \<notin> set (ex_cancelled s)" for j pcj x
    using ok that unfolding sessions_ok_def by blast
  have "k' = k" if "ex_tasks s k' = Some pc'" "session_of pc' = Some se'" "se_device se' = se_device se"
    "se_token se' \<notin> set (ex_cancelled s)" for k' pc' se'
  proof -
    have "se_token se' = se_token se"
      using reg [OF that(1,2,4)] reg [OF assms(3-5)] that(3) by (auto simp: registered_def)
    with ok that(1,2) assms(3,4) show ?thesis unfolding sessions_ok_def by blast
  qed
  with reg [OF assms(3-5)] show ?thesis by blast
qed

text \<open>
  Once a change of the local devices has been swept, every session that has not been told to stop serves
  a device that is still plugged in under the same bus address.
\<close>

theorem sweep_leaves_present_devices:
  assumes "exporter_run L show_err cfg events s" and "ex_next_token s < 2 ^ 64"
    and "ex_step L show_err cfg s SweepRemoved = Some s'"
    and "ex_tasks s' k = Some pc" and "session_of pc = Some se" and "se_token se \<notin> set (ex_cancelled s')"
  shows "\<exists>d. map_of (ex_local s) (se_device se) = Some d \<and> bus_dev d = bus_dev (se_info se)"
proof -
  from assms(3) have s': "s' = sweep_removed (ex_local s) s" by simp
  have "ex_tasks s k = Some pc" using assms(4) s' by simp
  moreover have "se_token se \<notin> set (ex_cancelled s)" using assms(6) by (simp add: s')
  ultimately have "registered s se"
    using sessions_ok_run [OF assms(1,2)] assms(5) unfolding sessions_ok_def by blast
  then obtain a where a: "active_of s (se_device se) = Some a" "as_cancel a = se_token se" "as_bus_dev a = bus_dev (se_info se)"
    by (auto simp: registered_def)
  then obtain ds where ds: "map_of (ex_sessions s) (se_device se) = Some ds" "ds_active ds = Some a"
    by (auto simp: entry_or_default_def default_sessions_def split: option.splits)
  then have "dead_token (ex_local s) (se_device se, ds) \<noteq> Some (se_token se)"
    using assms(6) map_of_SomeD [OF ds(1)] by (auto simp: s')
  with ds(2) a(2,3) show ?thesis by (auto simp: dead_token_def is_none_or_iff split: if_splits)
qed

section \<open>Nothing is streamed without a lease\<close>

fun verified_hello :: "Pc \<Rightarrow> Hello option" where
  "verified_hello (Authenticated h) = Some h"
| "verified_hello (Located h _) = Some h"
| "verified_hello (Authorized h _) = Some h"
| "verified_hello pc = map_option se_hello (session_of pc)"

fun leased_hello :: "Pc \<Rightarrow> Hello option" where
  "leased_hello (Authorized h _) = Some h"
| "leased_hello pc = map_option se_hello (session_of pc)"

definition evidence :: "Lib \<Rightarrow> AgentConfig \<Rightarrow> Event list \<Rightarrow> nat \<Rightarrow> Pc \<Rightarrow> bool" where
  "evidence L cfg events k pc \<longleftrightarrow>
     (\<forall>h. verified_hello pc = Some h \<longrightarrow>
        (\<exists>file now psk. Handler k (Authenticate file now) \<in> set events \<and> read_psk (cfg_psk_file cfg) file = Inr psk \<and>
           verify L h psk now = Inr ())) \<and>
     (\<forall>h. leased_hello pc = Some h \<longrightarrow>
        (\<exists>obj. Handler k (LeaseReply (he_device h) (Inr (Some obj))) \<in> set events \<and> lease_matches h obj))"

lemma evidence_mono: "evidence L cfg events k pc \<Longrightarrow> evidence L cfg (events @ [ev]) k pc"
  unfolding evidence_def by (metis UnCI set_append)

lemma evidence_same:
  "evidence L cfg events k pc \<Longrightarrow> verified_hello pc' = verified_hello pc \<Longrightarrow> leased_hello pc' = leased_hello pc \<Longrightarrow>
   evidence L cfg events k pc'"
  by (simp add: evidence_def)

lemma session_hellos: "session_of pc = Some se \<Longrightarrow> verified_hello pc = Some (se_hello se) \<and> leased_hello pc = Some (se_hello se)"
  by (cases pc) auto

lemma no_evidence_needed: "session_of pc = None \<Longrightarrow> verified_hello pc = None \<Longrightarrow> evidence L cfg events k pc"
  by (cases pc) (auto simp: evidence_def)

lemma evidence_session:
  assumes "evidence L cfg events k pc" and "handler_step L show_err cfg k pc ev s = Some (pc', s')" and "session_of pc = Some se"
  shows "evidence L cfg (events @ [Handler k ev]) k pc'"
  using assms(2)
proof (cases rule: handler_step_cases)
  case (finish se')
  then show ?thesis by (simp add: no_evidence_needed)
qed (use assms(3) evidence_mono [OF assms(1), of "Handler k ev"] in \<open>auto elim!: evidence_same simp: session_hellos\<close>)

lemma evidence_authenticated:
  assumes "handler_step L show_err cfg k (Received h) ev s = Some (pc', s')"
  shows "evidence L cfg (events @ [Handler k ev]) k pc'"
proof -
  from assms obtain f now where ev: "ev = Authenticate f now"
    and pc': "pc' = or_reject (\<lambda>_. Authenticated h) (fst (authenticate L cfg f now h (ex_nonces s)))"
    by (auto split: HandlerEvent.splits prod.splits)
  show ?thesis
  proof (cases "fst (authenticate L cfg f now h (ex_nonces s))")
    case (Inr u)
    then have "fst (authenticate L cfg f now h (ex_nonces s)) = Inr ()" by simp
    with pc' ev show ?thesis unfolding authenticate_Inr by (auto simp: evidence_def or_reject_def Inr)
  qed (simp add: pc' or_reject_def no_evidence_needed)
qed

lemma evidence_leased:
  assumes "evidence L cfg events k (Located h device)" and "handler_step L show_err cfg k (Located h device) ev s = Some (pc', s')"
  shows "evidence L cfg (events @ [Handler k ev]) k pc'"
proof -
  from assms(2) obtain reply where ev: "ev = LeaseReply (he_device h) reply"
    and pc': "pc' = or_reject (Authorized h) (check_lease show_err h device reply)"
    by (auto split: HandlerEvent.splits if_splits)
  show ?thesis
  proof (cases "check_lease show_err h device reply")
    case (Inr d)
    with evidence_mono [OF assms(1), of "Handler k ev"] pc' ev show ?thesis
      unfolding check_lease_Inr by (auto simp: evidence_def or_reject_def Inr)
  qed (simp add: pc' or_reject_def no_evidence_needed)
qed

lemma evidence_handler:
  assumes "evidence L cfg events k pc" and "handler_step L show_err cfg k pc ev s = Some (pc', s')"
  shows "evidence L cfg (events @ [Handler k ev]) k pc'"
proof (cases "session_of pc")
  case (Some se)
  then show ?thesis by (rule evidence_session [OF assms])
next
  case None
  note mono = evidence_mono [OF assms(1), of "Handler k ev"]
  show ?thesis
  proof (cases pc)
    case Handshaking
    with assms(2) show ?thesis
      by (intro no_evidence_needed)
        (auto simp: after_handshake_def split: HandlerEvent.splits HandshakeOutcome.splits IoError.splits)
  next
    case (Authenticated h)
    with assms have "pc' = or_reject (Located h) (locate_device cfg (ex_local s) h)"
      by (auto split: HandlerEvent.splits)
    with mono Authenticated show ?thesis
      by (auto simp: or_reject_def evidence_def split: sum.splits)
  next
    case (Authorized h device)
    with assms obtain se where "pc' = AwaitingBusy se" "se_hello se = h"
      by (auto dest: begin_session_eq(1) split: HandlerEvent.splits prod.splits)
    with mono Authorized show ?thesis by (elim evidence_same) simp_all
  next
    case (Rejecting r)
    with assms(2) show ?thesis by (intro no_evidence_needed) (auto split: HandlerEvent.splits)
  qed (use None assms evidence_authenticated evidence_leased in auto)
qed

lemma evidence_run:
  "exporter_run L show_err cfg events s \<Longrightarrow> ex_tasks s k = Some pc \<Longrightarrow> evidence L cfg events k pc"
proof (induction arbitrary: k pc rule: exporter_run.induct)
  case (step events s ev s')
  show ?case
  proof (cases ev)
    case (Handler j e)
    with step.hyps(2) obtain pcj pcj' s1 where j: "ex_tasks s j = Some pcj"
      and hs: "handler_step L show_err cfg j pcj e s = Some (pcj', s1)"
      and s': "s' = s1\<lparr>ex_tasks := (ex_tasks s1)(j \<mapsto> pcj')\<rparr>"
      by (auto split: option.splits)
    have tasks: "ex_tasks s1 = ex_tasks s"
      using hs by (cases rule: handler_step_cases) (simp_all add: same_tableD begin_session_eq)
    show ?thesis
    proof (cases "k = j")
      case True
      with step.prems s' have "pc = pcj'" by simp
      with evidence_handler [OF step.IH [OF j] hs] show ?thesis by (simp add: True Handler)
    next
      case False
      with step.prems s' tasks have "ex_tasks s k = Some pc" by simp
      then show ?thesis by (intro evidence_mono step.IH)
    qed
  qed (use step in \<open>auto intro: evidence_mono simp: no_evidence_needed split: if_splits\<close>)
qed (simp add: exporter_new_def)

text \<open>
  Property C4: no device is served without a lease: for every handler that has begun a session, in any reachable state, the
  exporter has verified this very request under the pre-shared key and has, in the same connection, been told by the
  API, asked for the device the request names, that it is leased to the claim the request names.
\<close>

theorem no_session_without_lease:
  assumes "exporter_run L show_err cfg events s" and "ex_tasks s k = Some pc" and "session_of pc = Some se"
  shows "(\<exists>file now psk. Handler k (Authenticate file now) \<in> set events \<and>
      read_psk (cfg_psk_file cfg) file = Inr psk \<and> verify L (se_hello se) psk now = Inr ()) \<and>
    (\<exists>obj. Handler k (LeaseReply (se_device se) (Inr (Some obj))) \<in> set events \<and> lease_matches (se_hello se) obj)"
  using evidence_run [OF assms(1,2)] session_hellos [OF assms(3)] by (auto simp: evidence_def)

section \<open>A sample run\<close>

fun run_events :: "Lib \<Rightarrow> (KubeError \<Rightarrow> string) \<Rightarrow> AgentConfig \<Rightarrow> Exporter \<Rightarrow> Event list \<Rightarrow> Exporter option" where
  "run_events L show_err cfg s [] = Some s"
| "run_events L show_err cfg s (ev # events) =
     (case ex_step L show_err cfg s ev of None \<Rightarrow> None | Some s' \<Rightarrow> run_events L show_err cfg s' events)"

lemma run_events_run:
  "exporter_run L show_err cfg done s \<Longrightarrow> run_events L show_err cfg s events = Some s' \<Longrightarrow>
   exporter_run L show_err cfg (done @ events) s'"
proof (induction events arbitrary: "done" s)
  case (Cons ev events)
  then obtain s1 where "ex_step L show_err cfg s ev = Some s1" "run_events L show_err cfg s1 events = Some s'"
    by (auto split: option.splits)
  with Cons.IH [of "done @ [ev]" s1] Cons.prems(1) show ?case by (simp add: exporter_run.step)
qed simp

definition sample_info :: UsbDeviceInfo where
  "sample_info =
     \<lparr>ui_port_path = ''1-1'', ui_bus_num = 1, ui_dev_num = 2, ui_vendor_id = ''1a86'', ui_product_id = ''7523'',
      ui_serial = None, ui_manufacturer = None, ui_product = None, ui_bcd_device = None, ui_device_class = 0,
      ui_interface_classes = [], ui_speed = None\<rparr>"

definition leased_to :: "ClaimRef \<Rightarrow> UsbDevice" where
  "leased_to c =
     \<lparr>ud_metadata = \<lparr>om_name = Some ''dev-a'', om_name_any = ''dev-a'', om_namespace = None, om_uid = Some ''u'', om_resource_version = Some ''1'',
        om_generation = None, om_creation_timestamp = None, om_deletion_timestamp = None, om_owner_references = [], om_labels = []\<rparr>,
      ud_spec = \<lparr>ds_vendor_id = ''1a86'', ds_product_id = ''7523'', ds_serial = None, ds_manufacturer = None, ds_product = None,
        ds_bcd_device = None, ds_identity = PortPath\<rparr>,
      ud_status = Some (EMPTY_STATUS\<lparr>st_attached_to := Some \<lparr>at_namespace = cr_namespace c, at_claim = cr_name c,
        at_claim_uid = cr_uid c, at_vm_name = ''vm'', at_since = ''now''\<rparr>\<rparr>)\<rparr>"

definition sample_local :: LocalDevices where
  "sample_local = [(''dev-a'', sample_info)]"

abbreviation sample_show :: "KubeError \<Rightarrow> string" where
  "sample_show \<equiv> \<lambda>_. ''error''"

text \<open>A second claim, whose request has another nonce.\<close>

definition other_claim_ref :: ClaimRef where
  "other_claim_ref = \<lparr>cr_namespace = ''default'', cr_name = ''usb-other'', cr_uid = ''77aa''\<rparr>"

definition other_hello :: Hello where
  "other_hello = hello_new sample_lib ''other'' sample_psk ''dev-a'' other_claim_ref 1000"

definition authorize_events :: "nat \<Rightarrow> Hello \<Rightarrow> Event list" where
  "authorize_events k h =
     [Accept, Handler k (Handshake (GotHello h)), Handler k (Authenticate (Inr sample_psk) 1010), Handler k Locate,
      Handler k (LeaseReply (he_device h) (Inr (Some (leased_to (he_claim h)))))]"

definition serve_events :: "nat \<Rightarrow> Event list" where
  "serve_events k = [Handler k Begin, Handler k BusyAcquired, Handler k CheckToken, Handler k (Serve Spawned)]"

lemma sample_key: "read_psk p (Inr sample_psk) = Inr sample_psk"
proof -
  have "trim_ascii sample_psk = sample_psk" "16 \<le> length sample_psk" by code_simp+
  then show ?thesis by (simp add: read_psk_def)
qed

lemma sample_authenticate:
  assumes "h = hello_new sample_lib random sample_psk device claim 1000" and "seen (he_nonce h) = None"
  shows "fst (authenticate sample_lib cfg (Inr sample_psk) 1010 h seen) = Inr ()"
  using assms verify_hello_new [OF hex_sample] sample_clocks(3)
  by (auto simp: authenticate_Inr sample_key check_and_insert_def Let_def retain_def)

lemma run_events_append:
  "run_events L show_err cfg s (xs @ ys) =
     (case run_events L show_err cfg s xs of None \<Rightarrow> None | Some s' \<Rightarrow> run_events L show_err cfg s' ys)"
  by (induction xs arbitrary: s) (auto split: option.splits)

lemma leased_lease: "check_lease show_err h d (Inr (Some (leased_to (he_claim h)))) = Inr d"
  by (simp add: check_lease_Inr lease_matches_def leased_to_def status_ref_def)

text \<open>A request with a fresh nonce is authorized.\<close>

lemma authorize_run:
  assumes h: "h = hello_new sample_lib random sample_psk ''dev-a'' claim 1000" and "ex_nonces s (he_nonce h) = None"
    and "ex_local s = sample_local" and "k = ex_next_task s"
  shows "\<exists>seen. run_events sample_lib sample_show sample_cfg s (authorize_events k h) =
    Some (s\<lparr>ex_nonces := seen, ex_tasks := (ex_tasks s)(k \<mapsto> Authorized h sample_info), ex_next_task := Suc k\<rparr>) \<and>
    seen = snd (authenticate sample_lib sample_cfg (Inr sample_psk) 1010 h (ex_nonces s))"
proof -
  define r where "r = authenticate sample_lib sample_cfg (Inr sample_psk) 1010 h (ex_nonces s)"
  obtain seen where r: "r = (Inr (), seen)"
    using sample_authenticate [OF h, of "ex_nonces s" sample_cfg] assms(2) by (cases r) (auto simp: r_def)
  have "he_device h = ''dev-a''" by (simp add: h)
  then show ?thesis
    using assms(3,4) r leased_lease [of _ h]
    by (simp add: authorize_events_def after_handshake_def or_reject_def locate_device_def sample_local_def
        split: prod.splits flip: r_def)
qed

lemma authenticate_only_adds:
  "seen n = None \<Longrightarrow> n \<noteq> he_nonce h \<Longrightarrow> snd (authenticate L cfg f now h seen) n = None"
  by (auto simp: authenticate_def check_and_insert_def Let_def retain_def split: sum.splits prod.splits if_splits)

lemma sample_nonces: "he_nonce other_hello \<noteq> he_nonce sample_hello"
proof -
  have "hex_encode sample_lib ''other'' \<noteq> hex_encode sample_lib ''nonce''"
  proof
    assume eq: "hex_encode sample_lib ''other'' = hex_encode sample_lib ''nonce''"
    have "hex_decode sample_lib (hex_encode sample_lib b) = Some b" for b
      using hex_sample by (simp add: hex_contract_def)
    from this [of "''other''"] this [of "''nonce''"] eq show False by simp
  qed
  then show ?thesis by (simp add: other_hello_def sample_hello_def)
qed

definition sample_session :: Session where
  "sample_session = \<lparr>se_hello = sample_hello, se_info = sample_info, se_id = 1, se_token = 0\<rparr>"

definition other_session :: Session where
  "other_session = \<lparr>se_hello = other_hello, se_info = sample_info, se_id = 1, se_token = 0\<rparr>"

lemma sample_devices [simp]: "he_device sample_hello = ''dev-a''" "he_device other_hello = ''dev-a''"
  by (simp_all add: sample_hello_def other_hello_def)

lemma serve_run:
  assumes "ex_tasks s k = Some (Authorized h sample_info)" and "he_device h = ''dev-a''" and "ex_sessions s = []"
    and "ex_cancelled s = []" and "ex_next_id s = 1" and "ex_next_token s = 0"
  shows "\<exists>s'. run_events L show_err cfg s (serve_events k) = Some s' \<and>
    ex_tasks s' = (ex_tasks s)(k \<mapsto> Serving \<lparr>se_hello = h, se_info = sample_info, se_id = 1, se_token = 0\<rparr> Opening) \<and>
    ex_cancelled s' = [] \<and> ex_next_token s' = 1 \<and>
    ex_sessions s' = [(''dev-a'', \<lparr>ds_busy = Some k, ds_active = Some \<lparr>as_id = 1, as_claim = claim_text h,
      as_bus_dev = bus_dev sample_info, as_cancel = 0\<rparr>\<rparr>)] \<and> ex_local s' = ex_local s"
  using assms
  by (simp add: serve_events_def begin_session_def entry_or_default_def default_sessions_def set_busy_def set_entry_def Let_def)

lemma sample_start: "exporter_run sample_lib sample_show sample_cfg [] (exporter_new sample_local)"
  by (rule exporter_run.start)

lemma sample_authorized:
  "\<exists>s. run_events sample_lib sample_show sample_cfg (exporter_new sample_local) (authorize_events 0 sample_hello) = Some s \<and>
     ex_tasks s = [0 \<mapsto> Authorized sample_hello sample_info] \<and> ex_sessions s = [] \<and> ex_cancelled s = [] \<and>
     ex_next_id s = 1 \<and> ex_next_token s = 0 \<and> ex_next_task s = 1 \<and> ex_local s = sample_local \<and>
     ex_nonces s (he_nonce other_hello) = None"
proof -
  have "\<exists>seen. run_events sample_lib sample_show sample_cfg (exporter_new sample_local) (authorize_events 0 sample_hello) =
    Some ((exporter_new sample_local)\<lparr>ex_nonces := seen, ex_tasks := (ex_tasks (exporter_new sample_local))(0 \<mapsto> Authorized sample_hello sample_info),
      ex_next_task := Suc 0\<rparr>) \<and>
    seen = snd (authenticate sample_lib sample_cfg (Inr sample_psk) 1010 sample_hello (ex_nonces (exporter_new sample_local)))"
    by (rule authorize_run [OF sample_hello_def]) (simp_all add: exporter_new_def)
  moreover have "snd (authenticate sample_lib sample_cfg (Inr sample_psk) 1010 sample_hello (ex_nonces (exporter_new sample_local)))
      (he_nonce other_hello) = None"
    by (intro authenticate_only_adds sample_nonces) (simp add: exporter_new_def)
  ultimately show ?thesis by (auto simp: exporter_new_def)
qed

definition sample_events :: "Event list" where
  "sample_events = authorize_events 0 sample_hello @ serve_events 0"

lemma sample_served:
  "\<exists>s. exporter_run sample_lib sample_show sample_cfg sample_events s \<and>
     ex_tasks s 0 = Some (Serving sample_session Opening) \<and> dom (ex_tasks s) = {0} \<and>
     ex_cancelled s = [] \<and> ex_next_token s = 1 \<and> ex_local s = sample_local \<and>
     ex_sessions s = [(''dev-a'', \<lparr>ds_busy = Some 0, ds_active = Some \<lparr>as_id = 1, as_claim = claim_text sample_hello,
       as_bus_dev = bus_dev sample_info, as_cancel = 0\<rparr>\<rparr>)]"
proof -
  obtain s1 where s1: "run_events sample_lib sample_show sample_cfg (exporter_new sample_local) (authorize_events 0 sample_hello) = Some s1"
    "ex_tasks s1 = [0 \<mapsto> Authorized sample_hello sample_info]" "ex_sessions s1 = []" "ex_cancelled s1 = []"
    "ex_next_id s1 = 1" "ex_next_token s1 = 0" "ex_local s1 = sample_local"
    using sample_authorized by auto
  obtain s2 where s2: "run_events sample_lib sample_show sample_cfg s1 (serve_events 0) = Some s2"
    "ex_tasks s2 = (ex_tasks s1)(0 \<mapsto> Serving sample_session Opening)" "ex_cancelled s2 = []" "ex_next_token s2 = 1" "ex_local s2 = ex_local s1"
    "ex_sessions s2 = [(''dev-a'', \<lparr>ds_busy = Some 0, ds_active = Some \<lparr>as_id = 1, as_claim = claim_text sample_hello,
       as_bus_dev = bus_dev sample_info, as_cancel = 0\<rparr>\<rparr>)]"
    using serve_run [of s1 0 sample_hello sample_lib sample_show sample_cfg] s1(2-6) by (auto simp: sample_session_def)
  have "run_events sample_lib sample_show sample_cfg (exporter_new sample_local) sample_events = Some s2"
    by (simp add: sample_events_def run_events_append s1 s2)
  then have "exporter_run sample_lib sample_show sample_cfg sample_events s2" using run_events_run [OF sample_start] by fastforce
  with s1 s2 show ?thesis by (intro exI [of _ s2]) simp
qed

text \<open>
  Property C38: the lease check and the registration of the session are separate steps, and a connection that was authorized
  before the lease moved on can register after the new holder: it then displaces the new holder's session, although
  the API's last word was that the device is leased to the new holder.
\<close>

theorem stale_authorization_displaces_holder:
  "\<exists>s. exporter_run sample_lib sample_show sample_cfg
      (authorize_events 0 sample_hello @ authorize_events 1 other_hello @ serve_events 1 @ [Handler 0 Begin]) s \<and>
     ex_tasks s 1 = Some (Serving other_session Opening) \<and> se_token other_session \<in> set (ex_cancelled s) \<and>
     (\<exists>a. active_of s ''dev-a'' = Some a \<and> as_claim a = claim_text sample_hello)"
proof -
  obtain s1 where s1: "run_events sample_lib sample_show sample_cfg (exporter_new sample_local) (authorize_events 0 sample_hello) = Some s1"
    "ex_tasks s1 = [0 \<mapsto> Authorized sample_hello sample_info]" "ex_sessions s1 = []" "ex_cancelled s1 = []"
    "ex_next_id s1 = 1" "ex_next_token s1 = 0" "ex_next_task s1 = 1" "ex_local s1 = sample_local"
    "ex_nonces s1 (he_nonce other_hello) = None"
    using sample_authorized by auto
  obtain s2 where s2: "run_events sample_lib sample_show sample_cfg s1 (authorize_events 1 other_hello) = Some s2"
    "ex_tasks s2 = (ex_tasks s1)(1 \<mapsto> Authorized other_hello sample_info)" "ex_sessions s2 = []" "ex_cancelled s2 = []"
    "ex_next_id s2 = 1" "ex_next_token s2 = 0"
    using authorize_run [OF other_hello_def s1(9,8), of 1] s1(3-7) by auto
  obtain s3 where s3: "run_events sample_lib sample_show sample_cfg s2 (serve_events 1) = Some s3"
    "ex_tasks s3 = (ex_tasks s2)(1 \<mapsto> Serving other_session Opening)" "map_option as_cancel (active_of s3 ''dev-a'') = Some 0"
    using serve_run [of s2 1 other_hello sample_lib sample_show sample_cfg] s2(2-6) by (auto simp: other_session_def entry_or_default_def)
  obtain se s4 where b: "begin_session sample_hello sample_info (claim_text sample_hello) s3 = (se, s4)" by fastforce
  note e = begin_session_eq [OF b]
  define s5 where "s5 = s4\<lparr>ex_tasks := (ex_tasks s4)(0 \<mapsto> AwaitingBusy se)\<rparr>"
  have "run_events sample_lib sample_show sample_cfg (exporter_new sample_local)
      (authorize_events 0 sample_hello @ authorize_events 1 other_hello @ serve_events 1 @ [Handler 0 Begin]) = Some s5"
    using s3(2) b by (simp add: run_events_append s1(1,2) s2(1,2) s3(1) s5_def del: One_nat_def)
  from run_events_run [OF sample_start this] show ?thesis
    using s3(2,3) by (intro exI [of _ s5]) (auto simp: s5_def e other_session_def)
qed

section \<open>The properties at work\<close>

theorem one_process_per_device_witness:
  "\<exists>s. exporter_run sample_lib sample_show sample_cfg sample_events s \<and>
     {k. \<exists>pc se. ex_tasks s k = Some pc \<and> child_running pc \<and> session_of pc = Some se \<and> se_device se = ''dev-a''} = {0}"
proof -
  obtain s where s: "exporter_run sample_lib sample_show sample_cfg sample_events s" "ex_tasks s 0 = Some (Serving sample_session Opening)"
    using sample_served by blast
  have "k = 0" if "ex_tasks s k = Some pc" "child_running pc" "session_of pc = Some se" "se_device se = ''dev-a''" for k pc se
    by (rule one_process_per_device [OF s(1) that(1-3) s(2), where se' = sample_session]) (simp_all add: that(4) sample_session_def)
  with s show ?thesis by (intro exI [of _ s]) (auto simp: sample_session_def)
qed

theorem only_the_registered_session_is_not_cancelled_witness:
  "\<exists>s. exporter_run sample_lib sample_show sample_cfg sample_events s \<and> registered s sample_session"
  using sample_served only_the_registered_session_is_not_cancelled [of sample_lib sample_show sample_cfg sample_events _ 0 "Serving sample_session Opening"]
  by fastforce

theorem sweep_leaves_present_devices_witness:
  "\<exists>s d. exporter_run sample_lib sample_show sample_cfg sample_events s \<and>
     map_of (ex_local s) ''dev-a'' = Some d \<and> bus_dev d = bus_dev sample_info"
proof -
  obtain s where s: "exporter_run sample_lib sample_show sample_cfg sample_events s" "ex_tasks s 0 = Some (Serving sample_session Opening)"
    "ex_cancelled s = []" "ex_next_token s = 1" "ex_local s = sample_local"
    "ex_sessions s = [(''dev-a'', \<lparr>ds_busy = Some 0, ds_active = Some \<lparr>as_id = 1, as_claim = claim_text sample_hello,
       as_bus_dev = bus_dev sample_info, as_cancel = 0\<rparr>\<rparr>)]"
    using sample_served by blast
  have "se_token sample_session \<notin> set (ex_cancelled (sweep_removed (ex_local s) s))"
    by (simp add: s sample_local_def dead_token_def)
  then show ?thesis
    using sweep_leaves_present_devices [of sample_lib sample_show sample_cfg sample_events s "sweep_removed (ex_local s) s" 0
        "Serving sample_session Opening" sample_session] s
    by (auto simp: sample_session_def)
qed

theorem no_session_without_lease_witness:
  "(\<exists>f now psk. Handler 0 (Authenticate f now) \<in> set sample_events \<and> read_psk ''/psk'' f = Inr psk \<and>
      verify sample_lib sample_hello psk now = Inr ()) \<and>
   (\<exists>obj. Handler 0 (LeaseReply ''dev-a'' (Inr (Some obj))) \<in> set sample_events \<and> lease_matches sample_hello obj)"
proof -
  obtain s where s: "exporter_run sample_lib sample_show sample_cfg sample_events s" "ex_tasks s 0 = Some (Serving sample_session Opening)"
    using sample_served by blast
  then show ?thesis
    using no_session_without_lease [OF s(1,2), of sample_session] by (simp add: sample_session_def sample_cfg_def)
qed

theorem replay_is_refused_witness:
  "last (fst (authenticate_all sample_lib sample_cfg [(Inr sample_psk, 1010, sample_hello), (Inr sample_psk, 1010, sample_hello)] Map.empty)) \<noteq> Inr ()"
proof (rule replay_is_refused [where before = "[]" and between = "[]"])
  show "fst (authenticate_all sample_lib sample_cfg [(Inr sample_psk, 1010, sample_hello), (Inr sample_psk, 1010, sample_hello)] Map.empty) !
      length [] = Inr ()"
    using sample_authenticate [OF sample_hello_def, of Map.empty] by (simp add: authenticate_all_Cons del: authenticate_all.simps(2))
qed (use sample_clocks in auto)

end
