(* ===== verification/BootHold.thy ===== *)
theory BootHold
  imports Api
begin

text \<open>
  The boot hold of \<open>src/controller.rs\<close>: a VM that starts paused is resumed once the devices of
  all claims that hold its boot are ready, or the longest timeout has passed.
  \<open>decide_boot_hold\<close> is the pure decision, \<open>reconcile_boot_hold\<close> applies it:
  it resumes the VM, remembers that it did, and writes the claims' reports. The lock around
  \<open>Ctx::released\<close> is never poisoned (nothing panics while holding it), so the
  branches for a poisoned lock are not modelled.
\<close>

section \<open>The decision\<close>

record BootHoldClaim =
  bc_name :: string
  bc_ready :: bool
  bc_invalid :: bool
  bc_timeout_seconds :: int
  bc_current :: "BootHoldStatus option"

record BootHoldInputs =
  bi_vm :: "VmInfo option"
  bi_vmi :: "VmiInfo option"
  bi_claims :: "BootHoldClaim list"
  bi_already_released :: bool
  bi_now :: seconds

datatype BootHoldAction = Hold string | Release string | NotConfigured string | Nothing

fun max_timeout :: "int list \<Rightarrow> int" where
  "max_timeout [] = 0"
| "max_timeout (t # ts) = fold max ts t"

definition starts_paused :: "VmInfo option \<Rightarrow> VmiInfo option \<Rightarrow> bool" where
  "starts_paused vm vmi \<longleftrightarrow> is_some_and vi_start_paused vmi \<or> is_some_and vm_start_paused vm"

definition waited_secs :: "Lib \<Rightarrow> VmiInfo \<Rightarrow> seconds \<Rightarrow> int" where
  "waited_secs L vmi now = max (case age_secs L (vi_paused_since vmi) now of None \<Rightarrow> 0 | Some a \<Rightarrow> a) 0"

definition decide_boot_hold :: "Lib \<Rightarrow> BootHoldInputs \<Rightarrow> BootHoldAction" where
  "decide_boot_hold L inputs =
     (let holding = filter (\<lambda>c. \<not> bc_invalid c) (bi_claims inputs)
      in if holding = [] then Nothing
         else if bi_vm inputs = None \<and> bi_vmi inputs = None then Nothing
         else if \<not> starts_paused (bi_vm inputs) (bi_vmi inputs) then
           NotConfigured ''the VM does not start paused; set spec.template.spec.startStrategy: Paused in its template to hold its boot''
         else case bi_vmi inputs of
           None \<Rightarrow> Nothing
         | Some vmi \<Rightarrow>
             if \<not> (vi_paused vmi \<and> \<not> vi_deleting vmi) then Nothing
             else if bi_already_released inputs then Nothing
             else
               let missing = map bc_name (filter (\<lambda>c. \<not> bc_ready c) holding)
               in if missing = [] then
                    Release (if length holding = 1 then ''the device is ready''
                             else ''all '' @ show_nat (length holding) @ '' devices are ready'')
                  else
                    let missing = join '', '' missing;
                        forever = list_ex (\<lambda>c. bc_timeout_seconds c = 0) holding;
                        timeout = max_timeout (map bc_timeout_seconds holding);
                        waited = waited_secs L vmi (bi_now inputs)
                    in if \<not> forever \<and> timeout \<le> waited then
                         Release (''gave up after '' @ show_int timeout @ ''s; booting without '' @ missing)
                       else Hold (if forever then ''waiting for '' @ missing
                                  else ''waiting for '' @ missing @ '' ('' @ show_int (timeout - waited) @ ''s left)''))"

section \<open>Applying it\<close>

definition boot_hold_is_stale :: "BootHoldStatus option \<Rightarrow> string option \<Rightarrow> bool" where
  "boot_hold_is_stale current vmi_uid =
     (case current of
        None \<Rightarrow> False
      | Some c \<Rightarrow> \<not> (bh_state c = Released \<and> vmi_uid \<noteq> None \<and> bh_vmi_uid c = vmi_uid))"

definition boot_hold_patch :: "BootHoldStatus option \<Rightarrow> ClaimStatusPatch" where
  "boot_hold_patch b = \<lparr>cp_desired = Keep, cp_boot_hold = Put b\<rparr>"

fun clear_boot_holds :: "Server \<Rightarrow> string \<Rightarrow> BootHoldClaim list \<Rightarrow> bool \<Rightarrow> bool run" where
  "clear_boot_holds srv namespace [] requeue = return requeue"
| "clear_boot_holds srv namespace (claim # claims) requeue =
     and_then (patch_claim_status srv namespace (bc_name claim) (boot_hold_patch None))
       (\<lambda>reply. case reply of
          Inr _ \<Rightarrow> clear_boot_holds srv namespace claims requeue
        | Inl err \<Rightarrow> if is_not_found err then clear_boot_holds srv namespace claims requeue
                     else clear_boot_holds srv namespace claims True)"

definition clear_stale_boot_holds :: "Server \<Rightarrow> string \<Rightarrow> BootHoldClaim list \<Rightarrow> string option \<Rightarrow> bool run" where
  "clear_stale_boot_holds srv namespace claims vmi_uid =
     clear_boot_holds srv namespace (filter (\<lambda>c. boot_hold_is_stale (bc_current c) vmi_uid) claims) False"

definition boot_hold_desired ::
  "Lib \<Rightarrow> BootHoldState \<Rightarrow> string option \<Rightarrow> string \<Rightarrow> seconds \<Rightarrow> BootHoldStatus option \<Rightarrow> BootHoldStatus" where
  "boot_hold_desired L state vmi_uid message now current =
     \<lparr>bh_state = state, bh_vmi_uid = vmi_uid,
      bh_since = (case current of
                    Some c \<Rightarrow> if bh_state c = state \<and> bh_vmi_uid c = vmi_uid then bh_since c else rfc3339 L now
                  | None \<Rightarrow> rfc3339 L now),
      bh_message = Some message\<rparr>"

fun write_boot_holds ::
  "Lib \<Rightarrow> Server \<Rightarrow> string \<Rightarrow> BootHoldState \<Rightarrow> string option \<Rightarrow> string \<Rightarrow> seconds \<Rightarrow> BootHoldClaim list \<Rightarrow> bool \<Rightarrow> bool run" where
  "write_boot_holds L srv namespace state vmi_uid message now [] requeue = return requeue"
| "write_boot_holds L srv namespace state vmi_uid message now (claim # claims) requeue =
     (let desired = boot_hold_desired L state vmi_uid message now (bc_current claim)
      in if bc_current claim = Some desired
         then write_boot_holds L srv namespace state vmi_uid message now claims requeue
         else and_then (patch_claim_status srv namespace (bc_name claim) (boot_hold_patch (Some desired)))
                (\<lambda>reply. case reply of
                   Inr _ \<Rightarrow> write_boot_holds L srv namespace state vmi_uid message now claims requeue
                 | Inl err \<Rightarrow>
                     if is_not_found err then write_boot_holds L srv namespace state vmi_uid message now claims requeue
                     else write_boot_holds L srv namespace state vmi_uid message now claims True))"

definition remember_release :: "string \<Rightarrow> string \<Rightarrow> CState \<Rightarrow> CState" where
  "remember_release uid reason st = st\<lparr>c_released := (c_released st)(uid \<mapsto> reason)\<rparr>"

definition report_boot_hold ::
  "Lib \<Rightarrow> Server \<Rightarrow> string \<Rightarrow> BootHoldClaim list \<Rightarrow> string option \<Rightarrow> seconds \<Rightarrow> BootHoldState \<Rightarrow> string \<Rightarrow> bool run" where
  "report_boot_hold L srv namespace claims vmi_uid now state message =
     write_boot_holds L srv namespace state (if state = NotConfiguredState then None else vmi_uid) message now claims False"

definition recorded_release :: "BootHoldClaim list \<Rightarrow> string option \<Rightarrow> bool" where
  "recorded_release claims vmi_uid =
     list_ex (\<lambda>c. is_some_and (\<lambda>b. bh_state b = Released \<and> bh_vmi_uid b = vmi_uid \<and> vmi_uid \<noteq> None) (bc_current c)) claims"

definition reconcile_boot_hold ::
  "Lib \<Rightarrow> Server \<Rightarrow> string \<times> string \<Rightarrow> BootHoldClaim list \<Rightarrow> VmInfo option \<Rightarrow> VmiInfo option \<Rightarrow> seconds \<Rightarrow> bool run" where
  "reconcile_boot_hold L srv key claims vm vmi now st =
     (let namespace = fst key;
          vm_name = snd key;
          vmi_uid = map_option vi_uid vmi;
          released_reason = Option.bind vmi_uid (c_released st);
          already_released = (released_reason \<noteq> None \<or> recorded_release claims vmi_uid);
          action = decide_boot_hold L \<lparr>bi_vm = vm, bi_vmi = vmi, bi_claims = claims,
                     bi_already_released = already_released, bi_now = now\<rparr>
      in case action of
           Hold message \<Rightarrow> report_boot_hold L srv namespace claims vmi_uid now Holding message st
         | NotConfigured message \<Rightarrow> report_boot_hold L srv namespace claims vmi_uid now NotConfiguredState message st
         | Release reason \<Rightarrow>
             (case vmi of
                None \<Rightarrow> fail (Panic ''a release decision has an instance'') st
              | Some i \<Rightarrow>
                  (case sv_unpause srv (c_log st) namespace vm_name of
                     Inl err \<Rightarrow> (Inr True, record_call (Unpause namespace vm_name) st)
                   | Inr _ \<Rightarrow>
                       report_boot_hold L srv namespace claims vmi_uid now Released reason
                         (remember_release (vi_uid i) reason (record_call (Unpause namespace vm_name) st))))
         | Nothing \<Rightarrow>
             (case released_reason of
                Some reason \<Rightarrow> report_boot_hold L srv namespace claims vmi_uid now Released reason st
              | None \<Rightarrow> clear_stale_boot_holds srv namespace claims vmi_uid st))"

section \<open>When a VM is resumed\<close>

text \<open>The claims that count, and the conditions of a release.\<close>

definition holding_claims :: "BootHoldInputs \<Rightarrow> BootHoldClaim list" where
  "holding_claims i = filter (\<lambda>c. \<not> bc_invalid c) (bi_claims i)"

definition can_be_held :: "BootHoldInputs \<Rightarrow> VmiInfo \<Rightarrow> bool" where
  "can_be_held i vmi \<longleftrightarrow> holding_claims i \<noteq> [] \<and> bi_vmi i = Some vmi \<and> starts_paused (bi_vm i) (Some vmi) \<and>
     vi_paused vmi \<and> \<not> vi_deleting vmi \<and> \<not> bi_already_released i"

definition all_ready :: "BootHoldInputs \<Rightarrow> bool" where
  "all_ready i \<longleftrightarrow> list_all bc_ready (holding_claims i)"

definition timed_out :: "Lib \<Rightarrow> BootHoldInputs \<Rightarrow> VmiInfo \<Rightarrow> bool" where
  "timed_out L i vmi \<longleftrightarrow> (\<forall>c \<in> set (holding_claims i). bc_timeout_seconds c \<noteq> 0 \<and> bc_timeout_seconds c \<le> waited_secs L vmi (bi_now i))"

lemma max_timeout_le: "ts \<noteq> [] \<Longrightarrow> max_timeout ts \<le> w \<longleftrightarrow> (\<forall>t \<in> set ts. t \<le> w)"
proof (cases ts)
  case (Cons t us)
  have "fold max us t \<le> w \<longleftrightarrow> t \<le> w \<and> (\<forall>u \<in> set us. u \<le> w)" for t
    by (induction us arbitrary: t) auto
  with Cons show ?thesis by auto
qed simp

lemma decide_held:
  assumes "can_be_held i vmi"
  shows "(\<exists>m. decide_boot_hold L i = Release m) \<longleftrightarrow> all_ready i \<or> timed_out L i vmi"
    and "(\<exists>m. decide_boot_hold L i = Hold m) \<longleftrightarrow> \<not> (all_ready i \<or> timed_out L i vmi)"
proof -
  let ?h = "filter (\<lambda>c. \<not> bc_invalid c) (bi_claims i)"
  have missing: "filter (\<lambda>c. \<not> bc_ready c) ?h = [] \<longleftrightarrow> all_ready i"
    by (auto simp: all_ready_def holding_claims_def filter_empty_conv list_all_iff)
  have ne: "map bc_timeout_seconds ?h \<noteq> []" using assms by (simp add: can_be_held_def holding_claims_def)
  have time: "\<not> list_ex (\<lambda>c. bc_timeout_seconds c = 0) ?h \<and>
      max_timeout (map bc_timeout_seconds ?h) \<le> waited_secs L vmi (bi_now i) \<longleftrightarrow> timed_out L i vmi"
    by (auto simp: timed_out_def holding_claims_def list_ex_iff max_timeout_le [OF ne])
  show "(\<exists>m. decide_boot_hold L i = Release m) \<longleftrightarrow> all_ready i \<or> timed_out L i vmi"
    and "(\<exists>m. decide_boot_hold L i = Hold m) \<longleftrightarrow> \<not> (all_ready i \<or> timed_out L i vmi)"
    using assms
    by (simp_all add: decide_boot_hold_def can_be_held_def holding_claims_def Let_def time [symmetric] missing [symmetric])
qed

lemma decide_not_held:
  assumes "\<And>vmi. \<not> can_be_held i vmi"
  shows "decide_boot_hold L i = Nothing \<or> (\<exists>m. decide_boot_hold L i = NotConfigured m)"
proof (cases "bi_vmi i")
  case None
  then show ?thesis by (simp add: decide_boot_hold_def Let_def)
next
  case (Some vmi)
  with assms [of vmi] have "holding_claims i = [] \<or> \<not> starts_paused (bi_vm i) (Some vmi) \<or>
      \<not> (vi_paused vmi \<and> \<not> vi_deleting vmi) \<or> bi_already_released i"
    by (auto simp: can_be_held_def)
  with Some show ?thesis
    by (elim disjE) (simp_all add: decide_boot_hold_def holding_claims_def Let_def)
qed

lemma release_iff:
  "(\<exists>reason. decide_boot_hold L i = Release reason) \<longleftrightarrow>
     (\<exists>vmi. can_be_held i vmi \<and> (all_ready i \<or> timed_out L i vmi))"
proof (cases "\<exists>vmi. can_be_held i vmi")
  case True
  then obtain vmi where vmi: "can_be_held i vmi" by blast
  moreover have "vmi' = vmi" if "can_be_held i vmi'" for vmi'
    using that vmi by (simp add: can_be_held_def)
  ultimately show ?thesis using decide_held(1) [OF vmi, of L] by metis
next
  case False
  then show ?thesis using decide_not_held [of i L] by fastforce
qed

text \<open>
  The controller resumes a VM exactly when its instance can be held (it started
  paused, is paused, is not going away, was not resumed before, and some valid claim holds it) and
  either every valid claim's device is ready or every one of them has a timeout that has passed;
  one claim with timeout 0 holds the VM for ever.
\<close>

theorem release_iff_ready_or_timed_out:
  "(\<exists>reason. decide_boot_hold L i = Release reason) \<longleftrightarrow>
     (\<exists>vmi. can_be_held i vmi \<and> (all_ready i \<or> timed_out L i vmi))"
  by (rule release_iff)

text \<open>
  The timeout is a safety valve: once the longest timeout after the beginning of the
  pause has passed, a VM that can be held is resumed whatever its devices do, provided no claim asks
  to wait for ever.
\<close>

theorem timeout_is_a_safety_valve:
  assumes "time_contract L" and "can_be_held i vmi" and "vi_paused_since vmi = Some (rfc3339 L t)"
    and "\<forall>c \<in> set (holding_claims i). 0 < bc_timeout_seconds c \<and> t + bc_timeout_seconds c \<le> bi_now i"
  shows "\<exists>reason. decide_boot_hold L i = Release reason"
proof -
  have "timed_out L i vmi"
    using assms(3,4) age_secs_rfc3339 [OF assms(1)] by (force simp: timed_out_def waited_secs_def)
  with decide_held(1) [OF assms(2), of L] show ?thesis by simp
qed

section \<open>What a pass does\<close>

definition new_calls :: "CState \<Rightarrow> CState \<Rightarrow> ApiCall list" where
  "new_calls st st' = drop (length (c_log st)) (c_log st')"

text \<open>Writing and clearing reports only patches claim statuses, and never fails.\<close>

definition only_reports :: "CState \<Rightarrow> (RunError + 'a) \<times> CState \<Rightarrow> bool" where
  "only_reports st res \<longleftrightarrow> (\<exists>v. fst res = Inr v) \<and> c_released (snd res) = c_released st \<and> c_devices (snd res) = c_devices st \<and>
     (\<exists>calls. c_log (snd res) = c_log st @ calls \<and> list_all is_PatchClaimStatus calls)"

lemma only_reports_return: "only_reports st (return v st)"
  by (simp add: only_reports_def return_def)

lemma only_reports_and_then:
  assumes "\<And>reply st. only_reports st (f reply st)"
  shows "only_reports st (and_then (patch_claim_status srv ns n p) f st)"
proof -
  let ?st = "record_call (PatchClaimStatus ns n p) st" and ?r = "sv_patch_claim srv (c_log st) ns n p"
  have "and_then (patch_claim_status srv ns n p) f st = f ?r ?st"
    by (simp add: and_then_def patch_claim_status_def)
  with assms [of ?st ?r] show ?thesis unfolding only_reports_def by auto
qed

lemma clear_boot_holds_reports: "only_reports st (clear_boot_holds srv ns claims requeue st)"
proof (induction claims arbitrary: requeue st)
  case (Cons c claims)
  show ?case
    unfolding clear_boot_holds.simps
    by (rule only_reports_and_then) (use Cons in \<open>auto split: sum.splits\<close>)
qed (simp add: only_reports_return)

lemma write_boot_holds_reports: "only_reports st (write_boot_holds L srv ns state uid m now claims requeue st)"
proof (induction claims arbitrary: requeue st)
  case (Cons c claims)
  have "only_reports st (and_then (patch_claim_status srv ns n p)
     (\<lambda>reply. case reply of
         Inr _ \<Rightarrow> write_boot_holds L srv ns state uid m now claims requeue
       | Inl err \<Rightarrow> if is_not_found err then write_boot_holds L srv ns state uid m now claims requeue
                    else write_boot_holds L srv ns state uid m now claims True) st)" for n p
    by (rule only_reports_and_then) (use Cons in \<open>auto split: sum.splits\<close>)
  with Cons show ?case by (simp add: Let_def)
qed (simp add: only_reports_return)

lemma reports:
  "only_reports st (report_boot_hold L srv ns claims uid now state m st)"
  "only_reports st (clear_stale_boot_holds srv ns claims uid st)"
  by (simp_all add: report_boot_hold_def clear_stale_boot_holds_def write_boot_holds_reports clear_boot_holds_reports)

lemma only_reports_calls: "only_reports st res \<Longrightarrow> list_all is_PatchClaimStatus (new_calls st (snd res))"
  by (auto simp: only_reports_def new_calls_def)

text \<open>The inputs of the decision in a state of the controller.\<close>

definition boot_hold_inputs ::
  "CState \<Rightarrow> BootHoldClaim list \<Rightarrow> VmInfo option \<Rightarrow> VmiInfo option \<Rightarrow> seconds \<Rightarrow> BootHoldInputs" where
  "boot_hold_inputs st claims vm vmi now =
     (let uid = map_option vi_uid vmi
      in \<lparr>bi_vm = vm, bi_vmi = vmi, bi_claims = claims,
          bi_already_released = (Option.bind uid (c_released st) \<noteq> None \<or> recorded_release claims uid), bi_now = now\<rparr>)"

lemma reconcile_boot_hold_cases:
  fixes L srv key claims vm vmi now st
  defines "res \<equiv> reconcile_boot_hold L srv key claims vm vmi now st"
    and "d \<equiv> decide_boot_hold L (boot_hold_inputs st claims vm vmi now)"
  obtains (quiet) "\<And>reason. d \<noteq> Release reason" "only_reports st res"
  | (failed) reason err where "d = Release reason" "sv_unpause srv (c_log st) (fst key) (snd key) = Inl err"
      "res = (Inr True, record_call (Unpause (fst key) (snd key)) st)"
  | (resumed) reason i where "d = Release reason" "vmi = Some i" "sv_unpause srv (c_log st) (fst key) (snd key) = Inr ()"
      "only_reports (remember_release (vi_uid i) reason (record_call (Unpause (fst key) (snd key)) st)) res"
proof (cases d)
  case (Release reason)
  then obtain i where i: "vmi = Some i"
    using release_iff [of L "boot_hold_inputs st claims vm vmi now"]
    by (auto simp: d_def can_be_held_def boot_hold_inputs_def Let_def)
  have res: "res = (case sv_unpause srv (c_log st) (fst key) (snd key) of
      Inl err \<Rightarrow> (Inr True, record_call (Unpause (fst key) (snd key)) st)
    | Inr _ \<Rightarrow> report_boot_hold L srv (fst key) claims (Some (vi_uid i)) now Released reason
        (remember_release (vi_uid i) reason (record_call (Unpause (fst key) (snd key)) st)))"
    using Release i by (simp add: res_def d_def reconcile_boot_hold_def boot_hold_inputs_def Let_def)
  show ?thesis
  proof (cases "sv_unpause srv (c_log st) (fst key) (snd key)")
    case (Inl err)
    with Release res failed show ?thesis by simp
  next
    case (Inr u)
    with Release i res resumed reports(1) show ?thesis by simp
  qed
next
  case (Hold m)
  with quiet reports show ?thesis
    by (simp add: res_def d_def reconcile_boot_hold_def boot_hold_inputs_def Let_def)
next
  case (NotConfigured m)
  with quiet reports show ?thesis
    by (simp add: res_def d_def reconcile_boot_hold_def boot_hold_inputs_def Let_def)
next
  case Nothing
  with quiet reports show ?thesis
    by (simp add: res_def d_def reconcile_boot_hold_def boot_hold_inputs_def Let_def split: option.splits)
qed

lemma report_calls_no_unpause: "list_all is_PatchClaimStatus calls \<Longrightarrow> filter is_Unpause calls = []"
  by (induction calls) (auto simp: is_PatchClaimStatus_def)

lemma resumed_calls:
  assumes "only_reports (remember_release uid reason (record_call (Unpause ns n) st)) res"
  shows "new_calls st (snd res) = Unpause ns n # new_calls (remember_release uid reason (record_call (Unpause ns n) st)) (snd res)"
  using assms by (auto simp: only_reports_def new_calls_def remember_release_def)

lemma release_not_recorded:
  assumes "decide_boot_hold L (boot_hold_inputs st claims vm (Some vmi) now) = Release reason"
  shows "c_released st (vi_uid vmi) = None"
  using assms release_iff [of L "boot_hold_inputs st claims vm (Some vmi) now"]
  by (auto simp: can_be_held_def boot_hold_inputs_def Let_def)

lemma reconcile_boot_hold_effect:
  fixes L srv key claims vm vmi now st
  defines "res \<equiv> reconcile_boot_hold L srv key claims vm vmi now st"
  shows "\<exists>b. fst res = Inr b" and "c_devices (snd res) = c_devices st"
    and "\<exists>calls. c_log (snd res) = c_log st @ calls \<and> list_all (\<lambda>c. is_PatchClaimStatus c \<or> is_Unpause c) calls"
proof -
  have "(\<exists>b. fst res = Inr b) \<and> c_devices (snd res) = c_devices st \<and>
      (\<exists>calls. c_log (snd res) = c_log st @ calls \<and> list_all (\<lambda>c. is_PatchClaimStatus c \<or> is_Unpause c) calls)"
    using reconcile_boot_hold_cases [of L st claims vm vmi now srv key]
  proof cases
    case (resumed reason i)
    then show ?thesis by (auto simp: res_def only_reports_def remember_release_def list_all_iff)
  qed (auto simp: res_def only_reports_def list_all_iff)
  then show "\<exists>b. fst res = Inr b" "c_devices (snd res) = c_devices st"
    "\<exists>calls. c_log (snd res) = c_log st @ calls \<and> list_all (\<lambda>c. is_PatchClaimStatus c \<or> is_Unpause c) calls"
    by blast+
qed

lemma unpause_calls:
  "filter is_Unpause (new_calls st (snd (reconcile_boot_hold L srv key claims vm vmi now st))) =
     (if \<exists>i. can_be_held (boot_hold_inputs st claims vm vmi now) i \<and>
           (all_ready (boot_hold_inputs st claims vm vmi now) \<or> timed_out L (boot_hold_inputs st claims vm vmi now) i)
      then [Unpause (fst key) (snd key)] else [])"
proof -
  let ?i = "boot_hold_inputs st claims vm vmi now"
  let ?calls = "new_calls st (snd (reconcile_boot_hold L srv key claims vm vmi now st))"
  have "filter is_Unpause ?calls = (if \<exists>reason. decide_boot_hold L ?i = Release reason then [Unpause (fst key) (snd key)] else [])"
    using reconcile_boot_hold_cases [of L st claims vm vmi now srv key]
  proof cases
    case quiet
    with report_calls_no_unpause [OF only_reports_calls [OF quiet(2)]] show ?thesis by simp
  next
    case (failed reason err)
    then show ?thesis by (auto simp: new_calls_def)
  next
    case (resumed reason i)
    with report_calls_no_unpause [OF only_reports_calls [OF resumed(4)]] resumed_calls [OF resumed(4)] show ?thesis by auto
  qed
  then show ?thesis by (simp only: release_iff)
qed

text \<open>
  A VM is resumed only on a release decision: a pass over the boot hold of one VM makes at
  most one \<open>unpause\<close> call, and it makes one exactly when that VM's instance can be held and
  its devices are ready or timed out, judged on the instances resumed so far.
\<close>

theorem unpause_only_on_release:
  "filter is_Unpause (new_calls st (snd (reconcile_boot_hold L srv key claims vm vmi now st))) =
     (if \<exists>i. can_be_held (boot_hold_inputs st claims vm vmi now) i \<and>
           (all_ready (boot_hold_inputs st claims vm vmi now) \<or> timed_out L (boot_hold_inputs st claims vm vmi now) i)
      then [Unpause (fst key) (snd key)] else [])"
  by (rule unpause_calls)

text \<open>
  A resumed instance is remembered at once: when the \<open>unpause\<close> call succeeds the
  instance's uid is recorded before any status is written, even if all those writes fail, and an
  instance that is recorded is never resumed again, so a user who pauses the VM later is not
  overruled. The pass never panics or fails.
\<close>

theorem resumed_once_per_instance:
  fixes L srv key claims vm now st and vmi :: VmiInfo
  defines "res \<equiv> reconcile_boot_hold L srv key claims vm (Some vmi) now st"
  shows "if Unpause (fst key) (snd key) \<in> set (new_calls st (snd res))
    then c_released st (vi_uid vmi) = None \<and>
      (c_released (snd res) (vi_uid vmi) \<noteq> None \<or>
       (\<exists>err. sv_unpause srv (c_log st) (fst key) (snd key) = Inl err \<and> fst res = Inr True))
    else c_released (snd res) = c_released st \<and> (\<exists>requeue. fst res = Inr requeue)"
  using reconcile_boot_hold_cases [of L st claims vm "Some vmi" now srv key]
proof cases
  case quiet
  with report_calls_no_unpause [OF only_reports_calls [OF quiet(2)]] show ?thesis
    by (auto simp: res_def only_reports_def filter_empty_conv)
next
  case (failed reason err)
  with release_not_recorded [OF failed(1)] show ?thesis by (auto simp: res_def new_calls_def)
next
  case (resumed reason i)
  with release_not_recorded [OF resumed(1)] resumed_calls [OF resumed(4)] show ?thesis
    by (auto simp: res_def only_reports_def remember_release_def)
qed

section \<open>A report that does not settle\<close>

text \<open>
  What the API server is relied on for: a merge patch replaces the members it has and leaves the ones it does not have as they are
  (RFC 7386), and an unset optional member of a report is not part of the patch.
\<close>

definition merge_patch_contract :: "(BootHoldStatus option upd \<Rightarrow> BootHoldStatus option \<Rightarrow> BootHoldStatus option) \<Rightarrow> bool" where
  "merge_patch_contract merge \<longleftrightarrow>
     (\<forall>b old. \<exists>new. merge (Put (Some b)) (Some old) = Some new \<and> bh_state new = bh_state b \<and> bh_since new = bh_since b \<and>
        bh_vmi_uid new = (if bh_vmi_uid b = None then bh_vmi_uid old else bh_vmi_uid b) \<and>
        bh_message new = (if bh_message b = None then bh_message old else bh_message b))"

lemma merge_boot_hold_contract: "merge_patch_contract merge_boot_hold"
  by (simp add: merge_patch_contract_def merge_boot_hold_def)

text \<open>The report the API server has for a claim after some calls, of which the refused ones change nothing.\<close>

abbreviation writes_claim :: "string \<Rightarrow> string \<Rightarrow> ApiCall \<Rightarrow> bool" where
  "writes_claim namespace name call \<equiv> is_PatchClaimStatus call \<and> pcs_namespace call = namespace \<and> pcs_name call = name"

fun stored_report ::
  "(BootHoldStatus option upd \<Rightarrow> BootHoldStatus option \<Rightarrow> BootHoldStatus option) \<Rightarrow> Server \<Rightarrow> string \<Rightarrow> string \<Rightarrow> ApiCall list \<Rightarrow>
   ApiCall list \<Rightarrow> BootHoldStatus option \<Rightarrow> BootHoldStatus option" where
  "stored_report merge srv namespace name log [] report = report"
| "stored_report merge srv namespace name log (call # calls) report =
     stored_report merge srv namespace name (log @ [call]) calls
       (if writes_claim namespace name call \<and> sv_patch_claim srv log namespace name (pcs_patch call) = Inr ()
        then merge (cp_boot_hold (pcs_patch call)) report else report)"

text \<open>
  Passes over the boot hold of one VM, each with what the stores show of the claims, the VM and its instance, and the time. The
  report of one claim is the one the API server has for it from the passes before.
\<close>

record HoldPass =
  hp_claims :: "BootHoldClaim list"
  hp_vm :: "VmInfo option"
  hp_vmi :: "VmiInfo option"
  hp_now :: seconds

abbreviation with_report :: "string \<Rightarrow> BootHoldStatus option \<Rightarrow> BootHoldClaim \<Rightarrow> BootHoldClaim" where
  "with_report name report claim \<equiv> (if bc_name claim = name then claim\<lparr>bc_current := report\<rparr> else claim)"

fun boot_hold_passes ::
  "(BootHoldStatus option upd \<Rightarrow> BootHoldStatus option \<Rightarrow> BootHoldStatus option) \<Rightarrow> Lib \<Rightarrow> Server \<Rightarrow> string \<times> string \<Rightarrow> string \<Rightarrow>
   HoldPass list \<Rightarrow> BootHoldStatus option \<Rightarrow> CState \<Rightarrow> CState" where
  "boot_hold_passes merge L srv key name [] report st = st"
| "boot_hold_passes merge L srv key name (p # passes) report st =
     (let st' = snd (reconcile_boot_hold L srv key (map (with_report name report) (hp_claims p)) (hp_vm p) (hp_vmi p) (hp_now p) st)
      in boot_hold_passes merge L srv key name passes (stored_report merge srv (fst key) name (c_log st) (new_calls st st') report) st')"

text \<open>A pass that finds that the VM does not start paused, though a valid claim wants to hold its boot.\<close>

definition cannot_hold :: "string \<Rightarrow> HoldPass \<Rightarrow> bool" where
  "cannot_hold name p \<longleftrightarrow> distinct (map bc_name (hp_claims p)) \<and> name \<in> bc_name ` set (hp_claims p) \<and>
     list_ex (\<lambda>claim. \<not> bc_invalid claim) (hp_claims p) \<and>
     (hp_vm p \<noteq> None \<or> hp_vmi p \<noteq> None) \<and> \<not> starts_paused (hp_vm p) (hp_vmi p)"

lemma write_boot_holds_log:
  "c_log (snd (write_boot_holds L srv ns state uid m now claims requeue st)) = c_log st @
     map (\<lambda>c. PatchClaimStatus ns (bc_name c) (boot_hold_patch (Some (boot_hold_desired L state uid m now (bc_current c)))))
       (filter (\<lambda>c. bc_current c \<noteq> Some (boot_hold_desired L state uid m now (bc_current c))) claims)"
proof (induction claims arbitrary: requeue st)
  case (Cons c claims)
  then show ?case
    by (auto simp: Let_def and_then_def patch_claim_status_def record_call_def split: sum.splits)
qed (simp add: return_def)

abbreviation start_paused_advice :: string where
  "start_paused_advice \<equiv> ''the VM does not start paused; set spec.template.spec.startStrategy: Paused in its template to hold its boot''"

lemma cannot_hold_pass:
  assumes "cannot_hold name p"
  shows "reconcile_boot_hold L srv key (map (with_report name report) (hp_claims p)) (hp_vm p) (hp_vmi p) (hp_now p) st =
    write_boot_holds L srv (fst key) NotConfiguredState None start_paused_advice (hp_now p) (map (with_report name report) (hp_claims p)) False st"
proof -
  have "filter (\<lambda>c. \<not> bc_invalid c) (map (with_report name report) (hp_claims p)) \<noteq> []"
    using assms by (auto simp: cannot_hold_def list_ex_iff filter_map comp_def if_distrib filter_empty_conv)
  with assms show ?thesis
    by (auto simp: cannot_hold_def reconcile_boot_hold_def decide_boot_hold_def report_boot_hold_def Let_def)
qed

lemma filter_one:
  assumes "distinct (map f xs)" and "x \<in> set xs"
  shows "filter (\<lambda>y. f y = f x) xs = [x]"
  using assms
proof (induction xs)
  case (Cons y ys)
  show ?case
  proof (cases "f y = f x")
    case True
    with Cons.prems have "filter (\<lambda>z. f z = f x) ys = []" by (auto simp: filter_empty_conv image_iff)
    with True Cons.prems show ?thesis by (auto simp: image_iff)
  next
    case False
    with Cons show ?thesis by auto
  qed
qed simp

text \<open>The advice, as it is written at a time.\<close>

definition advice_write :: "Lib \<Rightarrow> string \<Rightarrow> string \<Rightarrow> seconds \<Rightarrow> ApiCall" where
  "advice_write L namespace name now = PatchClaimStatus namespace name (boot_hold_patch
     (Some \<lparr>bh_state = NotConfiguredState, bh_vmi_uid = None, bh_since = rfc3339 L now, bh_message = Some start_paused_advice\<rparr>))"

lemma cannot_hold_writes:
  fixes L srv key st
  assumes "cannot_hold name p" and "bh_vmi_uid old = Some uid"
  defines "st' \<equiv> snd (reconcile_boot_hold L srv key (map (with_report name (Some old)) (hp_claims p)) (hp_vm p) (hp_vmi p) (hp_now p) st)"
  shows "\<exists>calls. c_log st' = c_log st @ calls \<and> list_all (\<lambda>c. is_PatchClaimStatus c) calls \<and>
    filter (writes_claim (fst key) name) calls = [advice_write L (fst key) name (hp_now p)]"
proof -
  let ?claims = "map (with_report name (Some old)) (hp_claims p)"
  let ?desired = "\<lambda>c. boot_hold_desired L NotConfiguredState None start_paused_advice (hp_now p) (bc_current c)"
  let ?patch = "\<lambda>c. PatchClaimStatus (fst key) (bc_name c) (boot_hold_patch (Some (?desired c)))"
  let ?due = "filter (\<lambda>c. bc_current c \<noteq> Some (?desired c)) ?claims"
  from assms(1) obtain c where c: "c \<in> set (hp_claims p)" "bc_name c = name" by (auto simp: cannot_hold_def)
  have names: "map bc_name ?claims = map bc_name (hp_claims p)" by simp
  have one: "filter (\<lambda>c. bc_name c = name) ?claims = [c\<lparr>bc_current := Some old\<rparr>]"
    using filter_one [of bc_name ?claims "c\<lparr>bc_current := Some old\<rparr>"] assms(1) c unfolding names by (force simp: cannot_hold_def)
  have "filter (\<lambda>c. bc_name c = name) ?due = filter (\<lambda>c. bc_current c \<noteq> Some (?desired c)) (filter (\<lambda>c. bc_name c = name) ?claims)"
    by (simp only: filter_filter conj_commute)
  then have due: "filter (\<lambda>c. bc_name c = name) ?due = [c\<lparr>bc_current := Some old\<rparr>]"
    using assms(2) unfolding one by (auto simp: boot_hold_desired_def)
  have written: "filter (writes_claim (fst key) name) (map ?patch cs) = map ?patch (filter (\<lambda>c. bc_name c = name) cs)" for cs
    by (simp add: filter_map comp_def)
  have "filter (writes_claim (fst key) name) (map ?patch ?due) = [?patch (c\<lparr>bc_current := Some old\<rparr>)]"
    unfolding written due by (rule list.map(2) [THEN trans]) (simp only: list.map)
  moreover have "?patch (c\<lparr>bc_current := Some old\<rparr>) = advice_write L (fst key) name (hp_now p)"
    using assms(2) c by (simp add: advice_write_def boot_hold_desired_def)
  moreover have "c_log st' = c_log st @ map ?patch ?due"
    unfolding st'_def cannot_hold_pass [OF assms(1)] by (rule write_boot_holds_log)
  ultimately show ?thesis by (auto simp: list_all_iff)
qed

lemma stored_keeps_uid:
  assumes "merge_patch_contract merge" and "bh_vmi_uid old = Some uid"
    and "\<forall>c \<in> set (filter (writes_claim ns name) calls). c = advice_write L ns name now"
  shows "\<exists>new. stored_report merge srv ns name log calls (Some old) = Some new \<and> bh_vmi_uid new = Some uid"
  using assms(2,3)
proof (induction calls arbitrary: log old)
  case (Cons c calls)
  have rest: "\<forall>c \<in> set (filter (writes_claim ns name) calls). c = advice_write L ns name now" using Cons.prems(2) by auto
  show ?case
  proof (cases "writes_claim ns name c")
    case True
    with Cons.prems(2) have "c = advice_write L ns name now" by simp
    moreover obtain b where b: "cp_boot_hold (pcs_patch (advice_write L ns name now)) = Put (Some b)" "bh_vmi_uid b = None"
      by (simp add: advice_write_def boot_hold_patch_def)
    moreover obtain new where "merge (Put (Some b)) (Some old) = Some new" "bh_vmi_uid new = Some uid"
      using assms(1) [unfolded merge_patch_contract_def, rule_format, of b old] Cons.prems(1) b(2) by auto
    ultimately show ?thesis using Cons.IH [OF _ rest, of new] Cons.IH [OF Cons.prems(1) rest] by simp
  next
    case False
    with Cons.IH [OF Cons.prems(1) rest] show ?thesis by auto
  qed
qed simp

text \<open>
  Property C39: the advice that a VM does not start paused never settles once a claim carries a report about an instance. The
  advice has no instance uid, so the merge patch leaves the old uid in place and every later pass finds a report that differs from the one it wants:
  however many passes follow, with whatever other claims and whether the API takes the writes or not, each one writes the advice to the claim again, once,
  and each time with its own time, so that the time of the last real change, which \<open>since\<close> is to tell, is lost.
\<close>

theorem not_configured_report_never_settles:
  assumes "merge_patch_contract merge" and "bh_vmi_uid old = Some uid" and "list_all (cannot_hold name) passes"
  shows "filter (writes_claim (fst key) name) (new_calls st (boot_hold_passes merge L srv key name passes (Some old) st)) =
    map (\<lambda>p. PatchClaimStatus (fst key) name (boot_hold_patch
      (Some \<lparr>bh_state = NotConfiguredState, bh_vmi_uid = None, bh_since = rfc3339 L (hp_now p),
         bh_message = Some ''the VM does not start paused; set spec.template.spec.startStrategy: Paused in its template to hold its boot''\<rparr>))) passes"
proof -
  have "\<exists>calls. c_log (boot_hold_passes merge L srv key name passes (Some old) st) = c_log st @ calls \<and>
      filter (writes_claim (fst key) name) calls = map (\<lambda>p. advice_write L (fst key) name (hp_now p)) passes"
    using assms(2,3)
  proof (induction passes arbitrary: old st)
    case (Cons p passes)
    let ?st = "snd (reconcile_boot_hold L srv key (map (with_report name (Some old)) (hp_claims p)) (hp_vm p) (hp_vmi p) (hp_now p) st)"
    from cannot_hold_writes [of name p old uid L srv key st] Cons.prems obtain calls where calls: "c_log ?st = c_log st @ calls"
      "filter (writes_claim (fst key) name) calls = [advice_write L (fst key) name (hp_now p)]" by auto
    then obtain new where "stored_report merge srv (fst key) name (c_log st) (new_calls st ?st) (Some old) = Some new" "bh_vmi_uid new = Some uid"
      using stored_keeps_uid [OF assms(1) Cons.prems(1), of "fst key" name calls L "hp_now p"] by (auto simp: new_calls_def)
    with Cons.IH [of new ?st] Cons.prems calls show ?case by (auto simp: Let_def)
  qed simp
  then show ?thesis by (auto simp: new_calls_def advice_write_def)
qed

definition advised_pass :: "seconds \<Rightarrow> HoldPass" where
  "advised_pass now = \<lparr>hp_claims = [\<lparr>bc_name = ''radio'', bc_ready = True, bc_invalid = False, bc_timeout_seconds = 300, bc_current = None\<rparr>],
     hp_vm = Some \<lparr>vm_namespace = ''ns'', vm_name = ''vm'', vm_uid = ''vm-1'', vm_client_passthrough = True, vm_start_paused = False, vm_printable_status = None, vm_deleting = False\<rparr>, hp_vmi = None, hp_now = now\<rparr>"

theorem not_configured_report_never_settles_witness:
  "\<forall>st srv. length (filter (writes_claim ''ns'' ''radio'') (new_calls st (boot_hold_passes merge_boot_hold sample_lib srv (''ns'', ''vm'') ''radio''
     [advised_pass 7, advised_pass 8, advised_pass 9]
     (Some \<lparr>bh_state = Released, bh_vmi_uid = Some ''b7e1'', bh_since = ''0'', bh_message = None\<rparr>) st))) = 3"
proof (intro allI)
  fix st srv
  have "list_all (cannot_hold ''radio'') [advised_pass 7, advised_pass 8, advised_pass 9]"
    by (simp add: cannot_hold_def advised_pass_def starts_paused_def)
  from not_configured_report_never_settles [OF merge_boot_hold_contract _ this,
      of "\<lparr>bh_state = Released, bh_vmi_uid = Some ''b7e1'', bh_since = ''0'', bh_message = None\<rparr>" "''b7e1''" "(''ns'', ''vm'')" st sample_lib srv]
  show "length (filter (writes_claim ''ns'' ''radio'') (new_calls st (boot_hold_passes merge_boot_hold sample_lib srv (''ns'', ''vm'') ''radio''
     [advised_pass 7, advised_pass 8, advised_pass 9]
     (Some \<lparr>bh_state = Released, bh_vmi_uid = Some ''b7e1'', bh_since = ''0'', bh_message = None\<rparr>) st))) = 3"
    by (simp del: boot_hold_passes.simps)
qed

section \<open>Witness of the safety valve\<close>

definition held_vmi :: "Lib \<Rightarrow> VmiInfo" where
  "held_vmi L = \<lparr>vi_namespace = ''ns'', vi_name = ''vm'', vi_uid = ''b7e1'', vi_phase = Some ''Running'', vi_node = Some ''node-a'',
     vi_client_passthrough = True, vi_start_paused = True, vi_paused = True, vi_paused_since = Some (rfc3339 L 100),
     vi_active_pods = [], vi_controlled_by_vm = True, vi_deleting = False\<rparr>"

definition held_inputs :: "Lib \<Rightarrow> seconds \<Rightarrow> BootHoldInputs" where
  "held_inputs L now = \<lparr>bi_vm = None, bi_vmi = Some (held_vmi L),
     bi_claims = [\<lparr>bc_name = ''radio'', bc_ready = False, bc_invalid = False, bc_timeout_seconds = 300, bc_current = None\<rparr>],
     bi_already_released = False, bi_now = now\<rparr>"

theorem timeout_is_a_safety_valve_witness: "\<exists>reason. decide_boot_hold sample_lib (held_inputs sample_lib 400) = Release reason"
  by (rule timeout_is_a_safety_valve [of _ _ "held_vmi sample_lib" 100])
     (simp_all add: time_sample can_be_held_def held_inputs_def held_vmi_def holding_claims_def starts_paused_def)

end
