(* ===== verification/Phase.thy ===== *)
theory Phase
  imports Kubevirt
begin

text \<open>
  \<open>compute_phase\<close> of \<open>src/controller.rs\<close>: the phase and message a claim reports, decided
  by a cascade of checks. The theorem at the end says what each phase means, which is the
  contract users and the boot-hold pass rely on.
\<close>

section \<open>Model\<close>

record PhaseInputs =
  pi_invalid :: "string option"
  pi_device :: "UsbDevice option"
  pi_device_available :: bool
  pi_vm :: "VmInfo option"
  pi_vmi :: "VmiInfo option"
  pi_vm_present :: bool
  pi_claim :: UsbDeviceClaim
  pi_slot :: "int option"

fun device_phase_debug :: "DevicePhase \<Rightarrow> string" where
  "device_phase_debug Available = ''Available''"
| "device_phase_debug Unplugged = ''Unplugged''"
| "device_phase_debug Lost = ''Lost''"

definition phase_client_passthrough :: "VmiInfo option \<Rightarrow> VmInfo option \<Rightarrow> bool" where
  "phase_client_passthrough vmi vm =
     (case (vmi, vm) of
        (Some i, _) \<Rightarrow> vi_client_passthrough i
      | (None, Some v) \<Rightarrow> vm_client_passthrough v
      | (None, None) \<Rightarrow> True)"

definition claim_connection :: "UsbDeviceClaim \<Rightarrow> ConnectionStatus option" where
  "claim_connection claim = Option.bind (uc_status claim) ucs_connection"

definition connection_attached :: "ConnectionStatus option \<Rightarrow> VmiInfo \<Rightarrow> string \<Rightarrow> int option \<Rightarrow> bool" where
  "connection_attached connection vmi device_name slot =
     (case connection of
        None \<Rightarrow> False
      | Some c \<Rightarrow> co_state c = ConnConnected \<and> Some (co_node c) = vi_node vmi \<and>
                  co_device_name c = device_name \<and> Some (co_slot c) = slot)"

definition compute_phase :: "PhaseInputs \<Rightarrow> ClaimPhase \<times> string" where
  "compute_phase inputs =
     (case pi_invalid inputs of
        Some reason \<Rightarrow> (Invalid, reason)
      | None \<Rightarrow>
          let vm = cs_vm_name (uc_spec (pi_claim inputs))
          in if \<not> pi_vm_present inputs then
               let state = (if is_some_and vm_deleting (pi_vm inputs) \<or> is_some_and vi_deleting (pi_vmi inputs)
                            then ''is being deleted'' else ''does not exist'')
               in (WaitingForVM, ''VirtualMachine '' @ vm @ '' '' @ state @ ''; no device is reserved'')
             else case pi_device inputs of
               None \<Rightarrow> (Pending, ''no free UsbDevice matches the selector'')
             | Some device \<Rightarrow>
                 let device_name = device_name_any device;
                     status = status_ref device
                 in if \<not> pi_device_available inputs then
                      let phase = (case st_phase status of Some p \<Rightarrow> device_phase_debug p | None \<Rightarrow> ''not reported'');
                          node = (case st_node status of Some n \<Rightarrow> '' (last seen on '' @ n @ '')'' | None \<Rightarrow> [])
                      in (DeviceUnavailable, ''device '' @ device_name @ '' is '' @ phase @ node)
                    else if \<not> phase_client_passthrough (pi_vmi inputs) (pi_vm inputs) then
                      (VMNotConfigured,
                       ''VM needs spec.domain.devices.clientPassthrough: {} (set it in the VM template and restart)'')
                    else case pi_vmi inputs of
                      None \<Rightarrow>
                        let status = (case Option.bind (pi_vm inputs) vm_printable_status of Some s \<Rightarrow> s | None \<Rightarrow> ''Stopped'')
                        in (WaitingForVM, ''VirtualMachine '' @ vm @ '' is '' @ status)
                    | Some vmi \<Rightarrow>
                        if \<not> is_running vmi then
                          (WaitingForVM, ''VirtualMachineInstance '' @ vm @ '' is '' @
                             (case vi_phase vmi of Some p \<Rightarrow> p | None \<Rightarrow> ''starting''))
                        else
                          let connection = claim_connection (pi_claim inputs)
                          in if connection_attached connection vmi device_name (pi_slot inputs) then
                               let source = (case st_node status of Some n \<Rightarrow> n | None \<Rightarrow> ''?'')
                               in (Attached, device_name @ '' on '' @ source @ '' is attached to '' @ vm)
                             else
                               (Connecting,
                                case connection of
                                  None \<Rightarrow> ''waiting for the agent on the VM's node''
                                | Some c \<Rightarrow>
                                    if Some (co_node c) = vi_node vmi
                                    then (case co_message c of Some m \<Rightarrow> m
                                          | None \<Rightarrow> ''waiting for the agent on the VM's node'')
                                    else ''waiting for the agent on the VM's node''))"

section \<open>What a phase means\<close>

text \<open>The conditions of the phases, each on top of the ones before it.\<close>

definition may_hold :: "PhaseInputs \<Rightarrow> bool" where
  "may_hold i \<longleftrightarrow> pi_invalid i = None \<and> pi_vm_present i"

definition device_ready :: "PhaseInputs \<Rightarrow> bool" where
  "device_ready i \<longleftrightarrow> may_hold i \<and> pi_device i \<noteq> None \<and> pi_device_available i"

definition vm_ready :: "PhaseInputs \<Rightarrow> VmiInfo \<Rightarrow> bool" where
  "vm_ready i vmi \<longleftrightarrow> device_ready i \<and> pi_vmi i = Some vmi \<and> vi_client_passthrough vmi \<and> is_running vmi"

definition data_path_up :: "PhaseInputs \<Rightarrow> VmiInfo \<Rightarrow> bool" where
  "data_path_up i vmi \<longleftrightarrow>
     (\<exists>d. pi_device i = Some d \<and> connection_attached (claim_connection (pi_claim i)) vmi (device_name_any d) (pi_slot i))"

lemmas phase_conditions = may_hold_def device_ready_def vm_ready_def data_path_up_def

lemma compute_phase_cases:
  "fst (compute_phase i) =
     (if pi_invalid i \<noteq> None then Invalid
      else if \<not> pi_vm_present i then WaitingForVM
      else if pi_device i = None then Pending
      else if \<not> pi_device_available i then DeviceUnavailable
      else if \<not> phase_client_passthrough (pi_vmi i) (pi_vm i) then VMNotConfigured
      else case pi_vmi i of
             None \<Rightarrow> WaitingForVM
           | Some vmi \<Rightarrow> if \<not> is_running vmi then WaitingForVM
                         else if data_path_up i vmi then Attached else Connecting)"
  by (cases "pi_invalid i"; cases "pi_vm_present i"; cases "pi_device i"; cases "pi_device_available i"; cases "pi_vmi i")
     (simp_all add: compute_phase_def data_path_up_def Let_def)

text \<open>
  A claim reports \<open>Attached\<close> exactly when it is valid, its VM exists, the leased
  device is available, the VM's running instance has usbredir sockets, and the agent on the
  instance's current node reports a connection for this very device and slot. A connection report
  left over from another node, device or slot never counts.
\<close>

theorem attached_iff_data_path_up:
  "fst (compute_phase i) = Attached \<longleftrightarrow> (\<exists>vmi. vm_ready i vmi \<and> data_path_up i vmi)"
  unfolding compute_phase_cases
  by (auto simp: phase_conditions phase_client_passthrough_def split: option.splits)

text \<open>
  The other phases name the first obstacle: \<open>Invalid\<close>, \<open>Pending\<close> (the VM
  exists but there is no device), \<open>DeviceUnavailable\<close> (leased but unplugged or lost), and
  \<open>Connecting\<close> (device and VM are ready and only the data path is missing).
\<close>

theorem phases_name_the_obstacle:
  "(fst (compute_phase i) = Invalid \<longleftrightarrow> pi_invalid i \<noteq> None) \<and>
   (fst (compute_phase i) = Pending \<longleftrightarrow> may_hold i \<and> pi_device i = None) \<and>
   (fst (compute_phase i) = DeviceUnavailable \<longleftrightarrow> may_hold i \<and> pi_device i \<noteq> None \<and> \<not> pi_device_available i) \<and>
   (fst (compute_phase i) = Connecting \<longleftrightarrow> (\<exists>vmi. vm_ready i vmi \<and> \<not> data_path_up i vmi))"
  unfolding compute_phase_cases
  by (auto simp: phase_conditions phase_client_passthrough_def split: option.splits)

end
