(* ===== verification/Controller.thy ===== *)
theory Controller
  imports BootHold Phase
begin

text \<open>
  The control loop of \<open>src/controller.rs\<close>: \<open>reconcile_all\<close> marks lost devices, frees
  the leases of dead claims, allocates slots, reconciles every claim (\<open>reconcile_claim\<close>) and
  then the boot holds. The caches are the fields of \<open>Ctx\<close>; a pass works on its own copy of
  the devices, which each accepted patch replaces by the server's reply. Logging is not modelled.

  The four places that patch a device under its resource version and then either store the
  reply or ask for a retry share the definition \<open>cas_update\<close>; the result says whether the
  patch was accepted.
\<close>

section \<open>Configuration and caches\<close>

record ControllerConfig =
  cc_namespace :: string
  cc_psk_secret :: "string option"
  cc_lost_after :: u64
  cc_resync :: u64

record Ctx =
  cx_config :: ControllerConfig
  cx_claims :: "UsbDeviceClaim list"
  cx_devices :: "UsbDevice list"
  cx_vms :: "DynamicObject list"
  cx_vmis :: "DynamicObject list"

definition lost_after_secs :: "Ctx \<Rightarrow> int" where
  "lost_after_secs ctx = sint (cc_lost_after (cx_config ctx))"

section \<open>Patching a device\<close>

definition lost_patch :: "string \<Rightarrow> DeviceStatusPatch" where
  "lost_patch message = no_patch\<lparr>dp_phase := Put (Some Lost), dp_exporter := Put None, dp_message := Put (Some message)\<rparr>"

definition lease_patch :: "Attachment option \<Rightarrow> DeviceStatusPatch" where
  "lease_patch lease = no_patch\<lparr>dp_attached_to := Put lease\<rparr>"

definition store_device :: "string \<Rightarrow> UsbDevice \<Rightarrow> unit run" where
  "store_device name d st = (Inr (), set_device name d st)"

definition cas_update :: "Server \<Rightarrow> string \<Rightarrow> UsbDevice \<Rightarrow> DeviceStatusPatch \<Rightarrow> bool run" where
  "cas_update srv name d patch =
     and_then (cas_patch_status srv d patch)
       (\<lambda>reply. case reply of
          Some updated \<Rightarrow> and_then (store_device name updated) (\<lambda>_. return True)
        | None \<Rightarrow> return False)"

section \<open>Sweeping the devices\<close>

definition heartbeat_missed :: "Lib \<Rightarrow> seconds \<Rightarrow> int \<Rightarrow> UsbDevice \<Rightarrow> bool" where
  "heartbeat_missed L now lost_after d \<longleftrightarrow>
     st_phase (status_ref d) = Some Available \<and>
     is_none_or (\<lambda>age. age > lost_after) (age_secs L (st_last_seen (status_ref d)) now)"

definition lost_message :: "int \<Rightarrow> UsbDevice \<Rightarrow> string" where
  "lost_message lost_after d =
     ''no heartbeat from the agent on '' @ (case st_node (status_ref d) of Some n \<Rightarrow> n | None \<Rightarrow> ''?'') @
     '' for over '' @ show_int lost_after @ ''s''"

definition mark_lost :: "Lib \<Rightarrow> Server \<Rightarrow> seconds \<Rightarrow> int \<Rightarrow> string \<Rightarrow> UsbDevice \<Rightarrow> bool run" where
  "mark_lost L srv now lost_after name d =
     (if heartbeat_missed L now lost_after d
      then and_then (cas_update srv name d (lost_patch (lost_message lost_after d))) (\<lambda>won. return (\<not> won))
      else return False)"

definition free_dead_lease :: "Server \<Rightarrow> string set \<Rightarrow> string \<Rightarrow> UsbDevice \<Rightarrow> bool run" where
  "free_dead_lease srv live_claims name d =
     (case st_attached_to (status_ref d) of
        None \<Rightarrow> return False
      | Some lease \<Rightarrow>
          if at_claim_uid lease \<notin> live_claims
          then and_then (cas_update srv name d (lease_patch None)) (\<lambda>won. return (\<not> won))
          else return False)"

definition with_device :: "string \<Rightarrow> string \<Rightarrow> (UsbDevice \<Rightarrow> 'a run) \<Rightarrow> 'a run" where
  "with_device panic name f st =
     (case map_of (c_devices st) name of None \<Rightarrow> fail (Panic panic) st | Some d \<Rightarrow> f d st)"

definition sweep_device :: "Lib \<Rightarrow> Server \<Rightarrow> seconds \<Rightarrow> int \<Rightarrow> string set \<Rightarrow> string \<Rightarrow> bool run" where
  "sweep_device L srv now lost_after live_claims name =
     and_then (with_device ''device'' name (mark_lost L srv now lost_after name))
       (\<lambda>requeue. and_then (with_device ''device'' name (free_dead_lease srv live_claims name))
          (\<lambda>again. return (requeue \<or> again)))"

fun sweep_devices :: "Lib \<Rightarrow> Server \<Rightarrow> seconds \<Rightarrow> int \<Rightarrow> string set \<Rightarrow> string list \<Rightarrow> bool \<Rightarrow> bool run" where
  "sweep_devices L srv now lost_after live_claims [] requeue = return requeue"
| "sweep_devices L srv now lost_after live_claims (name # names) requeue =
     and_then (sweep_device L srv now lost_after live_claims name)
       (\<lambda>again. sweep_devices L srv now lost_after live_claims names (requeue \<or> again))"

section \<open>One claim\<close>

record ClaimOutcome =
  out_requeue :: bool
  out_hold :: "BootHoldClaim option"

definition claim_uid :: "UsbDeviceClaim \<Rightarrow> string" where
  "claim_uid claim = unwrap_or_default (om_uid (uc_metadata claim))"

definition claim_namespace :: "UsbDeviceClaim \<Rightarrow> string" where
  "claim_namespace claim = unwrap_or_default (om_namespace (uc_metadata claim))"

definition claim_vm_key :: "UsbDeviceClaim \<Rightarrow> string \<times> string" where
  "claim_vm_key claim = (claim_namespace claim, cs_vm_name (uc_spec claim))"

definition claim_previous :: "UsbDeviceClaim \<Rightarrow> UsbDeviceClaimStatus" where
  "claim_previous claim = (case uc_status claim of None \<Rightarrow> default_claim_status | Some s \<Rightarrow> s)"

definition bind_owner :: "Server \<Rightarrow> UsbDeviceClaim \<Rightarrow> VmInfo option \<Rightarrow> VmiInfo option \<Rightarrow> bool run" where
  "bind_owner srv claim vm vmi =
     (if cs_vm_name (uc_spec claim) = [] then return False
      else case claim_owner_references (om_owner_references (uc_metadata claim)) (cs_vm_name (uc_spec claim)) (vm_owner vm vmi) of
             None \<Rightarrow> return False
           | Some refs \<Rightarrow>
               and_then (patch_owners srv (claim_namespace claim) (claim_name_any claim)
                           (om_resource_version (uc_metadata claim)) refs)
                 (\<lambda>reply. case reply of
                    Inr _ \<Rightarrow> return False
                  | Inl err \<Rightarrow> if is_conflict err \<or> is_not_found err then return True else fail (KubeErr err)))"

definition invalid_reason :: "Lib \<Rightarrow> (string \<rightharpoonup> slot_result) \<Rightarrow> UsbDeviceClaim \<Rightarrow> string option" where
  "invalid_reason L slots claim =
     (case selector_validate L (cs_selector (uc_spec claim)) of
        Inl e \<Rightarrow> Some e
      | Inr _ \<Rightarrow>
          if cs_vm_name (uc_spec claim) = [] then Some ''spec.vmName is required''
          else case slots (claim_uid claim) of Some (Inl e) \<Rightarrow> Some e | _ \<Rightarrow> None)"

definition held_by :: "(string, UsbDevice) btree \<Rightarrow> string \<Rightarrow> string list" where
  "held_by devices uid = map device_name_any (filter (\<lambda>d. lease_holder d = Some uid) (map snd devices))"

definition available_in :: "Lib \<Rightarrow> seconds \<Rightarrow> int \<Rightarrow> (string, UsbDevice) btree \<Rightarrow> string \<Rightarrow> bool" where
  "available_in L now lost_after devices n = is_some_and (\<lambda>d. is_available L d now lost_after) (map_of devices n)"

definition current_device ::
  "Lib \<Rightarrow> seconds \<Rightarrow> int \<Rightarrow> DeviceSelector \<Rightarrow> string option \<Rightarrow> (string, UsbDevice) btree \<Rightarrow> string list \<Rightarrow> string option" where
  "current_device L now lost_after selector previous_name devices held =
     min_by_key (\<lambda>n. (previous_name \<noteq> Some n, \<not> available_in L now lost_after devices n, n))
       (filter (\<lambda>n. is_some_and (selector_matches selector) (map_of devices n)) held)"

definition candidate_device ::
  "Lib \<Rightarrow> seconds \<Rightarrow> int \<Rightarrow> DeviceSelector \<Rightarrow> (string, UsbDevice) btree \<Rightarrow> string option \<Rightarrow> string option" where
  "candidate_device L now lost_after selector devices current =
     (let free = sort_key (\<lambda>d. (\<not> is_available L d now lost_after, device_name_any d))
                   (filter (\<lambda>d. lease_holder d = None \<and> selector_matches selector d) (map snd devices))
      in case free of
           [] \<Rightarrow> None
         | d # _ \<Rightarrow> if is_available L d now lost_after \<or> current = None then Some (device_name_any d) else None)"

definition lease_for :: "Lib \<Rightarrow> seconds \<Rightarrow> UsbDeviceClaim \<Rightarrow> Attachment" where
  "lease_for L now claim =
     \<lparr>at_namespace = claim_namespace claim, at_claim = claim_name_any claim, at_claim_uid = claim_uid claim,
      at_vm_name = cs_vm_name (uc_spec claim), at_since = rfc3339 L now\<rparr>"

definition lease_candidate ::
  "Lib \<Rightarrow> Server \<Rightarrow> seconds \<Rightarrow> UsbDeviceClaim \<Rightarrow> string option \<Rightarrow> string \<Rightarrow> (string option \<times> bool) run" where
  "lease_candidate L srv now claim current candidate =
     with_device ''candidate exists'' candidate
       (\<lambda>d. and_then (cas_update srv candidate d (lease_patch (Some (lease_for L now claim))))
          (\<lambda>won. return (if won then (Some candidate, False) else (current, True))))"

definition choose_target ::
  "Lib \<Rightarrow> Server \<Rightarrow> seconds \<Rightarrow> int \<Rightarrow> UsbDeviceClaim \<Rightarrow> string list \<Rightarrow> bool \<Rightarrow> (string option \<times> bool) run" where
  "choose_target L srv now lost_after claim held may_hold_device st =
     (if \<not> may_hold_device then return (None, False) st
      else if list_ex (\<lambda>n. map_of (c_devices st) n = None) held then fail (Panic ''no entry found for key'') st
      else
        let devices = c_devices st;
            selector = cs_selector (uc_spec claim);
            current = current_device L now lost_after selector (ucs_device_name (claim_previous claim)) devices held
        in if is_some_and (available_in L now lost_after devices) current then return (current, False) st
           else case candidate_device L now lost_after selector devices current of
                  None \<Rightarrow> return (current, False) st
                | Some candidate \<Rightarrow> lease_candidate L srv now claim current candidate st)"

fun release_devices :: "Server \<Rightarrow> string list \<Rightarrow> bool \<Rightarrow> bool run" where
  "release_devices srv [] requeue = return requeue"
| "release_devices srv (name # names) requeue =
     and_then (with_device ''held device exists'' name (\<lambda>d. cas_update srv name d (lease_patch None)))
       (\<lambda>won. release_devices srv names (requeue \<or> \<not> won))"

definition write_claim_status ::
  "Server \<Rightarrow> UsbDeviceClaim \<Rightarrow> ClaimDesired \<Rightarrow> unit run" where
  "write_claim_status srv claim desired =
     (let previous = claim_previous claim;
          unchanged = (ucs_phase previous = Some (cd_phase desired) \<and> ucs_device_name previous = cd_device_name desired \<and>
                       ucs_source_node previous = cd_source_node desired \<and> ucs_slot previous = cd_slot desired \<and>
                       ucs_message previous = Some (cd_message desired) \<and>
                       ucs_observed_generation previous = cd_observed_generation desired);
          stale_boot_hold = (cs_hold_boot (uc_spec claim) = None \<and> ucs_boot_hold previous \<noteq> None)
      in if \<not> unchanged \<or> stale_boot_hold then
           and_then (patch_claim_status srv (claim_namespace claim) (claim_name_any claim)
                       \<lparr>cp_desired = Put desired, cp_boot_hold = (if stale_boot_hold then Put None else Keep)\<rparr>)
             (\<lambda>reply. case reply of
                Inr _ \<Rightarrow> return ()
              | Inl err \<Rightarrow> if is_not_found err then return () else fail (KubeErr err))
         else return ())"

definition claim_ready :: "UsbDeviceClaimStatus \<Rightarrow> ClaimPhase \<Rightarrow> VmiInfo option \<Rightarrow> string option \<Rightarrow> int option \<Rightarrow> bool" where
  "claim_ready previous phase vmi target slot \<longleftrightarrow>
     phase = Attached \<or>
     is_some_and (\<lambda>c. co_awaiting_resume c = Some True \<and> Some (co_node c) = Option.bind vmi vi_node \<and>
                      Some (co_device_name c) = target \<and> Some (co_slot c) = slot) (ucs_connection previous)"

definition phase_inputs ::
  "Lib \<Rightarrow> seconds \<Rightarrow> int \<Rightarrow> UsbDeviceClaim \<Rightarrow> string option \<Rightarrow> UsbDevice option \<Rightarrow> VmInfo option \<Rightarrow> VmiInfo option \<Rightarrow>
   int option \<Rightarrow> PhaseInputs" where
  "phase_inputs L now lost_after claim invalid device vm vmi slot =
     \<lparr>pi_invalid = invalid, pi_device = device,
      pi_device_available = is_some_and (\<lambda>d. is_available L d now lost_after) device,
      pi_vm = vm, pi_vmi = vmi, pi_vm_present = vm_present vm vmi, pi_claim = claim, pi_slot = slot\<rparr>"

definition report_claim ::
  "Lib \<Rightarrow> Server \<Rightarrow> seconds \<Rightarrow> int \<Rightarrow> UsbDeviceClaim \<Rightarrow> (string \<rightharpoonup> slot_result) \<Rightarrow> VmInfo option \<Rightarrow> VmiInfo option \<Rightarrow>
   string option \<Rightarrow> bool \<Rightarrow> ClaimOutcome run" where
  "report_claim L srv now lost_after claim slots vm vmi target requeue st =
     (let previous = claim_previous claim;
          invalid = invalid_reason L slots claim;
          device = Option.bind target (map_of (c_devices st));
          slot = (case slots (claim_uid claim) of Some (Inr s) \<Rightarrow> Some s | _ \<Rightarrow> None);
          (phase, message) = compute_phase (phase_inputs L now lost_after claim invalid device vm vmi slot);
          desired = \<lparr>cd_phase = phase, cd_device_name = target,
                     cd_source_node = Option.bind device (\<lambda>d. st_node (status_ref d)), cd_slot = slot,
                     cd_message = message, cd_observed_generation = om_generation (uc_metadata claim)\<rparr>
      in and_then (write_claim_status srv claim desired)
           (\<lambda>_. return
              \<lparr>out_requeue = requeue,
               out_hold = map_option (\<lambda>hold.
                 \<lparr>bc_name = claim_name_any claim, bc_ready = claim_ready previous phase vmi target slot,
                  bc_invalid = (invalid \<noteq> None), bc_timeout_seconds = timeout_seconds hold,
                  bc_current = ucs_boot_hold previous\<rparr>) (cs_hold_boot (uc_spec claim))\<rparr>) st)"

type_synonym ('i) vm_table = "string \<times> string \<rightharpoonup> 'i"

definition hold_devices ::
  "Lib \<Rightarrow> Server \<Rightarrow> seconds \<Rightarrow> int \<Rightarrow> UsbDeviceClaim \<Rightarrow> bool \<Rightarrow> (string option \<times> bool) run" where
  "hold_devices L srv now lost_after claim may_hold_device st =
     (let held = held_by (c_devices st) (claim_uid claim)
      in and_then (choose_target L srv now lost_after claim held may_hold_device)
           (\<lambda>(target, requeue). and_then (release_devices srv (filter (\<lambda>n. Some n \<noteq> target) held) requeue)
              (\<lambda>again. return (target, again))) st)"

definition reconcile_claim ::
  "Lib \<Rightarrow> Server \<Rightarrow> seconds \<Rightarrow> int \<Rightarrow> VmInfo vm_table \<Rightarrow> VmiInfo vm_table \<Rightarrow> (string \<rightharpoonup> slot_result) \<Rightarrow>
   UsbDeviceClaim \<Rightarrow> ClaimOutcome run" where
  "reconcile_claim L srv now lost_after vms vmis slots claim =
     (let vm = vms (claim_vm_key claim);
          vmi = vmis (claim_vm_key claim);
          may_hold_device = (invalid_reason L slots claim = None \<and> vm_present vm vmi)
      in and_then (bind_owner srv claim vm vmi)
           (\<lambda>rebind. and_then (hold_devices L srv now lost_after claim may_hold_device)
              (\<lambda>(target, retry). report_claim L srv now lost_after claim slots vm vmi target (rebind \<or> retry))))"

section \<open>A pass over everything\<close>

definition live_claims_of :: "UsbDeviceClaim list \<Rightarrow> UsbDeviceClaim list" where
  "live_claims_of claims =
     sort_key (\<lambda>c. (om_creation_timestamp (uc_metadata c), om_namespace (uc_metadata c), claim_name_any c))
       (filter (\<lambda>c. om_deletion_timestamp (uc_metadata c) = None \<and> om_uid (uc_metadata c) \<noteq> None) claims)"

definition vm_table_of :: "DynamicObject list \<Rightarrow> VmInfo vm_table" where
  "vm_table_of objs = collect_map (map (\<lambda>v. ((vm_namespace v, vm_name v), v)) (List.map_filter vm_from_object objs))"

definition vmi_entries :: "DynamicObject list \<Rightarrow> (string \<times> string, VmiInfo) btree" where
  "vmi_entries objs = bt_collect (map (\<lambda>v. ((vi_namespace v, vi_name v), v)) (List.map_filter vmi_from_object objs))"

definition vmi_table_of :: "DynamicObject list \<Rightarrow> VmiInfo vm_table" where
  "vmi_table_of objs = map_of (vmi_entries objs)"

definition live_vmis_of :: "DynamicObject list \<Rightarrow> string set" where
  "live_vmis_of objs = set (map (\<lambda>(_, v). vi_uid v) (vmi_entries objs))"

definition slot_request_of :: "UsbDeviceClaim \<Rightarrow> SlotRequest" where
  "slot_request_of c =
     \<lparr>sr_uid = claim_uid c, sr_name = claim_name_any c, sr_vm = claim_vm_key c,
      sr_pinned = cs_slot (uc_spec c), sr_previous = Option.bind (uc_status c) ucs_slot\<rparr>"

type_synonym hold_table = "(string \<times> string, BootHoldClaim list) btree"

fun reconcile_claims ::
  "Lib \<Rightarrow> Server \<Rightarrow> seconds \<Rightarrow> int \<Rightarrow> VmInfo vm_table \<Rightarrow> VmiInfo vm_table \<Rightarrow> (string \<rightharpoonup> slot_result) \<Rightarrow>
   UsbDeviceClaim list \<Rightarrow> bool \<Rightarrow> hold_table \<Rightarrow> (bool \<times> hold_table) run" where
  "reconcile_claims L srv now lost_after vms vmis slots [] requeue holds = return (requeue, holds)"
| "reconcile_claims L srv now lost_after vms vmis slots (claim # claims) requeue holds =
     (\<lambda>st. case reconcile_claim L srv now lost_after vms vmis slots claim st of
         (Inr outcome, st') \<Rightarrow>
           reconcile_claims L srv now lost_after vms vmis slots claims (requeue \<or> out_requeue outcome)
             (case out_hold outcome of None \<Rightarrow> holds | Some hold \<Rightarrow> bt_push (claim_vm_key claim) hold holds) st'
       | (Inl (KubeErr err), st') \<Rightarrow>
           reconcile_claims L srv now lost_after vms vmis slots claims True holds st'
       | (Inl (Panic m), st') \<Rightarrow> fail (Panic m) st')"

fun reconcile_boot_holds ::
  "Lib \<Rightarrow> Server \<Rightarrow> seconds \<Rightarrow> VmInfo vm_table \<Rightarrow> VmiInfo vm_table \<Rightarrow> hold_table \<Rightarrow> bool \<Rightarrow> bool run" where
  "reconcile_boot_holds L srv now vms vmis [] requeue = return requeue"
| "reconcile_boot_holds L srv now vms vmis ((key, claims) # holds) requeue =
     (\<lambda>st. case reconcile_boot_hold L srv key claims (vms key) (vmis key) now st of
         (Inr again, st') \<Rightarrow> reconcile_boot_holds L srv now vms vmis holds (requeue \<or> again) st'
       | (Inl (KubeErr err), st') \<Rightarrow> reconcile_boot_holds L srv now vms vmis holds True st'
       | (Inl (Panic m), st') \<Rightarrow> fail (Panic m) st')"

definition forget_gone :: "string set \<Rightarrow> unit run" where
  "forget_gone live_vmis st =
     (Inr (), st\<lparr>c_released := retain (\<lambda>uid _. uid \<in> live_vmis) (c_released st)\<rparr>)"

definition load_devices :: "UsbDevice list \<Rightarrow> unit run" where
  "load_devices ds st = (Inr (), st\<lparr>c_devices := bt_collect (map (\<lambda>d. (device_name_any d, d)) ds)\<rparr>)"

definition reconcile_all :: "Lib \<Rightarrow> Server \<Rightarrow> Ctx \<Rightarrow> seconds \<Rightarrow> bool run" where
  "reconcile_all L srv ctx now =
     (let lost_after = lost_after_secs ctx;
          claims = live_claims_of (cx_claims ctx);
          live_claims = set (List.map_filter (\<lambda>c. om_uid (uc_metadata c)) claims);
          vms = vm_table_of (cx_vms ctx);
          vmis = vmi_table_of (cx_vmis ctx);
          names = map fst (bt_collect (map (\<lambda>d. (device_name_any d, d)) (cx_devices ctx)));
          slots = allocate_slots (map slot_request_of claims)
      in and_then (load_devices (cx_devices ctx))
           (\<lambda>_. and_then (sweep_devices L srv now lost_after live_claims names False)
              (\<lambda>requeue. and_then (reconcile_claims L srv now lost_after vms vmis slots claims requeue [])
                 (\<lambda>(requeue, holds). and_then (forget_gone (live_vmis_of (cx_vmis ctx)))
                    (\<lambda>_. reconcile_boot_holds L srv now vms vmis holds requeue)))))"

text \<open>How long the loop of \<open>run\<close> waits for a change after a pass; a panic ends the loop.\<close>

definition next_wait :: "ControllerConfig \<Rightarrow> RunError + bool \<Rightarrow> u64 option" where
  "next_wait config result =
     (case result of
        Inr requeue \<Rightarrow> Some (if requeue then 1 else cc_resync config)
      | Inl (KubeErr _) \<Rightarrow> Some 1
      | Inl (Panic _) \<Rightarrow> None)"

end
