(* ===== verification/Leases.thy ===== *)
theory Leases
  imports Controller
begin

text \<open>
  What the control loop guarantees about leases. Everything rests on one lemma about
  \<open>cas_update\<close>: under optimistic concurrency a patch is applied to the very object the
  controller looked at. The working copy of the devices is then always a set of genuine objects,
  a lease is only ever written onto an object that has none, a claim that was reconciled without a
  retry holds at most the device it reports, and the loop never panics.
\<close>

section \<open>The working copy\<close>

definition cache_ok :: "(string \<Rightarrow> string \<Rightarrow> UsbDevice) \<Rightarrow> CState \<Rightarrow> bool" where
  "cache_ok V st \<longleftrightarrow> bt_sorted (c_devices st) \<and>
     (\<forall>n d. map_of (c_devices st) n = Some d \<longrightarrow> device_name_any d = n \<and> genuine V d)"

definition holders :: "CState \<Rightarrow> string \<Rightarrow> string set" where
  "holders st uid = {n. is_some_and (\<lambda>d. lease_holder d = Some uid) (map_of (c_devices st) n)}"

lemma holders_unique: "n \<in> holders st u \<Longrightarrow> n \<in> holders st w \<Longrightarrow> u = w"
  by (auto simp: holders_def is_some_and_iff)

text \<open>What every operation on the devices does to the rest of the state.\<close>

definition extends :: "(string \<Rightarrow> string \<Rightarrow> UsbDevice) \<Rightarrow> (ApiCall \<Rightarrow> bool) \<Rightarrow> CState \<Rightarrow> CState \<Rightarrow> bool" where
  "extends V P st st' \<longleftrightarrow> cache_ok V st' \<and> c_released st' = c_released st \<and>
     map fst (c_devices st') = map fst (c_devices st) \<and>
     (\<exists>calls. c_log st' = c_log st @ calls \<and> list_all P calls)"

lemma extends_refl: "cache_ok V st \<Longrightarrow> extends V P st st"
  by (simp add: extends_def)

lemma extends_trans [trans]: "extends V P a b \<Longrightarrow> extends V P b c \<Longrightarrow> extends V P a c"
  by (auto simp: extends_def)

lemma extends_cache: "extends V P a b \<Longrightarrow> cache_ok V b"
  by (simp add: extends_def)

lemma extends_calls: "extends V P st st' \<Longrightarrow> list_all P (new_calls st st')"
  by (auto simp: extends_def new_calls_def)

lemma keys_bt_insert_existing: "bt_sorted m \<Longrightarrow> k \<in> fst ` set m \<Longrightarrow> map fst (bt_insert k v m) = map fst m"
proof (induction m)
  case (Cons kv m)
  obtain k' v' where kv: "kv = (k', v')" by fastforce
  show ?case
  proof (cases "k = k'")
    case False
    then have "k \<in> fst ` set m" "\<not> k < k'" using Cons.prems by (auto simp: kv)
    with Cons False show ?thesis by (simp add: kv)
  qed (simp add: kv)
qed simp

lemma map_of_key: "map_of m k = Some v \<Longrightarrow> k \<in> fst ` set m"
  by (force dest: map_of_SomeD)

section \<open>Patching under a version\<close>

lemma cas_update_cases:
  assumes "cas_contract V srv" "cache_ok V st" "map_of (c_devices st) n = Some d"
    and P: "\<forall>v. d = V n v \<longrightarrow> P (PatchDeviceStatus n (Some v) patch)"
  obtains (won) u st' where "cas_update srv n d patch st = (Inr True, st')" "extends V P st st'"
      "map_of (c_devices st') = (map_of (c_devices st))(n \<mapsto> u)" "ud_status u = Some (merge_status patch (status_ref d))"
      "ud_spec u = ud_spec d \<and> om_name (ud_metadata u) = om_name (ud_metadata d)"
  | (lost) st' where "cas_update srv n d patch st = (Inr False, st')" "extends V P st st'" "c_devices st' = c_devices st"
  | (failed) e st' where "cas_update srv n d patch st = (Inl (KubeErr e), st')" "extends V P st st'" "c_devices st' = c_devices st"
proof -
  from assms(2,3) have name: "device_name_any d = n" and "genuine V d" by (auto simp: cache_ok_def)
  then obtain v where v: "om_resource_version (ud_metadata d) = Some v" "d = V n v" by (auto simp: genuine_def)
  let ?call = "PatchDeviceStatus n (Some v) patch"
  have ext: "extends V P st (record_call ?call st)"
    using assms(2) P v(2) by (simp add: extends_def cache_ok_def)
  show ?thesis
  proof (cases "sv_patch_device srv (c_log st) n (Some v) patch")
    case (Inl e)
    show ?thesis
    proof (cases "is_conflict e \<or> is_not_found e")
      case True
      have "cas_update srv n d patch st = (Inr False, record_call ?call st)"
        using True Inl v(1) name by (simp add: cas_update_def and_then_def cas_patch_status_def return_def)
      then show ?thesis by (rule lost) (use ext in simp_all)
    next
      case False
      have "cas_update srv n d patch st = (Inl (KubeErr e), record_call ?call st)"
        using False Inl v(1) name by (simp add: cas_update_def and_then_def cas_patch_status_def)
      then show ?thesis by (rule failed) (use ext in simp_all)
    qed
  next
    case (Inr u)
    let ?st' = "set_device n u (record_call ?call st)"
    have u: "device_name_any u = n" "genuine V u" "ud_status u = Some (merge_status patch (status_ref d))"
      "ud_spec u = ud_spec d \<and> om_name (ud_metadata u) = om_name (ud_metadata d)"
      using assms(1) Inr patch_contract_reply(1) v(2) by (auto simp: cas_contract_def)
    have "cas_update srv n d patch st = (Inr True, ?st')"
      using Inr v(1) name by (simp add: cas_update_def and_then_def cas_patch_status_def store_device_def return_def)
    moreover have "extends V P st ?st'"
      using assms(2,3) P v(2) u
      by (auto simp: extends_def cache_ok_def bt_sorted_insert map_of_bt_insert keys_bt_insert_existing map_of_key)
    ultimately show ?thesis by (rule won [OF _ _ _ u(3,4)]) (simp add: map_of_bt_insert)
  qed
qed

lemma lease_holder_merged:
  "ud_status u = Some (merge_status (lease_patch a) s) \<Longrightarrow> lease_holder u = map_option at_claim_uid a"
  by (simp add: lease_holder_def status_ref_def merge_status_def lease_patch_def)

lemma lease_holder_lost: "ud_status u = Some (merge_status (lost_patch m) (status_ref d)) \<Longrightarrow> lease_holder u = lease_holder d"
  by (simp add: lease_holder_def status_ref_def merge_status_def lost_patch_def no_patch_def)

text \<open>A lease changes neither what a selector sees of a device nor its availability.\<close>

lemma leased_device:
  assumes "ud_status u = Some (merge_status (lease_patch a) (status_ref d))"
    and "ud_spec u = ud_spec d \<and> om_name (ud_metadata u) = om_name (ud_metadata d)"
  shows "selector_matches sel u = selector_matches sel d" and "is_available L u now lost = is_available L d now lost"
proof -
  have "st_node (status_ref u) = st_node (status_ref d)" "st_port_path (status_ref u) = st_port_path (status_ref d)"
    "st_phase (status_ref u) = st_phase (status_ref d)" "st_exporter (status_ref u) = st_exporter (status_ref d)"
    "st_last_seen (status_ref u) = st_last_seen (status_ref d)"
    unfolding status_ref_def [of u] assms(1) by (simp_all add: merge_status_def lease_patch_def no_patch_def)
  with assms(2) show "selector_matches sel u = selector_matches sel d" "is_available L u now lost = is_available L d now lost"
    by (simp_all add: selector_matches_def is_available_def)
qed

section \<open>Releasing\<close>

text \<open>What an operation may do to the devices: nothing outside \<open>S\<close>, and it does not panic.\<close>

definition touches :: "string set \<Rightarrow> CState \<Rightarrow> (RunError + 'a) \<times> CState \<Rightarrow> bool" where
  "touches S st res \<longleftrightarrow> (\<forall>m. m \<notin> S \<longrightarrow> map_of (c_devices (snd res)) m = map_of (c_devices st) m) \<and>
     (\<forall>p. fst res \<noteq> Inl (Panic p))"

lemma release_devices_spec:
  fixes requeue :: bool
  assumes "cas_contract V srv" "cache_ok V st" "distinct names" "set names \<subseteq> holders st uid"
    and P: "\<And>n v. lease_holder (V n v) = Some uid \<Longrightarrow> P (PatchDeviceStatus n (Some v) (lease_patch None))"
  defines "res \<equiv> release_devices srv names requeue st"
  shows "extends V P st (snd res) \<and> touches (set names) st res \<and>
    (fst res = Inr False \<longrightarrow> \<not> requeue \<and> (\<forall>u. holders (snd res) u = holders st u - set names))"
  using assms(2,3,4) unfolding res_def
proof (induction names arbitrary: requeue st)
  case Nil
  then show ?case by (simp add: return_def extends_refl touches_def)
next
  case (Cons n names)
  then obtain d where d: "map_of (c_devices st) n = Some d" "lease_holder d = Some uid"
    by (auto simp: holders_def is_some_and_iff)
  from Cons.prems have n: "n \<notin> set names" and names: "distinct names" "set names \<subseteq> holders st uid" by auto
  have run: "release_devices srv (n # names) requeue st =
      and_then (cas_update srv n d (lease_patch None)) (\<lambda>won. release_devices srv names (requeue \<or> \<not> won)) st"
    by (simp add: and_then_def with_device_def d)
  have Pn: "\<forall>v. d = V n v \<longrightarrow> P (PatchDeviceStatus n (Some v) (lease_patch None))"
    using P d(2) by blast
  show ?case
  proof (cases rule: cas_update_cases [OF assms(1) Cons.prems(1) d(1) Pn, case_names won lost failed])
    case (won u st')
    have holders: "holders st' w = holders st w - {n}" for w
      using won(3) lease_holder_merged [OF won(4)] by (auto simp: holders_def)
    have "set names \<subseteq> holders st' uid" using names(2) n holders by auto
    from Cons.IH [OF extends_cache [OF won(2)] names(1) this, of requeue] show ?thesis
      unfolding run using won(1-3) extends_trans [OF won(2)] holders by (auto simp: and_then_def touches_def)
  next
    case (lost st')
    have "holders st' = holders st" using lost(3) by (simp add: holders_def fun_eq_iff)
    with Cons.IH [OF extends_cache [OF lost(2)] names(1), of True] names(2) show ?thesis
      unfolding run using lost(1-3) extends_trans [OF lost(2)] by (auto simp: and_then_def touches_def)
  next
    case (failed e st')
    then show ?thesis unfolding run by (simp add: and_then_def touches_def)
  qed
qed

section \<open>Choosing a device\<close>

lemma set_held_by: "cache_ok V st \<Longrightarrow> set (held_by (c_devices st) uid) = holders st uid"
  by (force simp: cache_ok_def held_by_def holders_def is_some_and_iff bt_entries_get [symmetric])

lemma distinct_held_by: "cache_ok V st \<Longrightarrow> distinct (held_by (c_devices st) uid)"
proof -
  assume ok: "cache_ok V st"
  then have "map device_name_any (map snd (c_devices st)) = map fst (c_devices st)"
    by (force simp: cache_ok_def bt_entries_get [symmetric])
  moreover have "distinct (map fst (c_devices st))" using ok by (simp add: cache_ok_def bt_sorted_distinct)
  ultimately have "distinct (map device_name_any (map snd (c_devices st)))" by metis
  then show ?thesis unfolding held_by_def by (rule distinct_map_filter)
qed

lemma candidate_device_SomeD:
  assumes "cache_ok V st" "candidate_device L now lost sel (c_devices st) current = Some n"
  shows "\<exists>d. map_of (c_devices st) n = Some d \<and> lease_holder d = None \<and> selector_matches sel d \<and>
    (is_available L d now lost \<or> current = None)"
proof -
  let ?free = "sort_key (\<lambda>d. (\<not> is_available L d now lost, device_name_any d))
      (filter (\<lambda>d. lease_holder d = None \<and> selector_matches sel d) (map snd (c_devices st)))"
  obtain d rest where free: "?free = d # rest" and n: "n = device_name_any d" "is_available L d now lost \<or> current = None"
    using assms(2) by (auto simp: candidate_device_def Let_def split: list.splits if_splits)
  have "d \<in> set ?free" by (simp only: free list.set_intros)
  then obtain k where "(k, d) \<in> set (c_devices st)" "lease_holder d = None" "selector_matches sel d" by auto
  with assms(1) n show ?thesis by (auto simp: cache_ok_def bt_entries_get)
qed

lemma current_device_SomeD:
  "current_device L now lost sel prev devices held = Some n \<Longrightarrow>
   n \<in> set held \<and> is_some_and (selector_matches sel) (map_of devices n)"
  by (auto simp: current_device_def dest!: min_by_key_SomeD)

lemma candidate_device_free:
  assumes "cache_ok V st" "map_of (c_devices st) m = Some e" "lease_holder e = None" "selector_matches sel e" "is_available L e now lost"
  shows "\<exists>n d. candidate_device L now lost sel (c_devices st) current = Some n \<and> map_of (c_devices st) n = Some d \<and> is_available L d now lost"
proof -
  let ?key = "\<lambda>d. (\<not> is_available L d now lost, device_name_any d)"
  let ?free = "filter (\<lambda>d. lease_holder d = None \<and> selector_matches sel d) (map snd (c_devices st))"
  have e: "e \<in> set (sort_key ?key ?free)" using assms by (force dest: map_of_SomeD)
  then obtain d rest where free: "sort_key ?key ?free = d # rest" by (cases "sort_key ?key ?free") auto
  have "sorted (map ?key (sort_key ?key ?free))" by simp
  then have "?key d \<le> ?key e" using e by (auto simp: free)
  then have d: "is_available L d now lost" using assms(5) by (auto simp: less_eq_prod_def)
  then have "candidate_device L now lost sel (c_devices st) current = Some (device_name_any d)"
    by (simp add: candidate_device_def Let_def free)
  moreover have "d \<in> set (sort_key ?key ?free)" by (simp only: free list.set_intros)
  then obtain k where "(k, d) \<in> set (c_devices st)" by auto
  then have "map_of (c_devices st) (device_name_any d) = Some d"
    using assms(1) by (auto simp: cache_ok_def bt_entries_get)
  ultimately show ?thesis using d by blast
qed

text \<open>What a claim may end up with: nothing if it may not hold a device, else a matching one of its own.\<close>

definition good_target :: "DeviceSelector \<Rightarrow> bool \<Rightarrow> string \<Rightarrow> CState \<Rightarrow> string option \<Rightarrow> bool" where
  "good_target sel may uid st target \<longleftrightarrow>
     is_none_or (\<lambda>n. may \<and> n \<in> holders st uid \<and> is_some_and (selector_matches sel) (map_of (c_devices st) n)) target"

lemma good_target_cong:
  "map_of (c_devices st') (the target) = map_of (c_devices st) (the target) \<Longrightarrow>
   good_target sel may uid st' target = good_target sel may uid st target"
  by (cases target) (simp_all add: good_target_def holders_def)

definition free_available :: "Lib \<Rightarrow> seconds \<Rightarrow> int \<Rightarrow> DeviceSelector \<Rightarrow> CState \<Rightarrow> bool" where
  "free_available L now lost sel st \<longleftrightarrow>
     (\<exists>n d. map_of (c_devices st) n = Some d \<and> lease_holder d = None \<and> selector_matches sel d \<and> is_available L d now lost)"

text \<open>The contract of the step that settles which device the claim should have.\<close>

definition target_spec ::
  "(string \<Rightarrow> string \<Rightarrow> UsbDevice) \<Rightarrow> (ApiCall \<Rightarrow> bool) \<Rightarrow> (CState \<Rightarrow> string option \<Rightarrow> bool) \<Rightarrow> (CState \<Rightarrow> string option \<Rightarrow> bool) \<Rightarrow>
   string \<Rightarrow> CState \<Rightarrow> (RunError + string option \<times> bool) \<times> CState \<Rightarrow> bool" where
  "target_spec V P good avail uid st res \<longleftrightarrow>
     extends V P st (snd res) \<and> (\<forall>p. fst res \<noteq> Inl (Panic p)) \<and>
     (\<forall>target requeue. fst res = Inr (target, requeue) \<longrightarrow>
        good (snd res) target \<and> holders (snd res) uid = holders st uid \<union> set_option target \<and>
        (\<forall>u. u \<noteq> uid \<longrightarrow> holders (snd res) u = holders st u) \<and> (\<not> requeue \<longrightarrow> avail (snd res) target))"

definition available_if :: "bool \<Rightarrow> Lib \<Rightarrow> seconds \<Rightarrow> int \<Rightarrow> CState \<Rightarrow> string option \<Rightarrow> bool" where
  "available_if b L now lost st target \<longleftrightarrow> (b \<longrightarrow> is_some_and (available_in L now lost (c_devices st)) target)"

lemma target_spec_unchanged:
  "cache_ok V st \<Longrightarrow> good st target \<Longrightarrow> set_option target \<subseteq> holders st uid \<Longrightarrow> avail st target \<Longrightarrow>
   target_spec V P good avail uid st (Inr (target, False), st)"
  by (auto simp: target_spec_def extends_refl)

lemma good_target_holders: "good_target sel may uid st target \<Longrightarrow> set_option target \<subseteq> holders st uid"
  by (cases target) (auto simp: good_target_def)

lemma lease_candidate_spec:
  assumes "cas_contract V srv" "cache_ok V st"
    and d: "map_of (c_devices st) n = Some d" "lease_holder d = None" "selector_matches (cs_selector (uc_spec claim)) d"
    and Pn: "\<forall>v. d = V n v \<longrightarrow> P (PatchDeviceStatus n (Some v) (lease_patch (Some (lease_for L now claim))))"
    and current: "good_target (cs_selector (uc_spec claim)) True (claim_uid claim) st current"
    and b: "b \<Longrightarrow> is_available L d now lost"
  shows "target_spec V P (good_target (cs_selector (uc_spec claim)) True (claim_uid claim)) (available_if b L now lost)
    (claim_uid claim) st (lease_candidate L srv now claim current n st)"
proof -
  let ?sel = "cs_selector (uc_spec claim)" and ?uid = "claim_uid claim"
  have run: "lease_candidate L srv now claim current n st =
      and_then (cas_update srv n d (lease_patch (Some (lease_for L now claim))))
        (\<lambda>won. return (if won then (Some n, False) else (current, True))) st"
    using d by (simp add: lease_candidate_def with_device_def)
  show ?thesis
  proof (cases rule: cas_update_cases [OF assms(1,2) d(1) Pn, case_names won lost failed])
    case (won u st')
    have u: "lease_holder u = Some ?uid" using lease_holder_merged [OF won(4)] by (simp add: lease_for_def)
    have "available_if b L now lost st' (Some n)"
      using b leased_device(2) [OF won(4,5)] won(3) by (simp add: available_if_def available_in_def)
    moreover have "holders st' w = (if w = ?uid then insert n (holders st ?uid) else holders st w)" for w
      using won(3) u d by (auto simp: holders_def)
    moreover have "good_target ?sel True ?uid st' (Some n)"
      using won(3) u d leased_device(1) [OF won(4,5)] by (simp add: good_target_def holders_def)
    ultimately show ?thesis using won(1,2) by (simp add: run and_then_def return_def target_spec_def)
  next
    case (lost st')
    have "holders st' = holders st" using lost(3) by (simp add: holders_def fun_eq_iff)
    moreover have "good_target ?sel True ?uid st' current"
      using current good_target_cong [of st' current st] lost(3) by simp
    ultimately show ?thesis
      using lost(1,2) good_target_holders [OF current] by (auto simp: run and_then_def return_def target_spec_def)
  next
    case (failed e st')
    then show ?thesis by (simp add: run and_then_def target_spec_def)
  qed
qed

lemma current_good:
  assumes "cache_ok V st"
  shows "good_target sel True uid st (current_device L now lost sel prev (c_devices st) (held_by (c_devices st) uid))"
  using current_device_SomeD [of L now lost sel prev "c_devices st" "held_by (c_devices st) uid"] set_held_by [OF assms, of uid]
  by (cases "current_device L now lost sel prev (c_devices st) (held_by (c_devices st) uid)") (auto simp: good_target_def)

lemma choose_target_spec:
  fixes L now lost claim may
  assumes "cas_contract V srv" "cache_ok V st"
    and P: "\<And>n v. may \<Longrightarrow> lease_holder (V n v) = None \<Longrightarrow> selector_matches (cs_selector (uc_spec claim)) (V n v) \<Longrightarrow>
      P (PatchDeviceStatus n (Some v) (lease_patch (Some (lease_for L now claim))))"
  defines "uid \<equiv> claim_uid claim" and "sel \<equiv> cs_selector (uc_spec claim)"
  shows "target_spec V P (good_target sel may uid) (available_if (may \<and> free_available L now lost sel st) L now lost) uid st
    (choose_target L srv now lost claim (held_by (c_devices st) uid) may st)"
proof (cases may)
  case False
  then show ?thesis
    using target_spec_unchanged [OF assms(2), of "good_target sel may uid" None uid]
    by (simp add: choose_target_def return_def good_target_def available_if_def)
next
  case True
  let ?held = "held_by (c_devices st) uid"
  let ?current = "current_device L now lost sel (ucs_device_name (claim_previous claim)) (c_devices st) ?held"
  let ?candidate = "candidate_device L now lost sel (c_devices st) ?current"
  have "\<not> list_ex (\<lambda>n. map_of (c_devices st) n = None) ?held"
    using set_held_by [OF assms(2), of uid] by (auto simp: list_ex_iff holders_def is_some_and_iff)
  then have eq: "choose_target L srv now lost claim ?held may st =
      (if is_some_and (available_in L now lost (c_devices st)) ?current then (Inr (?current, False), st)
       else case ?candidate of
              None \<Rightarrow> (Inr (?current, False), st) | Some n \<Rightarrow> lease_candidate L srv now claim ?current n st)"
    using True by (simp add: choose_target_def sel_def return_def Let_def split: option.splits)
  have current: "good_target sel True uid st ?current" by (rule current_good [OF assms(2)])
  have free: "\<exists>n d. ?candidate = Some n \<and> map_of (c_devices st) n = Some d \<and> is_available L d now lost" if "free_available L now lost sel st"
    using that candidate_device_free [OF assms(2)] unfolding free_available_def by blast
  show ?thesis
  proof (cases "is_some_and (available_in L now lost (c_devices st)) ?current \<or> ?candidate = None")
    case keep: True
    then have "choose_target L srv now lost claim ?held may st = (Inr (?current, False), st)" by (auto simp: eq)
    moreover have "available_if (may \<and> free_available L now lost sel st) L now lost st ?current"
      using keep free by (auto simp: available_if_def)
    moreover have "good_target sel may uid st ?current" using current True by simp
    ultimately show ?thesis
      using target_spec_unchanged [where good = "good_target sel may uid", OF assms(2) _ good_target_holders [OF current]] by simp
  next
    case False
    then obtain n where n: "?candidate = Some n" by auto
    then obtain d where d: "map_of (c_devices st) n = Some d" "lease_holder d = None" "selector_matches sel d"
      using candidate_device_SomeD [OF assms(2)] by blast
    have Pn: "\<forall>v. d = V n v \<longrightarrow> P (PatchDeviceStatus n (Some v) (lease_patch (Some (lease_for L now claim))))"
      using P True d by (auto simp: sel_def)
    have av: "may \<and> free_available L now lost sel st \<Longrightarrow> is_available L d now lost" using free n d(1) by auto
    have "choose_target L srv now lost claim ?held may st = lease_candidate L srv now claim ?current n st"
      using False n by (simp add: eq)
    then show ?thesis
      using lease_candidate_spec [OF assms(1,2) d(1,2) d(3) [unfolded sel_def] Pn current [unfolded sel_def uid_def] av] True
      by (simp add: sel_def uid_def)
  qed
qed

section \<open>One claim\<close>

text \<open>The calls the reconciliation of a claim may make.\<close>

definition claim_call_ok ::
  "(string \<Rightarrow> string \<Rightarrow> UsbDevice) \<Rightarrow> Lib \<Rightarrow> seconds \<Rightarrow> bool \<Rightarrow> UsbDeviceClaim \<Rightarrow> ApiCall \<Rightarrow> bool" where
  "claim_call_ok V L now may claim call =
     (case call of
        PatchDeviceStatus n version patch \<Rightarrow>
          is_some_and (\<lambda>v.
            (may \<and> patch = lease_patch (Some (lease_for L now claim)) \<and> lease_holder (V n v) = None \<and>
             selector_matches (cs_selector (uc_spec claim)) (V n v)) \<or>
            (patch = lease_patch None \<and> lease_holder (V n v) = Some (claim_uid claim))) version
      | PatchClaimOwners ns n _ _ \<Rightarrow> ns = claim_namespace claim \<and> n = claim_name_any claim
      | PatchClaimStatus ns n _ \<Rightarrow> ns = claim_namespace claim \<and> n = claim_name_any claim
      | Unpause _ _ \<Rightarrow> False)"

text \<open>The contract of the part of \<open>reconcile_claim\<close> that moves leases: without a retry the
  claim holds exactly its target.\<close>

definition settled :: "string \<Rightarrow> CState \<Rightarrow> CState \<Rightarrow> string option \<Rightarrow> bool" where
  "settled uid st st' target \<longleftrightarrow> holders st' uid = set_option target \<and> (\<forall>u. u \<noteq> uid \<longrightarrow> holders st' u = holders st u)"

lemma hold_devices_spec:
  fixes L now lost claim may
  assumes "cas_contract V srv" "cache_ok V st"
  defines "uid \<equiv> claim_uid claim" and "sel \<equiv> cs_selector (uc_spec claim)"
    and "res \<equiv> hold_devices L srv now lost claim may st"
  shows "extends V (claim_call_ok V L now may claim) st (snd res) \<and> (\<forall>p. fst res \<noteq> Inl (Panic p)) \<and>
    (\<forall>target. fst res = Inr (target, False) \<longrightarrow> settled uid st (snd res) target \<and> good_target sel may uid (snd res) target \<and>
       available_if (may \<and> free_available L now lost sel st) L now lost (snd res) target)"
proof -
  let ?P = "claim_call_ok V L now may claim" and ?held = "held_by (c_devices st) uid"
  obtain r st1 where chosen: "choose_target L srv now lost claim ?held may st = (r, st1)" by fastforce
  have spec: "target_spec V ?P (good_target sel may uid) (available_if (may \<and> free_available L now lost sel st) L now lost) uid st (r, st1)"
    using choose_target_spec [OF assms(1,2), of may claim ?P L now lost]
    by (simp add: chosen [unfolded uid_def] uid_def sel_def claim_call_ok_def)
  show ?thesis
  proof (cases r)
    case (Inl e)
    with spec show ?thesis
      by (simp add: res_def hold_devices_def and_then_def chosen [unfolded uid_def] target_spec_def)
  next
    case (Inr tr)
    obtain target requeue where tr: "tr = (target, requeue)" by fastforce
    let ?names = "filter (\<lambda>n. Some n \<noteq> target) ?held"
    let ?rel = "release_devices srv ?names requeue st1"
    have st1: "extends V ?P st st1" "good_target sel may uid st1 target" "holders st1 uid = holders st uid \<union> set_option target"
      "\<forall>u. u \<noteq> uid \<longrightarrow> holders st1 u = holders st u" 
      "\<not> requeue \<longrightarrow> available_if (may \<and> free_available L now lost sel st) L now lost st1 target"
      using spec by (auto simp: target_spec_def Inr tr)
    have "set ?names \<subseteq> holders st1 uid" using set_held_by [OF assms(2), of uid] st1(3) by auto
    then have rel: "extends V ?P st1 (snd ?rel)" "touches (set ?names) st1 ?rel"
      "fst ?rel = Inr False \<longrightarrow> \<not> requeue \<and> (\<forall>u. holders (snd ?rel) u = holders st1 u - set ?names)"
      using release_devices_spec [OF assms(1) extends_cache [OF st1(1)] distinct_filter [OF distinct_held_by [OF assms(2)]],
          where uid = uid and P = ?P and requeue = requeue]
      by (auto simp: claim_call_ok_def uid_def)
    have same: "map_of (c_devices (snd ?rel)) (the target) = map_of (c_devices st1) (the target)" if "target \<noteq> None"
      using rel(2) that by (auto simp: touches_def)
    have "good_target sel may uid (snd ?rel) target"
      using st1(2) good_target_cong [OF same, of sel may uid] by (cases target) (auto simp: good_target_def)
    moreover have "available_if b L now lost (snd ?rel) target = available_if b L now lost st1 target" for b
      using same by (cases target) (auto simp: available_if_def available_in_def)
    moreover have "settled uid st (snd ?rel) target" if "fst ?rel = Inr False"
      using rel(3) that st1(3,4) set_held_by [OF assms(2), of uid] unfolding settled_def
      by (cases target) (auto dest: holders_unique)
    moreover have "res = (case ?rel of (Inl e, st') \<Rightarrow> (Inl e, st') | (Inr b, st') \<Rightarrow> (Inr (target, b), st'))"
      by (simp add: res_def hold_devices_def and_then_def return_def chosen [unfolded uid_def] Inr tr uid_def
          split: prod.split sum.split)
    ultimately show ?thesis
      using rel extends_trans [OF st1(1) rel(1)] st1(5) by (auto simp: touches_def split: prod.splits sum.splits)
  qed
qed

text \<open>The first and the last part of \<open>reconcile_claim\<close> leave the devices alone.\<close>

lemma extends_record: "cache_ok V st \<Longrightarrow> P call \<Longrightarrow> extends V P st (record_call call st)"
  by (simp add: extends_def cache_ok_def)

definition quiet :: "(string \<Rightarrow> string \<Rightarrow> UsbDevice) \<Rightarrow> (ApiCall \<Rightarrow> bool) \<Rightarrow> CState \<Rightarrow> (RunError + 'a) \<times> CState \<Rightarrow> bool" where
  "quiet V P st res \<longleftrightarrow> extends V P st (snd res) \<and> c_devices (snd res) = c_devices st \<and> (\<forall>p. fst res \<noteq> Inl (Panic p))"

lemma bind_owner_quiet: "cache_ok V st \<Longrightarrow> quiet V (claim_call_ok V L now may claim) st (bind_owner srv claim vm vmi st)"
  by (auto simp: quiet_def bind_owner_def and_then_def patch_owners_def return_def fail_def extends_refl claim_call_ok_def
      intro!: extends_record split: option.splits sum.splits)

lemma write_claim_status_quiet:
  "cache_ok V st \<Longrightarrow> quiet V (claim_call_ok V L now may claim) st (write_claim_status srv claim desired st)"
  by (auto simp: quiet_def write_claim_status_def Let_def and_then_def patch_claim_status_def return_def fail_def extends_refl
      claim_call_ok_def intro!: extends_record split: sum.splits)

lemma report_claim_quiet:
  assumes "cache_ok V st"
  shows "quiet V (claim_call_ok V L now may claim) st (report_claim L srv now' lost claim slots vm vmi target requeue st)"
    and "fst (report_claim L srv now' lost claim slots vm vmi target requeue st) = Inr out \<Longrightarrow> out_requeue out = requeue"
proof -
  obtain desired out' where run: "report_claim L srv now' lost claim slots vm vmi target requeue st =
      and_then (write_claim_status srv claim desired) (\<lambda>_. return out') st" and out': "out_requeue out' = requeue"
    by (auto simp: report_claim_def Let_def case_prod_unfold)
  show "quiet V (claim_call_ok V L now may claim) st (report_claim L srv now' lost claim slots vm vmi target requeue st)"
    using write_claim_status_quiet [OF assms, of L now may claim srv desired] unfolding run
    by (auto simp: quiet_def and_then_def return_def split: prod.splits sum.splits)
  show "out_requeue out = requeue" if "fst (report_claim L srv now' lost claim slots vm vmi target requeue st) = Inr out"
    using that out' unfolding run by (auto simp: and_then_def return_def split: prod.splits sum.splits)
qed

definition may_hold_device :: "Lib \<Rightarrow> VmInfo vm_table \<Rightarrow> VmiInfo vm_table \<Rightarrow> (string \<rightharpoonup> slot_result) \<Rightarrow> UsbDeviceClaim \<Rightarrow> bool" where
  "may_hold_device L vms vmis slots claim \<longleftrightarrow>
     invalid_reason L slots claim = None \<and> vm_present (vms (claim_vm_key claim)) (vmis (claim_vm_key claim))"

lemma holders_devices: "c_devices st' = c_devices st \<Longrightarrow> holders st' = holders st"
  by (simp add: holders_def fun_eq_iff)

lemma reconcile_claim_spec:
  fixes L now lost vms vmis slots claim
  assumes "cas_contract V srv" "cache_ok V st"
  defines "may \<equiv> may_hold_device L vms vmis slots claim" and "uid \<equiv> claim_uid claim" and "sel \<equiv> cs_selector (uc_spec claim)"
    and "res \<equiv> reconcile_claim L srv now lost vms vmis slots claim st"
  shows "extends V (claim_call_ok V L now may claim) st (snd res) \<and> (\<forall>p. fst res \<noteq> Inl (Panic p)) \<and>
    (\<forall>out. fst res = Inr out \<longrightarrow> \<not> out_requeue out \<longrightarrow>
       (\<exists>target. settled uid st (snd res) target \<and> good_target sel may uid (snd res) target \<and>
          available_if (may \<and> free_available L now lost sel st) L now lost (snd res) target))"
proof -
  let ?P = "claim_call_ok V L now may claim"
  let ?vm = "vms (claim_vm_key claim)" and ?vmi = "vmis (claim_vm_key claim)"
  obtain r1 st1 where owner: "bind_owner srv claim ?vm ?vmi st = (r1, st1)" by fastforce
  have q1: "quiet V ?P st (r1, st1)" using bind_owner_quiet [OF assms(2)] owner by metis
  obtain r2 st2 where hold: "hold_devices L srv now lost claim may st1 = (r2, st2)" by fastforce
  have cache1: "cache_ok V st1" using q1 by (auto simp: quiet_def extends_def)
  note spec = hold_devices_spec [OF assms(1) cache1, of L now may claim lost, unfolded hold fst_conv snd_conv]
  have free: "free_available L now lost sel st1 = free_available L now lost sel st"
    using q1 by (simp add: quiet_def free_available_def)
  have ext2: "extends V ?P st st2" using q1 spec extends_trans by (auto simp: quiet_def)
  have run: "res = and_then (bind_owner srv claim ?vm ?vmi)
      (\<lambda>rebind. and_then (hold_devices L srv now lost claim may)
         (\<lambda>(target, retry). report_claim L srv now lost claim slots ?vm ?vmi target (rebind \<or> retry))) st"
    by (simp add: res_def reconcile_claim_def may_def may_hold_device_def Let_def)
  show ?thesis
  proof (cases "\<exists>rebind target retry. r1 = Inr rebind \<and> r2 = Inr (target, retry)")
    case True
    then obtain rebind target retry where r: "r1 = Inr rebind" "r2 = Inr (target, retry)" by blast
    let ?rep = "report_claim L srv now lost claim slots ?vm ?vmi target (rebind \<or> retry) st2"
    have res: "res = ?rep" by (simp add: run and_then_def owner hold r)
    have q3: "quiet V ?P st2 ?rep" by (rule report_claim_quiet(1)) (use ext2 in \<open>simp add: extends_def\<close>)
    have "holders (snd ?rep) = holders st2" "holders st1 = holders st"
      using q1 q3 unfolding quiet_def snd_conv by (blast intro: holders_devices)+
    moreover have "\<not> retry" if "fst ?rep = Inr out" "\<not> out_requeue out" for out
      using report_claim_quiet(2) [OF extends_cache [OF ext2] that(1)] that(2) by simp
    ultimately show ?thesis
      using q3 spec extends_trans [OF ext2, of "snd ?rep"] free
      by (auto simp: res quiet_def r settled_def good_target_def available_if_def uid_def sel_def)
  next
    case False
    then have "res = (case r1 of Inl e \<Rightarrow> (Inl e, st1) | Inr _ \<Rightarrow> (case r2 of Inl e \<Rightarrow> (Inl e, st2) | Inr _ \<Rightarrow> undefined))"
      by (cases r1; cases r2) (auto simp: run and_then_def owner hold)
    with False q1 spec ext2 show ?thesis by (cases r1; cases r2) (auto simp: quiet_def)
  qed
qed

section \<open>Sweeping\<close>

definition swept :: "Lib \<Rightarrow> seconds \<Rightarrow> int \<Rightarrow> string set \<Rightarrow> CState \<Rightarrow> string \<Rightarrow> bool" where
  "swept L now lost live st n \<longleftrightarrow>
     is_some_and (\<lambda>d. \<not> heartbeat_missed L now lost d \<and> is_none_or (\<lambda>h. h \<in> live) (lease_holder d)) (map_of (c_devices st) n)"

definition sweep_call_ok ::
  "(string \<Rightarrow> string \<Rightarrow> UsbDevice) \<Rightarrow> Lib \<Rightarrow> seconds \<Rightarrow> int \<Rightarrow> string set \<Rightarrow> ApiCall \<Rightarrow> bool" where
  "sweep_call_ok V L now lost live call =
     (case call of
        PatchDeviceStatus n version patch \<Rightarrow>
          is_some_and (\<lambda>v.
            (heartbeat_missed L now lost (V n v) \<and> patch = lost_patch (lost_message lost (V n v))) \<or>
            (patch = lease_patch None \<and> is_some_and (\<lambda>h. h \<notin> live) (lease_holder (V n v)))) version
      | _ \<Rightarrow> False)"

text \<open>The contract of a step of the sweep: it touches one device and keeps the leases of live claims.\<close>

definition sweep_step ::
  "(string \<Rightarrow> string \<Rightarrow> UsbDevice) \<Rightarrow> (ApiCall \<Rightarrow> bool) \<Rightarrow> string set \<Rightarrow> string set \<Rightarrow> CState \<Rightarrow> (RunError + bool) \<times> CState \<Rightarrow> bool" where
  "sweep_step V P live S st res \<longleftrightarrow> extends V P st (snd res) \<and> touches S st res \<and> (\<forall>u \<in> live. holders (snd res) u = holders st u)"

lemma sweep_step_same: "cache_ok V st \<Longrightarrow> sweep_step V P live S st (Inr b, st)"
  by (simp add: sweep_step_def extends_refl touches_def)

lemma heartbeat_missed_lost:
  "ud_status u = Some (merge_status (lost_patch m) s) \<Longrightarrow> \<not> heartbeat_missed L now lost u"
  by (simp add: heartbeat_missed_def status_ref_def merge_status_def lost_patch_def)

lemma heartbeat_missed_lease:
  "ud_status u = Some (merge_status (lease_patch a) (status_ref d)) \<Longrightarrow> heartbeat_missed L now lost u = heartbeat_missed L now lost d"
  by (simp add: heartbeat_missed_def status_ref_def [of u] merge_status_def lease_patch_def no_patch_def)

lemma mark_lost_spec:
  fixes L now lost live
  assumes "cas_contract V srv" "cache_ok V st" "map_of (c_devices st) n = Some d"
  defines "res \<equiv> mark_lost L srv now lost n d st"
  shows "sweep_step V (sweep_call_ok V L now lost live) live {n} st res \<and>
    (fst res = Inr False \<longrightarrow> is_some_and (\<lambda>d. \<not> heartbeat_missed L now lost d) (map_of (c_devices (snd res)) n))"
proof (cases "heartbeat_missed L now lost d")
  case False
  then show ?thesis using assms(2,3) by (simp add: res_def mark_lost_def return_def sweep_step_same)
next
  case True
  have P: "\<forall>v. d = V n v \<longrightarrow> sweep_call_ok V L now lost live (PatchDeviceStatus n (Some v) (lost_patch (lost_message lost d)))"
    using True by (auto simp: sweep_call_ok_def)
  have run: "res = and_then (cas_update srv n d (lost_patch (lost_message lost d))) (\<lambda>won. return (\<not> won)) st"
    using True by (simp add: res_def mark_lost_def)
  show ?thesis
  proof (cases rule: cas_update_cases [OF assms(1-3) P, case_names won lost failed])
    case (won u st')
    then have "holders st' w = holders st w" for w
      using assms(3) lease_holder_lost [OF won(4)] by (auto simp: holders_def)
    with won heartbeat_missed_lost [OF won(4)] show ?thesis
      by (simp add: run and_then_def return_def sweep_step_def touches_def)
  next
    case (lost st')
    then show ?thesis using holders_devices [OF lost(3)] by (simp add: run and_then_def return_def sweep_step_def touches_def)
  next
    case (failed e st')
    then show ?thesis using holders_devices [OF failed(3)] by (simp add: run and_then_def sweep_step_def touches_def)
  qed
qed

lemma free_dead_lease_spec:
  fixes L now lost live
  assumes "cas_contract V srv" "cache_ok V st" "map_of (c_devices st) n = Some d"
  defines "res \<equiv> free_dead_lease srv live n d st"
  shows "sweep_step V (sweep_call_ok V L now lost live) live {n} st res \<and>
    (fst res = Inr False \<longrightarrow> \<not> heartbeat_missed L now lost d \<longrightarrow> swept L now lost live (snd res) n)"
proof (cases "is_some_and (\<lambda>h. h \<notin> live) (lease_holder d)")
  case False
  then have "res = (Inr False, st)" 
    by (auto simp: res_def free_dead_lease_def return_def lease_holder_def split: option.splits)
  with False assms(2,3) show ?thesis by (cases "lease_holder d") (auto simp: sweep_step_same swept_def)
next
  case True
  then obtain a where a: "st_attached_to (status_ref d) = Some a" "at_claim_uid a \<notin> live" "lease_holder d = Some (at_claim_uid a)"
    by (auto simp: is_some_and_iff lease_holder_def)
  have P: "\<forall>v. d = V n v \<longrightarrow> sweep_call_ok V L now lost live (PatchDeviceStatus n (Some v) (lease_patch None))"
    using True by (auto simp: sweep_call_ok_def)
  have run: "res = and_then (cas_update srv n d (lease_patch None)) (\<lambda>won. return (\<not> won)) st"
    using a by (simp add: res_def free_dead_lease_def)
  show ?thesis
  proof (cases rule: cas_update_cases [OF assms(1-3) P, case_names won lost failed])
    case (won u st')
    have "holders st' w = holders st w" if "w \<in> live" for w
      using won(3) that assms(3) a lease_holder_merged [OF won(4)] by (auto simp: holders_def)
    with won lease_holder_merged [OF won(4)] heartbeat_missed_lease [OF won(4)] show ?thesis
      by (simp add: run and_then_def return_def sweep_step_def touches_def swept_def)
  next
    case (lost st')
    then show ?thesis using holders_devices [OF lost(3)] by (simp add: run and_then_def return_def sweep_step_def touches_def)
  next
    case (failed e st')
    then show ?thesis using holders_devices [OF failed(3)] by (simp add: run and_then_def sweep_step_def touches_def)
  qed
qed

lemma keys_domain: "map fst (c_devices st') = map fst (c_devices st) \<Longrightarrow> dom (map_of (c_devices st')) = dom (map_of (c_devices st))"
  by (metis dom_map_of_conv_image_fst list.set_map)

lemma sweep_step_trans:
  "sweep_step V P live S st (Inr b, st1) \<Longrightarrow> sweep_step V P live S' st1 res \<Longrightarrow> sweep_step V P live (S \<union> S') st res"
  using extends_trans by (fastforce simp: sweep_step_def touches_def)

lemma sweep_device_spec:
  fixes L now lost live
  assumes "cas_contract V srv" "cache_ok V st" "n \<in> dom (map_of (c_devices st))"
  defines "res \<equiv> sweep_device L srv now lost live n st"
  shows "sweep_step V (sweep_call_ok V L now lost live) live {n} st res \<and> (fst res = Inr False \<longrightarrow> swept L now lost live (snd res) n)"
proof -
  let ?P = "sweep_call_ok V L now lost live"
  obtain d where d: "map_of (c_devices st) n = Some d" using assms(3) by auto
  obtain r1 st1 where one: "mark_lost L srv now lost n d st = (r1, st1)" by fastforce
  have s1: "sweep_step V ?P live {n} st (r1, st1)"
    "r1 = Inr False \<Longrightarrow> is_some_and (\<lambda>d. \<not> heartbeat_missed L now lost d) (map_of (c_devices st1) n)"
    using mark_lost_spec [OF assms(1,2) d, of L now lost live] by (simp_all add: one)
  show ?thesis
  proof (cases r1)
    case (Inl e)
    with s1 show ?thesis
      by (simp add: res_def sweep_device_def and_then_def with_device_def d one)
  next
    case (Inr rq)
    have st1: "cache_ok V st1" "n \<in> dom (map_of (c_devices st1))"
      using s1(1) assms(3) keys_domain [of st1 st] by (auto simp: sweep_step_def extends_def)
    then obtain d1 where d1: "map_of (c_devices st1) n = Some d1" by auto
    obtain r2 st2 where two: "free_dead_lease srv live n d1 st1 = (r2, st2)" by fastforce
    note s2 = free_dead_lease_spec [OF assms(1) st1(1) d1, where live = live and L = L and now = now and lost = lost, unfolded two fst_conv snd_conv]
    have run: "res = (case r2 of Inl e \<Rightarrow> (Inl e, st2) | Inr again \<Rightarrow> (Inr (rq \<or> again), st2))"
      by (simp add: res_def sweep_device_def and_then_def with_device_def d one Inr d1 two return_def split: sum.split)
    have "sweep_step V ?P live {n} st (r2, st2)"
      using sweep_step_trans [OF s1(1) [unfolded Inr], of "{n}" "(r2, st2)"] s2 by simp
    with s1(2) s2 d1 show ?thesis by (cases r2) (auto simp: run Inr sweep_step_def touches_def)
  qed
qed

lemma sweep_devices_spec:
  fixes L now lost live requeue
  assumes "cas_contract V srv" "cache_ok V st" "distinct names" "set names \<subseteq> dom (map_of (c_devices st))"
  defines "res \<equiv> sweep_devices L srv now lost live names requeue st"
  shows "sweep_step V (sweep_call_ok V L now lost live) live (set names) st res \<and>
    (fst res = Inr False \<longrightarrow> \<not> requeue \<and> list_all (swept L now lost live (snd res)) names)"
  using assms(2-4) unfolding res_def
proof (induction names arbitrary: requeue st)
  case Nil
  then show ?case by (simp add: return_def sweep_step_same)
next
  case (Cons n names)
  let ?P = "sweep_call_ok V L now lost live"
  obtain r1 st1 where one: "sweep_device L srv now lost live n st = (r1, st1)" by fastforce
  have s1: "sweep_step V ?P live {n} st (r1, st1)" "r1 = Inr False \<Longrightarrow> swept L now lost live st1 n"
    using sweep_device_spec [OF assms(1) Cons.prems(1), of n L now lost live] Cons.prems(3) by (auto simp: one)
  show ?case
  proof (cases r1)
    case (Inl e)
    with s1(1) show ?thesis by (auto simp: and_then_def one sweep_step_def touches_def)
  next
    case (Inr again)
    have st1: "cache_ok V st1" "set names \<subseteq> dom (map_of (c_devices st1))"
      using s1(1) Cons.prems(3) keys_domain [of st1 st] by (auto simp: sweep_step_def extends_def)
    let ?rest = "sweep_devices L srv now lost live names (requeue \<or> again) st1"
    have run: "sweep_devices L srv now lost live (n # names) requeue st = ?rest"
      by (simp add: and_then_def one Inr)
    note s2 = Cons.IH [OF st1(1) _ st1(2), of "requeue \<or> again"]
    have step: "sweep_step V ?P live (set (n # names)) st ?rest"
      using sweep_step_trans [OF s1(1) [unfolded Inr], of "set names" ?rest] s2 Cons.prems(2) by simp
    have "map_of (c_devices (snd ?rest)) n = map_of (c_devices st1) n"
      using s2 Cons.prems(2) by (auto simp: sweep_step_def touches_def)
    then have "swept L now lost live (snd ?rest) n = swept L now lost live st1 n" by (simp add: swept_def)
    with step s1(2) s2 Cons.prems(2) show ?thesis unfolding run by (auto simp: Inr)
  qed
qed

section \<open>A whole pass\<close>

definition pass_call_ok ::
  "(string \<Rightarrow> string \<Rightarrow> UsbDevice) \<Rightarrow> Lib \<Rightarrow> seconds \<Rightarrow> Ctx \<Rightarrow> ApiCall \<Rightarrow> bool" where
  "pass_call_ok V L now ctx call \<longleftrightarrow>
     (let claims = live_claims_of (cx_claims ctx);
          may = may_hold_device L (vm_table_of (cx_vms ctx)) (vmi_table_of (cx_vmis ctx)) (allocate_slots (map slot_request_of claims))
      in sweep_call_ok V L now (lost_after_secs ctx) (claim_uid ` set claims) call \<or>
         (\<exists>c \<in> set claims. claim_call_ok V L now (may c) c call) \<or> is_PatchClaimStatus call \<or> is_Unpause call)"

lemma extends_mono: "extends V P st st' \<Longrightarrow> (\<And>c. P c \<Longrightarrow> Q c) \<Longrightarrow> extends V Q st st'"
  unfolding extends_def using list.pred_mono_strong by blast

lemma reconcile_claims_spec:
  assumes "cas_contract V srv" "cache_ok V st"
    and P: "\<And>c call. c \<in> set claims \<Longrightarrow> claim_call_ok V L now (may_hold_device L vms vmis slots c) c call \<Longrightarrow> P call"
  shows "extends V P st (snd (reconcile_claims L srv now lost vms vmis slots claims requeue holds st)) \<and>
    (\<exists>r. fst (reconcile_claims L srv now lost vms vmis slots claims requeue holds st) = Inr r)"
  using assms(2) P
proof (induction claims arbitrary: requeue holds st)
  case Nil
  then show ?case by (simp add: return_def extends_refl)
next
  case (Cons c claims)
  obtain r1 st1 where one: "reconcile_claim L srv now lost vms vmis slots c st = (r1, st1)" by fastforce
  note spec = reconcile_claim_spec [OF assms(1) Cons.prems(1), where L = L and now = now and lost = lost and vms = vms
      and vmis = vmis and slots = slots and claim = c, unfolded one fst_conv snd_conv]
  have ext: "extends V P st st1" using spec Cons.prems(2) [of c] by (auto intro: extends_mono)
  have IH: "extends V P st (snd (reconcile_claims L srv now lost vms vmis slots claims rq h st1)) \<and>
    (\<exists>r. fst (reconcile_claims L srv now lost vms vmis slots claims rq h st1) = Inr r)" for rq h
    using Cons.IH [OF extends_cache [OF ext], of rq h] Cons.prems(2) extends_trans [OF ext] by auto
  show ?case
  proof (cases r1)
    case (Inl e)
    with spec obtain k where "e = KubeErr k" by (cases e) auto
    with Inl one IH show ?thesis by simp
  next
    case (Inr outcome)
    with one IH show ?thesis by simp
  qed
qed

lemma reconcile_boot_holds_spec:
  "(\<exists>calls. c_log (snd (reconcile_boot_holds L srv now vms vmis holds requeue st)) = c_log st @ calls \<and>
      list_all (\<lambda>c. is_PatchClaimStatus c \<or> is_Unpause c) calls) \<and>
   c_devices (snd (reconcile_boot_holds L srv now vms vmis holds requeue st)) = c_devices st \<and>
   (\<exists>r. fst (reconcile_boot_holds L srv now vms vmis holds requeue st) = Inr r)"
proof (induction holds arbitrary: requeue st)
  case Nil
  then show ?case by (simp add: return_def)
next
  case (Cons kc holds)
  obtain key claims where kc: "kc = (key, claims)" by fastforce
  obtain b st1 calls1 where one: "reconcile_boot_hold L srv key claims (vms key) (vmis key) now st = (Inr b, st1)"
    "c_log st1 = c_log st @ calls1" "list_all (\<lambda>c. is_PatchClaimStatus c \<or> is_Unpause c) calls1" "c_devices st1 = c_devices st"
    using reconcile_boot_hold_effect [of L srv key claims "vms key" "vmis key" now st]
    by (metis prod.collapse)
  from Cons.IH [of "requeue \<or> b" st1] one show ?case by (auto simp: kc)
qed

lemma live_claims_uid: "c \<in> set (live_claims_of claims) \<Longrightarrow> om_uid (uc_metadata c) = Some (claim_uid c)"
  by (auto simp: live_claims_of_def claim_uid_def)

lemma live_uids: "set (List.map_filter (\<lambda>c. om_uid (uc_metadata c)) (live_claims_of claims)) = claim_uid ` set (live_claims_of claims)"
  using live_claims_uid [of _ claims] by (force simp: List.map_filter_def)

lemma live_vmis_eq: "live_vmis_of objs = vi_uid ` ran (vmi_table_of objs)"
proof -
  have "distinct (map fst (vmi_entries objs))" unfolding vmi_entries_def by (rule bt_sorted_distinct) simp
  then have "snd ` set (vmi_entries objs) = ran (vmi_table_of objs)" by (simp add: vmi_table_of_def ran_distinct)
  then show ?thesis unfolding live_vmis_of_def by (metis (mono_tags, lifting) case_prod_unfold image_cong image_image list.set_map)
qed

lemma load_devices_cache:
  assumes "list_all (genuine V) ds"
  shows "cache_ok V (snd (load_devices ds st))"
    and "map fst (c_devices (snd (load_devices ds st))) = map fst (bt_collect (map (\<lambda>d. (device_name_any d, d)) ds))"
  using assms
  by (auto simp: load_devices_def cache_ok_def bt_entries_get [symmetric] bt_collect_entries list_all_iff dest!: collect_map_SomeD)

text \<open>The part of a pass after the sweep.\<close>

definition reconcile_rest :: "Lib \<Rightarrow> Server \<Rightarrow> Ctx \<Rightarrow> seconds \<Rightarrow> bool \<Rightarrow> bool run" where
  "reconcile_rest L srv ctx now requeue =
     (let vms = vm_table_of (cx_vms ctx); vmis = vmi_table_of (cx_vmis ctx); claims = live_claims_of (cx_claims ctx)
      in and_then (reconcile_claims L srv now (lost_after_secs ctx) vms vmis (allocate_slots (map slot_request_of claims)) claims requeue [])
           (\<lambda>(requeue, holds). and_then (forget_gone (live_vmis_of (cx_vmis ctx))) (\<lambda>_. reconcile_boot_holds L srv now vms vmis holds requeue)))"

definition live_uids_of :: "Ctx \<Rightarrow> string set" where
  "live_uids_of ctx = claim_uid ` set (live_claims_of (cx_claims ctx))"

definition names_of :: "Ctx \<Rightarrow> string list" where
  "names_of ctx = map fst (bt_collect (map (\<lambda>d. (device_name_any d, d)) (cx_devices ctx)))"

lemma reconcile_all_eq:
  "reconcile_all L srv ctx now st =
     and_then (sweep_devices L srv now (lost_after_secs ctx) (live_uids_of ctx) (names_of ctx) False)
       (reconcile_rest L srv ctx now) (snd (load_devices (cx_devices ctx) st))"
  by (simp add: reconcile_all_def reconcile_rest_def [abs_def] live_uids_of_def names_of_def Let_def and_then_def load_devices_def live_uids)

lemma reconcile_rest_spec:
  fixes L srv ctx now st requeue
  assumes contract: "cas_contract V srv" and cache: "cache_ok V st"
  defines "res \<equiv> reconcile_rest L srv ctx now requeue st"
  shows "(\<exists>calls. c_log (snd res) = c_log st @ calls \<and> list_all (pass_call_ok V L now ctx) calls) \<and>
    (\<forall>p. fst res \<noteq> Inl (Panic p))"
proof -
  let ?P = "pass_call_ok V L now ctx" and ?claims = "live_claims_of (cx_claims ctx)"
  let ?vms = "vm_table_of (cx_vms ctx)" and ?vmis = "vmi_table_of (cx_vmis ctx)"
  let ?slots = "allocate_slots (map slot_request_of ?claims)"
  let ?rc = "reconcile_claims L srv now (lost_after_secs ctx) ?vms ?vmis ?slots ?claims requeue [] st"
  have "extends V ?P st (snd ?rc) \<and> (\<exists>r. fst ?rc = Inr r)"
    by (rule reconcile_claims_spec [OF contract cache]) (auto simp: pass_call_ok_def Let_def)
  then obtain requeue' holds st2 calls where rc: "?rc = (Inr (requeue', holds), st2)"
    and calls: "c_log st2 = c_log st @ calls" "list_all ?P calls"
    unfolding extends_def by (metis surj_pair prod.collapse)
  have res: "res = reconcile_boot_holds L srv now ?vms ?vmis holds requeue' (snd (forget_gone (live_vmis_of (cx_vmis ctx)) st2))"
    by (simp add: res_def reconcile_rest_def Let_def and_then_def rc forget_gone_def)
  obtain calls2 r where "c_log (snd res) = c_log st2 @ calls2" "list_all (\<lambda>c. is_PatchClaimStatus c \<or> is_Unpause c) calls2" "fst res = Inr r"
    using reconcile_boot_holds_spec [of L srv now ?vms ?vmis holds requeue' "snd (forget_gone (live_vmis_of (cx_vmis ctx)) st2)"]
    by (auto simp: res forget_gone_def)
  moreover from this have "list_all ?P calls2" by (auto simp: pass_call_ok_def Let_def list_all_iff)
  ultimately show ?thesis using calls by simp
qed

lemma sweep_of_pass_step:
  fixes L srv ctx now st
  assumes contract: "cas_contract V srv" and genuine: "list_all (genuine V) (cx_devices ctx)"
  shows "sweep_step V (sweep_call_ok V L now (lost_after_secs ctx) (live_uids_of ctx)) (live_uids_of ctx) (set (names_of ctx))
    (snd (load_devices (cx_devices ctx) st))
    (sweep_devices L srv now (lost_after_secs ctx) (live_uids_of ctx) (names_of ctx) False (snd (load_devices (cx_devices ctx) st)))"
proof -
  let ?st0 = "snd (load_devices (cx_devices ctx) st)"
  have names: "map fst (c_devices ?st0) = names_of ctx" "distinct (names_of ctx)"
    using load_devices_cache(2) [OF genuine] by (simp_all add: names_of_def bt_sorted_distinct)
  then have "set (names_of ctx) \<subseteq> dom (map_of (c_devices ?st0))"
    by (metis dom_map_of_conv_image_fst list.set_map subset_refl)
  then show ?thesis
    using sweep_devices_spec [OF contract load_devices_cache(1) [OF genuine] names(2)] by blast
qed

lemma sweep_of_pass:
  fixes L srv ctx now st
  assumes contract: "cas_contract V srv" and genuine: "list_all (genuine V) (cx_devices ctx)"
  defines "sw \<equiv> sweep_devices L srv now (lost_after_secs ctx) (live_uids_of ctx) (names_of ctx) False (snd (load_devices (cx_devices ctx) st))"
  shows "extends V (pass_call_ok V L now ctx) (snd (load_devices (cx_devices ctx) st)) (snd sw) \<and> (\<forall>p. fst sw \<noteq> Inl (Panic p))"
  using sweep_of_pass_step [OF contract genuine, where L = L and now = now and st = st]
  by (auto simp: sw_def sweep_step_def touches_def pass_call_ok_def Let_def live_uids_of_def intro: extends_mono)

lemma reconcile_all_spec:
  fixes L srv ctx now st
  assumes contract: "cas_contract V srv" and genuine: "list_all (genuine V) (cx_devices ctx)"
  defines "res \<equiv> reconcile_all L srv ctx now st"
  shows "list_all (pass_call_ok V L now ctx) (new_calls st (snd res)) \<and> (\<forall>p. fst res \<noteq> Inl (Panic p))"
proof -
  let ?st0 = "snd (load_devices (cx_devices ctx) st)"
  obtain r st1 where sw: "sweep_devices L srv now (lost_after_secs ctx) (live_uids_of ctx) (names_of ctx) False ?st0 = (r, st1)" by fastforce
  have e1: "extends V (pass_call_ok V L now ctx) ?st0 st1" "\<forall>p. r \<noteq> Inl (Panic p)"
    using sweep_of_pass [OF contract genuine, where L = L and now = now and st = st] by (simp_all add: sw)
  then obtain calls where calls: "c_log st1 = c_log st @ calls" "list_all (pass_call_ok V L now ctx) calls"
    by (auto simp: extends_def load_devices_def)
  have res: "res = (case r of Inl e \<Rightarrow> (Inl e, st1) | Inr b \<Rightarrow> reconcile_rest L srv ctx now b st1)"
    by (simp add: res_def reconcile_all_eq and_then_def sw split: sum.split)
  show ?thesis
  proof (cases r)
    case (Inl e)
    with e1(2) calls show ?thesis by (simp add: res new_calls_def)
  next
    case (Inr b)
    obtain calls2 where "c_log (snd (reconcile_rest L srv ctx now b st1)) = c_log st1 @ calls2" "list_all (pass_call_ok V L now ctx) calls2"
      "\<forall>p. fst (reconcile_rest L srv ctx now b st1) \<noteq> Inl (Panic p)"
      using reconcile_rest_spec [OF contract extends_cache [OF e1(1)], where L = L and ctx = ctx and now = now] by blast
    with Inr calls show ?thesis by (simp add: res new_calls_def)
  qed
qed

lemma pass_extends_log:
  assumes contract: "cas_contract V srv" and genuine: "list_all (genuine V) (cx_devices ctx)"
  shows "\<exists>calls. c_log (snd (reconcile_all L srv ctx now st)) = c_log st @ calls"
proof -
  let ?st0 = "snd (load_devices (cx_devices ctx) st)"
  obtain r st1 where sw: "sweep_devices L srv now (lost_after_secs ctx) (live_uids_of ctx) (names_of ctx) False ?st0 = (r, st1)" by fastforce
  have e1: "extends V (pass_call_ok V L now ctx) ?st0 st1"
    using sweep_of_pass [OF contract genuine, where L = L and now = now and st = st] by (simp add: sw)
  then obtain calls where calls: "c_log st1 = c_log st @ calls" by (auto simp: extends_def load_devices_def)
  show ?thesis
  proof (cases r)
    case (Inl e)
    with calls show ?thesis by (simp add: reconcile_all_eq and_then_def sw)
  next
    case (Inr b)
    with calls reconcile_rest_spec [OF contract extends_cache [OF e1], where L = L and ctx = ctx and now = now and requeue = b]
    show ?thesis by (auto simp: reconcile_all_eq and_then_def sw)
  qed
qed

section \<open>Resumed instances over many passes\<close>

lemma boot_hold_remembers:
  "c_released st uid \<noteq> None \<Longrightarrow> c_released (snd (reconcile_boot_hold L srv key claims vm vmi now st)) uid \<noteq> None"
  using reconcile_boot_hold_cases [of L st claims vm vmi now srv key]
  by cases (auto simp: only_reports_def remember_release_def)

lemma boot_hold_unpause:
  assumes "Unpause ns n \<in> set (new_calls st (snd (reconcile_boot_hold L srv key claims vm vmi now st)))"
  shows "key = (ns, n) \<and> (\<exists>i. vmi = Some i \<and> c_released st (vi_uid i) = None)"
proof -
  have "Unpause ns n \<in> set (filter is_Unpause (new_calls st (snd (reconcile_boot_hold L srv key claims vm vmi now st))))"
    using assms by simp
  then have "(ns, n) = (fst key, snd key) \<and> (\<exists>reason. decide_boot_hold L (boot_hold_inputs st claims vm vmi now) = Release reason)"
    unfolding unpause_calls release_iff by (auto split: if_splits)
  then show ?thesis
    unfolding release_iff by (auto simp: can_be_held_def boot_hold_inputs_def Let_def)
qed

lemma boot_holds_remember:
  "c_released st uid \<noteq> None \<Longrightarrow> c_released (snd (reconcile_boot_holds L srv now vms vmis holds requeue st)) uid \<noteq> None"
proof (induction holds arbitrary: requeue st)
  case (Cons kc holds)
  obtain key claims where kc: "kc = (key, claims)" by fastforce
  obtain b st1 where one: "reconcile_boot_hold L srv key claims (vms key) (vmis key) now st = (Inr b, st1)"
    using reconcile_boot_hold_effect(1) [of L srv key claims "vms key" "vmis key" now st] by (metis prod.collapse)
  then have "c_released st1 uid \<noteq> None" using boot_hold_remembers [OF Cons.prems] by (metis snd_conv)
  with Cons.IH one show ?case by (simp add: kc)
qed (simp add: return_def)

lemma boot_holds_unpause:
  assumes "Unpause ns n \<in> set (new_calls st (snd (reconcile_boot_holds L srv now vms vmis holds requeue st)))"
  shows "\<exists>i. vmis (ns, n) = Some i \<and> c_released st (vi_uid i) = None"
  using assms
proof (induction holds arbitrary: requeue st)
  case Nil
  then show ?case by (simp add: return_def new_calls_def)
next
  case (Cons kc holds)
  obtain key claims where kc: "kc = (key, claims)" by fastforce
  obtain b st1 where one: "reconcile_boot_hold L srv key claims (vms key) (vmis key) now st = (Inr b, st1)"
    using reconcile_boot_hold_effect(1) [of L srv key claims "vms key" "vmis key" now st] by (metis prod.collapse)
  let ?rest = "reconcile_boot_holds L srv now vms vmis holds (requeue \<or> b) st1"
  have rest: "reconcile_boot_holds L srv now vms vmis (kc # holds) requeue st = ?rest" by (simp add: kc one)
  obtain calls1 calls2 where calls: "c_log st1 = c_log st @ calls1" "c_log (snd ?rest) = c_log st1 @ calls2"
    using reconcile_boot_hold_effect(3) [of L srv key claims "vms key" "vmis key" now st] one reconcile_boot_holds_spec by (metis snd_conv)
  with Cons.prems consider "Unpause ns n \<in> set (new_calls st st1)" | "Unpause ns n \<in> set (new_calls st1 (snd ?rest))"
    by (auto simp: rest new_calls_def)
  then show ?case
  proof cases
    case 1
    then show ?thesis using boot_hold_unpause [of ns n st L srv key claims "vms key" "vmis key" now] one by auto
  next
    case 2
    from Cons.IH [OF this] obtain i where "vmis (ns, n) = Some i" "c_released st1 (vi_uid i) = None" by blast
    moreover have "c_released st (vi_uid i) = None"
      using boot_hold_remembers [of st "vi_uid i" L srv key claims "vms key" "vmis key" now] one calculation(2)
      by (metis snd_conv)
    ultimately show ?thesis by blast
  qed
qed

lemma claim_calls_no_unpause: "claim_call_ok V L now may c call \<Longrightarrow> \<not> is_Unpause call"
  by (cases call) (auto simp: claim_call_ok_def)

lemma sweep_calls_no_unpause: "sweep_call_ok V L now lost live call \<Longrightarrow> \<not> is_Unpause call"
  by (cases call) (auto simp: sweep_call_ok_def)

lemma no_unpause_in: "list_all (\<lambda>c. \<not> is_Unpause c) calls \<Longrightarrow> Unpause ns n \<notin> set calls"
  by (auto simp: list_all_iff)

lemma sweep_of_pass_no_unpause:
  fixes L srv ctx now st
  assumes contract: "cas_contract V srv" and genuine: "list_all (genuine V) (cx_devices ctx)"
  shows "extends V (\<lambda>c. \<not> is_Unpause c) (snd (load_devices (cx_devices ctx) st))
    (snd (sweep_devices L srv now (lost_after_secs ctx) (live_uids_of ctx) (names_of ctx) False (snd (load_devices (cx_devices ctx) st))))"
proof (rule extends_mono)
  show "extends V (sweep_call_ok V L now (lost_after_secs ctx) (live_uids_of ctx)) (snd (load_devices (cx_devices ctx) st))
    (snd (sweep_devices L srv now (lost_after_secs ctx) (live_uids_of ctx) (names_of ctx) False (snd (load_devices (cx_devices ctx) st))))"
    using sweep_of_pass_step [OF contract genuine] unfolding sweep_step_def by blast
qed (rule sweep_calls_no_unpause)

text \<open>A pass that does not fail in its sweep ends with the boot holds; nothing before them resumes a machine or forgets that one was resumed.\<close>

lemma pass_shape [consumes 2, case_names failed boot_holds]:
  fixes L srv ctx now st
  assumes contract: "cas_contract V srv" and genuine: "list_all (genuine V) (cx_devices ctx)"
  defines "res \<equiv> reconcile_all L srv ctx now st" and "claims \<equiv> live_claims_of (cx_claims ctx)"
    and "vms \<equiv> vm_table_of (cx_vms ctx)" and "vmis \<equiv> vmi_table_of (cx_vmis ctx)"
  obtains (failed) e calls where "fst res = Inl e" "c_log (snd res) = c_log st @ calls" "list_all (\<lambda>c. \<not> is_Unpause c) calls"
      "c_released (snd res) = c_released st"
  | (boot_holds) requeue st1 requeue' holds st2 calls where
      "reconcile_claims L srv now (lost_after_secs ctx) vms vmis (allocate_slots (map slot_request_of claims)) claims requeue [] st1 =
         (Inr (requeue', holds), st2)"
      "res = reconcile_boot_holds L srv now vms vmis holds requeue' (snd (forget_gone (live_vmis_of (cx_vmis ctx)) st2))"
      "c_log st2 = c_log st @ calls" "list_all (\<lambda>c. \<not> is_Unpause c) calls" "c_released st2 = c_released st"
proof -
  let ?st0 = "snd (load_devices (cx_devices ctx) st)" and ?slots = "allocate_slots (map slot_request_of claims)"
  obtain r st1 where sw: "sweep_devices L srv now (lost_after_secs ctx) (live_uids_of ctx) (names_of ctx) False ?st0 = (r, st1)" by fastforce
  have "extends V (\<lambda>c. \<not> is_Unpause c) ?st0 st1"
    using sweep_of_pass_no_unpause [OF contract genuine, where L = L and now = now and st = st] by (simp add: sw)
  then obtain calls1 where st1: "cache_ok V st1" "c_released st1 = c_released st" "c_log st1 = c_log st @ calls1" "list_all (\<lambda>c. \<not> is_Unpause c) calls1"
    by (auto simp: extends_def load_devices_def)
  have res: "res = (case r of Inl e \<Rightarrow> (Inl e, st1) | Inr b \<Rightarrow> reconcile_rest L srv ctx now b st1)"
    by (simp add: res_def reconcile_all_eq and_then_def sw split: sum.split)
  show ?thesis
  proof (cases r)
    case (Inl e)
    with res st1 failed show ?thesis by simp
  next
    case (Inr b)
    let ?rc = "reconcile_claims L srv now (lost_after_secs ctx) vms vmis ?slots claims b [] st1"
    have "extends V (\<lambda>c. \<not> is_Unpause c) st1 (snd ?rc) \<and> (\<exists>r. fst ?rc = Inr r)"
      by (rule reconcile_claims_spec [OF contract st1(1)]) (rule claim_calls_no_unpause)
    then obtain requeue' holds st2 calls2 where rc: "?rc = (Inr (requeue', holds), st2)"
      and st2: "c_log st2 = c_log st1 @ calls2" "list_all (\<lambda>c. \<not> is_Unpause c) calls2" "c_released st2 = c_released st1"
      unfolding extends_def by (metis surj_pair prod.collapse)
    have "res = reconcile_boot_holds L srv now vms vmis holds requeue' (snd (forget_gone (live_vmis_of (cx_vmis ctx)) st2))"
      using rc by (simp add: res Inr reconcile_rest_def Let_def and_then_def claims_def vms_def vmis_def forget_gone_def)
    with rc st1 st2 boot_holds [of b st1 requeue' holds st2 "calls1 @ calls2"] show ?thesis by simp
  qed
qed

lemma pass_released:
  fixes L srv ctx now st
  assumes contract: "cas_contract V srv" and genuine: "list_all (genuine V) (cx_devices ctx)"
  defines "st' \<equiv> snd (reconcile_all L srv ctx now st)" and "vmis \<equiv> vmi_table_of (cx_vmis ctx)"
  shows "c_released st uid \<noteq> None \<Longrightarrow> uid \<in> vi_uid ` ran vmis \<Longrightarrow> c_released st' uid \<noteq> None"
    and "Unpause ns n \<in> set (new_calls st st') \<Longrightarrow> \<exists>i. vmis (ns, n) = Some i \<and> c_released st (vi_uid i) = None"
proof -
  have "(c_released st uid \<noteq> None \<longrightarrow> uid \<in> vi_uid ` ran vmis \<longrightarrow> c_released st' uid \<noteq> None) \<and>
    (Unpause ns n \<in> set (new_calls st st') \<longrightarrow> (\<exists>i. vmis (ns, n) = Some i \<and> c_released st (vi_uid i) = None))"
  using contract genuine
  proof (cases rule: pass_shape [where L = L and now = now and st = st])
    case (failed e calls)
    with no_unpause_in show ?thesis by (simp add: st'_def new_calls_def)
  next
    case (boot_holds requeue st1 requeue' holds st2 calls)
    let ?st3 = "snd (forget_gone (live_vmis_of (cx_vmis ctx)) st2)"
    let ?bh = "reconcile_boot_holds L srv now (vm_table_of (cx_vms ctx)) vmis holds requeue' ?st3"
    have st': "st' = snd ?bh" by (simp add: st'_def vmis_def boot_holds(2))
    have kept: "c_released ?st3 uid = (if uid \<in> vi_uid ` ran vmis then c_released st uid else None)" for uid
      by (auto simp: forget_gone_def boot_holds(5) retain_def vmis_def live_vmis_eq split: option.splits)
    obtain calls2 where calls2: "c_log st' = c_log ?st3 @ calls2"
      using reconcile_boot_holds_spec [of L srv now _ vmis holds requeue' ?st3] by (auto simp: st')
    have log3: "c_log ?st3 = c_log st @ calls" by (simp add: forget_gone_def boot_holds(3))
    have "\<exists>i. vmis (ns, n) = Some i \<and> c_released st (vi_uid i) = None" if "Unpause ns n \<in> set (new_calls st st')"
    proof -
      from that no_unpause_in [OF boot_holds(4)] have "Unpause ns n \<in> set (new_calls ?st3 (snd ?bh))"
        using calls2 log3 by (auto simp: new_calls_def st')
      from boot_holds_unpause [OF this] obtain i where i: "vmis (ns, n) = Some i" "c_released ?st3 (vi_uid i) = None" by blast
      then have "vi_uid i \<in> vi_uid ` ran vmis" by (blast intro: ranI)
      with i kept [of "vi_uid i"] show ?thesis by simp
    qed
    moreover have "c_released st' uid \<noteq> None" if "c_released st uid \<noteq> None" "uid \<in> vi_uid ` ran vmis"
      unfolding st' by (rule boot_holds_remember) (use that kept in simp)
    ultimately show ?thesis by blast
  qed
  then show "c_released st uid \<noteq> None \<Longrightarrow> uid \<in> vi_uid ` ran vmis \<Longrightarrow> c_released st' uid \<noteq> None"
    and "Unpause ns n \<in> set (new_calls st st') \<Longrightarrow> \<exists>i. vmis (ns, n) = Some i \<and> c_released st (vi_uid i) = None"
    by blast+
qed

fun run_passes :: "Lib \<Rightarrow> Server \<Rightarrow> (Ctx \<times> seconds) list \<Rightarrow> CState \<Rightarrow> CState" where
  "run_passes L srv [] st = st"
| "run_passes L srv ((ctx, now) # passes) st = run_passes L srv passes (snd (reconcile_all L srv ctx now st))"

end
