(* ===== verification/LeaseSafety.thy ===== *)
theory LeaseSafety
  imports Leases
begin

text \<open>
  The guarantees of the control loop, stated over whole passes: leases are never stolen, claims
  settle on at most one device, stale devices and dead leases are cleaned up, and a resumed VM is
  left alone. The theorems about the server's behaviour assume optimistic concurrency
  (\<open>cas_contract\<close>) and that the caches hold objects the server really had (\<open>genuine\<close>),
  possibly outdated ones. The witnesses run one pass on a small cluster.
\<close>

section \<open>Leases\<close>

abbreviation claim_may_hold :: "Lib \<Rightarrow> Ctx \<Rightarrow> UsbDeviceClaim \<Rightarrow> bool" where
  "claim_may_hold L ctx \<equiv> may_hold_device L (vm_table_of (cx_vms ctx)) (vmi_table_of (cx_vmis ctx))
     (allocate_slots (map slot_request_of (live_claims_of (cx_claims ctx))))"

lemma pass_calls:
  assumes "cas_contract V srv" and "list_all (genuine V) (cx_devices ctx)"
    and "call \<in> set (new_calls st (snd (reconcile_all L srv ctx now st)))"
  shows "pass_call_ok V L now ctx call"
  using reconcile_all_spec [OF assms(1,2), of L now st] assms(3) by (auto simp: list_all_iff)

lemma patch_fields:
  "dp_attached_to (lost_patch m) = Keep" "dp_attached_to (lease_patch a) = Put a"
  "dp_phase (lost_patch m) = Put (Some Lost)" "dp_phase (lease_patch a) = Keep"
  by (simp_all add: lost_patch_def lease_patch_def no_patch_def)

lemma pass_patch_lease:
  assumes "pass_call_ok V L now ctx (PatchDeviceStatus n version patch)"
  obtains v where "version = Some v" "case dp_attached_to patch of
       Put None \<Rightarrow> lease_holder (V n v) \<noteq> None | Put (Some lease) \<Rightarrow> lease_holder (V n v) = None | Keep \<Rightarrow> True"
proof -
  have "\<exists>v. version = Some v \<and> (case dp_attached_to patch of
       Put None \<Rightarrow> lease_holder (V n v) \<noteq> None | Put (Some lease) \<Rightarrow> lease_holder (V n v) = None | Keep \<Rightarrow> True)"
    using assms unfolding pass_call_ok_def Let_def sweep_call_ok_def claim_call_ok_def
    by (auto simp: is_some_and_iff patch_fields live_uids_of_def)
  then show ?thesis using that by blast
qed

text \<open>
  Property C2: a lease is never stolen. Whenever a pass writes a lease onto a device, the patch
  carries the version of an object that has no lease holder (so the server refuses it if another
  claim got there first), and the lease is for a live claim that is valid, whose VM
  exists, and whose selector matches that object.
\<close>

theorem leases_are_never_stolen:
  assumes "cas_contract V srv" and "list_all (genuine V) (cx_devices ctx)"
    and "PatchDeviceStatus n version patch \<in> set (new_calls st (snd (reconcile_all L srv ctx now st)))"
    and "dp_attached_to patch = Put (Some lease)"
  shows "\<exists>v c. version = Some v \<and> lease_holder (V n v) = None \<and>
    c \<in> set (live_claims_of (cx_claims ctx)) \<and> lease = lease_for L now c \<and> claim_may_hold L ctx c \<and>
    selector_matches (cs_selector (uc_spec c)) (V n v)"
proof -
  have "pass_call_ok V L now ctx (PatchDeviceStatus n version patch)" using assms(1-3) by (rule pass_calls)
  then show ?thesis
    using assms(4) unfolding pass_call_ok_def Let_def sweep_call_ok_def claim_call_ok_def
    by (auto simp: is_some_and_iff patch_fields)
qed

text \<open>
  No device patch of a pass is unconditional: each carries the version of an object
  that justifies it. A lease is written onto an object without one and removed from an object that has one, and a
  device is marked lost only if that very object missed its heartbeat.
\<close>

theorem devices_are_patched_under_their_version:
  assumes "cas_contract V srv" and "list_all (genuine V) (cx_devices ctx)"
    and "PatchDeviceStatus n version patch \<in> set (new_calls st (snd (reconcile_all L srv ctx now st)))"
  shows "\<exists>v. version = Some v \<and>
    (case dp_attached_to patch of
       Put None \<Rightarrow> lease_holder (V n v) \<noteq> None
     | Put (Some lease) \<Rightarrow> lease_holder (V n v) = None
     | Keep \<Rightarrow> dp_phase patch = Put (Some Lost) \<and> heartbeat_missed L now (lost_after_secs ctx) (V n v))"
proof -
  have "pass_call_ok V L now ctx (PatchDeviceStatus n version patch)" using assms by (rule pass_calls)
  then show ?thesis
    unfolding pass_call_ok_def Let_def sweep_call_ok_def claim_call_ok_def
    by (auto simp: is_some_and_iff patch_fields live_uids_of_def)
qed

text \<open>
  A pass never panics: none of the lookups of a device by name that the code
  expects to succeed can fail, whatever the server replies and whenever it loses a race.
\<close>

theorem pass_never_panics:
  assumes "cas_contract V srv" and "list_all (genuine V) (cx_devices ctx)"
  shows "fst (reconcile_all L srv ctx now st) \<noteq> Inl (Panic msg)"
  using reconcile_all_spec [OF assms, of L now st] by simp

section \<open>One claim\<close>

text \<open>
  Property C11: a reconciled claim settles: if \<open>reconcile_claim\<close> succeeds and asks for no
  retry, the claim holds at most one device, and only if it is valid and its VM exists; that device
  matches the claim's selector; and the devices of all other claims are untouched.
\<close>

theorem reconciled_claim_holds_one_device:
  assumes "cas_contract V srv" and "cache_ok V st"
    and "reconcile_claim L srv now lost vms vmis slots claim st = (Inr out, st')" and "\<not> out_requeue out"
  shows "\<exists>target. holders st' (claim_uid claim) = set_option target \<and>
    good_target (cs_selector (uc_spec claim)) (may_hold_device L vms vmis slots claim) (claim_uid claim) st' target \<and>
    (\<forall>u. u \<noteq> claim_uid claim \<longrightarrow> holders st' u = holders st u)"
  using reconcile_claim_spec [OF assms(1,2), where L = L and now = now and lost = lost and vms = vms
      and vmis = vmis and slots = slots and claim = claim] assms(3,4)
  by (auto simp: settled_def)

text \<open>
  Property C12: a free device is not left unused: if a device that matches the selector is free and
  available, a claim that may hold a device holds an available one after a reconciliation
  without retry.
\<close>

theorem free_device_is_leased:
  assumes "cas_contract V srv" and "cache_ok V st" and "may_hold_device L vms vmis slots claim"
    and "free_available L now lost (cs_selector (uc_spec claim)) st"
    and "reconcile_claim L srv now lost vms vmis slots claim st = (Inr out, st')" and "\<not> out_requeue out"
  shows "\<exists>n. holders st' (claim_uid claim) = {n} \<and> available_in L now lost (c_devices st') n"
proof -
  obtain target where "settled (claim_uid claim) st st' target"
    "available_if (may_hold_device L vms vmis slots claim \<and> free_available L now lost (cs_selector (uc_spec claim)) st) L now lost st' target"
    using reconcile_claim_spec [OF assms(1,2), where L = L and now = now and lost = lost and vms = vms
        and vmis = vmis and slots = slots and claim = claim] assms(5,6)
    by auto
  then show ?thesis using assms(3,4) by (cases target) (auto simp: settled_def available_if_def)
qed

text \<open>
  Property C35: the sweep cleans up: if it needs no retry, afterwards no device of the working copy
  is still reported available without a recent heartbeat, no device is leased to a claim that does
  not exist, and the leases of the live claims are as they were.
\<close>

theorem sweep_cleans_up:
  assumes "cas_contract V srv" and "cache_ok V st"
    and "sweep_devices L srv now lost live (map fst (c_devices st)) False st = (Inr False, st')"
  shows "list_all (swept L now lost live st') (map fst (c_devices st')) \<and> (\<forall>u. u \<in> live \<longrightarrow> holders st' u = holders st u)"
proof -
  have names: "distinct (map fst (c_devices st))" using assms(2) by (simp add: cache_ok_def bt_sorted_distinct)
  have "set (map fst (c_devices st)) \<subseteq> dom (map_of (c_devices st))" by (simp add: dom_map_of_conv_image_fst)
  from sweep_devices_spec [OF assms(1,2) names this, where L = L and now = now and lost = lost and live = live and requeue = False]
  show ?thesis using assms(3) by (auto simp: sweep_step_def extends_def)
qed

section \<open>Resumed instances\<close>

text \<open>The caches of a pass are genuine and show the instance \<open>uid\<close> of a VM.\<close>

definition sees_instance :: "(string \<Rightarrow> string \<Rightarrow> UsbDevice) \<Rightarrow> string \<times> string \<Rightarrow> string \<Rightarrow> Ctx \<Rightarrow> bool" where
  "sees_instance V key uid ctx \<longleftrightarrow> list_all (genuine V) (cx_devices ctx) \<and>
     is_some_and (\<lambda>i. vi_uid i = uid) (vmi_table_of (cx_vmis ctx) key)"

lemma passes_keep_released:
  assumes "cas_contract V srv" and "list_all (\<lambda>(ctx, now). sees_instance V key uid ctx) passes" and "c_released st uid \<noteq> None"
  shows "\<exists>calls. c_log (run_passes L srv passes st) = c_log st @ calls \<and> Unpause (fst key) (snd key) \<notin> set calls"
  using assms(2,3)
proof (induction passes arbitrary: st)
  case (Cons p passes)
  obtain ctx now where p: "p = (ctx, now)" by fastforce
  let ?st = "snd (reconcile_all L srv ctx now st)"
  obtain i where ctx: "list_all (genuine V) (cx_devices ctx)" and i: "vmi_table_of (cx_vmis ctx) key = Some i" "vi_uid i = uid"
    using Cons.prems(1) by (auto simp: p sees_instance_def is_some_and_iff)
  have uid: "uid \<in> vi_uid ` ran (vmi_table_of (cx_vmis ctx))" using i by (blast intro: ranI)
  obtain calls1 where calls1: "c_log ?st = c_log st @ calls1" using pass_extends_log [OF assms(1) ctx] by blast
  have "Unpause (fst key) (snd key) \<notin> set calls1"
    using pass_released(2) [OF assms(1) ctx, of "fst key" "snd key" st L now] i Cons.prems(2) calls1 by (auto simp: new_calls_def)
  moreover have "c_released ?st uid \<noteq> None"
    using pass_released(1) [OF assms(1) ctx Cons.prems(2) uid] .
  ultimately show ?case using Cons.IH [of ?st] Cons.prems(1) calls1 by (auto simp: p)
qed simp

text \<open>
  A VM that was resumed is left alone: once the controller has recorded that it resumed
  an instance, no later pass resumes that VM again as long as the instance exists, however often its
  claims become ready, unready or time out.
\<close>

theorem resumed_vm_is_left_alone:
  assumes "cas_contract V srv" and "list_all (\<lambda>(ctx, now). sees_instance V key uid ctx) passes" and "c_released st uid \<noteq> None"
  shows "Unpause (fst key) (snd key) \<notin> set (new_calls st (run_passes L srv passes st))"
  using passes_keep_released [OF assms, where L = L] by (auto simp: new_calls_def)

section \<open>A small cluster\<close>

text \<open>
  One free device, one claim for it and its stopped VM. The server accepts exactly the
  patch that leases version 1 of the device to the claim, and refuses everything else with a conflict.
\<close>

definition plain_meta :: "string \<Rightarrow> string \<Rightarrow> string \<Rightarrow> ObjectMeta" where
  "plain_meta name uid version = \<lparr>om_name = Some name, om_name_any = name, om_namespace = Some ''ns'', om_uid = Some uid,
     om_resource_version = Some version, om_generation = Some 1, om_creation_timestamp = Some 0, om_deletion_timestamp = None,
     om_owner_references = [], om_labels = []\<rparr>"

definition free_device :: UsbDevice where
  "free_device = \<lparr>ud_metadata = plain_meta ''usb-x'' ''d1'' ''1'',
     ud_spec = \<lparr>ds_vendor_id = ''10c4'', ds_product_id = ''ea60'', ds_serial = None, ds_manufacturer = None, ds_product = None,
       ds_bcd_device = None, ds_identity = Descriptor\<rparr>,
     ud_status = Some (EMPTY_STATUS\<lparr>st_phase := Some Available,
       st_exporter := Some \<lparr>ee_address = ''10.0.0.1'', ee_port = 7700, ee_pod = ''agent''\<rparr>,
       st_last_seen := Some (rfc3339 sample_lib 90)\<rparr>)\<rparr>"

definition radio_claim :: UsbDeviceClaim where
  "radio_claim = \<lparr>uc_metadata = plain_meta ''radio'' ''c1'' ''7'',
     uc_spec = \<lparr>cs_vm_name = ''vm'', cs_selector = \<lparr>sel_device_name = Some ''usb-x'', sel_vendor_id = None, sel_product_id = None,
       sel_serial = None, sel_product = None, sel_node = None, sel_port_path = None\<rparr>, cs_slot = None, cs_hold_boot = None\<rparr>,
     uc_status = None\<rparr>"

definition radio_lease :: DeviceStatusPatch where
  "radio_lease = lease_patch (Some (lease_for sample_lib 100 radio_claim))"

definition leased_free_device :: UsbDevice where
  "leased_free_device = free_device\<lparr>ud_metadata := plain_meta ''usb-x'' ''d1'' ''2'',
     ud_status := Some (merge_status radio_lease (status_ref free_device))\<rparr>"

definition small_versions :: "string \<Rightarrow> string \<Rightarrow> UsbDevice" where
  "small_versions n v = (if v = ''2'' then leased_free_device else free_device)"

definition small_server :: Server where
  "small_server = \<lparr>
     sv_patch_device = (\<lambda>log n version patch.
       if n = ''usb-x'' \<and> version = Some ''1'' \<and> patch = radio_lease then Inr leased_free_device else Inl (ApiError 409 [])),
     sv_patch_owners = (\<lambda>log ns n version refs. Inr ()),
     sv_patch_claim = (\<lambda>log ns n patch. Inr ()),
     sv_unpause = (\<lambda>log ns n. Inr ())\<rparr>"

definition small_ctx :: Ctx where
  "small_ctx = \<lparr>cx_config = \<lparr>cc_namespace = ''usb'', cc_psk_secret = None, cc_lost_after = 60, cc_resync = 60\<rparr>,
     cx_claims = [radio_claim], cx_devices = [free_device],
     cx_vms = [\<lparr>do_metadata = plain_meta ''vm'' ''v1'' ''3'', do_data = JObject []\<rparr>],
     cx_vmis = [\<lparr>do_metadata = plain_meta ''vm'' ''i1'' ''4'', do_data = JObject []\<rparr>]\<rparr>"

definition small_state :: CState where
  "small_state = \<lparr>c_log = [], c_devices = [], c_released = Map.empty\<rparr>"

lemma small_contract: "cas_contract small_versions small_server"
  by (auto simp: cas_contract_def patch_contract_def small_server_def small_versions_def leased_free_device_def genuine_def
      plain_meta_def free_device_def split: if_splits)

lemma small_genuine: "list_all (genuine small_versions) (cx_devices small_ctx)"
  by (simp add: small_ctx_def genuine_def small_versions_def free_device_def plain_meta_def)

section \<open>Witnesses\<close>

lemma small_lease_call:
  "PatchDeviceStatus ''usb-x'' (Some ''1'') radio_lease \<in> set (new_calls small_state (snd (reconcile_all sample_lib small_server small_ctx 100 small_state)))"
  by code_simp

theorem leases_are_never_stolen_witness:
  "\<exists>v c. Some ''1'' = Some v \<and> lease_holder (small_versions ''usb-x'' v) = None \<and>
    c \<in> set (live_claims_of (cx_claims small_ctx)) \<and> lease_for sample_lib 100 radio_claim = lease_for sample_lib 100 c \<and>
    claim_may_hold sample_lib small_ctx c \<and> selector_matches (cs_selector (uc_spec c)) (small_versions ''usb-x'' v)"
  by (rule leases_are_never_stolen [OF small_contract small_genuine small_lease_call]) (simp add: radio_lease_def patch_fields)

theorem devices_are_patched_under_their_version_witness: "lease_holder (small_versions ''usb-x'' ''1'') = None"
  using devices_are_patched_under_their_version [OF small_contract small_genuine small_lease_call]
  by (simp add: radio_lease_def patch_fields)

theorem pass_never_panics_witness:
  "fst (reconcile_all sample_lib small_server small_ctx 100 small_state) \<noteq> Inl (Panic ''held device exists'')"
  by (rule pass_never_panics [OF small_contract small_genuine])

definition small_loaded :: CState where
  "small_loaded = snd (load_devices [free_device] small_state)"

abbreviation small_slots :: "string \<rightharpoonup> slot_result" where
  "small_slots \<equiv> allocate_slots (map slot_request_of [radio_claim])"

definition small_claim_run :: "(RunError + ClaimOutcome) \<times> CState" where
  "small_claim_run = reconcile_claim sample_lib small_server 100 60 (vm_table_of (cx_vms small_ctx)) (vmi_table_of (cx_vmis small_ctx))
     small_slots radio_claim small_loaded"

lemma small_cache: "cache_ok small_versions small_loaded"
  unfolding small_loaded_def using load_devices_cache(1) small_genuine by (simp add: small_ctx_def)

lemma small_claim_result:
  "reconcile_claim sample_lib small_server 100 60 (vm_table_of (cx_vms small_ctx)) (vmi_table_of (cx_vmis small_ctx))
     small_slots radio_claim small_loaded = (Inr \<lparr>out_requeue = False, out_hold = None\<rparr>, snd small_claim_run)"
proof -
  have "fst small_claim_run = Inr \<lparr>out_requeue = False, out_hold = None\<rparr>" by code_simp
  then have "small_claim_run = (Inr \<lparr>out_requeue = False, out_hold = None\<rparr>, snd small_claim_run)" by (metis prod.collapse)
  then show ?thesis by (simp add: small_claim_run_def)
qed

theorem reconciled_claim_holds_one_device_witness:
  "\<exists>target. holders (snd small_claim_run) ''c1'' = set_option target"
proof -
  have "claim_uid radio_claim = ''c1''" by code_simp
  then show ?thesis using reconciled_claim_holds_one_device [OF small_contract small_cache small_claim_result] by auto
qed

theorem free_device_is_leased_witness:
  "\<exists>n. holders (snd small_claim_run) ''c1'' = {n} \<and> available_in sample_lib 100 60 (c_devices (snd small_claim_run)) n"
proof -
  have may: "may_hold_device sample_lib (vm_table_of (cx_vms small_ctx)) (vmi_table_of (cx_vmis small_ctx)) small_slots radio_claim"
    by code_simp
  have "lease_holder free_device = None \<and> selector_matches (cs_selector (uc_spec radio_claim)) free_device \<and>
      is_available sample_lib free_device 100 60" by code_simp
  moreover have "map_of (c_devices small_loaded) ''usb-x'' = Some free_device" by code_simp
  ultimately have free: "free_available sample_lib 100 60 (cs_selector (uc_spec radio_claim)) small_loaded"
    unfolding free_available_def by blast
  have "claim_uid radio_claim = ''c1''" by code_simp
  then show ?thesis using free_device_is_leased [OF small_contract small_cache may free small_claim_result] by simp
qed

theorem sweep_cleans_up_witness:
  "\<exists>st'. sweep_devices sample_lib small_server 100 60 {''c1''} (map fst (c_devices small_loaded)) False small_loaded = (Inr False, st') \<and>
     list_all (swept sample_lib 100 60 {''c1''} st') (map fst (c_devices st'))"
proof -
  let ?run = "sweep_devices sample_lib small_server 100 60 {''c1''} (map fst (c_devices small_loaded)) False small_loaded"
  have "fst ?run = Inr False" by code_simp
  then have run: "?run = (Inr False, snd ?run)" by (metis prod.collapse)
  then show ?thesis using sweep_cleans_up [OF small_contract small_cache run] by blast
qed

theorem resumed_vm_is_left_alone_witness:
  "Unpause ''ns'' ''vm'' \<notin> set (new_calls (small_state\<lparr>c_released := [''i1'' \<mapsto> ''the device is ready'']\<rparr>)
     (run_passes sample_lib small_server [(small_ctx, 100), (small_ctx, 700)] (small_state\<lparr>c_released := [''i1'' \<mapsto> ''the device is ready'']\<rparr>)))"
proof -
  have "is_some_and (\<lambda>i. vi_uid i = ''i1'') (vmi_table_of (cx_vmis small_ctx) (''ns'', ''vm''))" by code_simp
  then have "list_all (\<lambda>(ctx, now). sees_instance small_versions (''ns'', ''vm'') ''i1'' ctx) [(small_ctx, 100), (small_ctx, 700)]"
    using small_genuine by (simp add: sees_instance_def)
  from resumed_vm_is_left_alone [OF small_contract this, of "small_state\<lparr>c_released := [''i1'' \<mapsto> ''the device is ready'']\<rparr>" sample_lib]
  show ?thesis by simp
qed

end
