(* ===== verification/Sysfs.thy ===== *)
theory Sysfs
  imports Assign Utf8
begin

text \<open>
  \<open>src/sysfs.rs\<close>: enumerating the USB devices of a node. The file system is outside the program, so it is
  an argument: the names in a directory (a name that is no UTF-8 or could not be read is \<^const>\<open>None\<close>) or the
  error of listing it, and the contents of a file. The data type \<open>UsbDeviceInfo\<close> is in theory \<open>Identity\<close>.
\<close>

record FileSystem =
  fs_read_dir :: "string \<Rightarrow> string + string option list"
  fs_read :: "string \<Rightarrow> bytes option"

definition strip_end :: "string \<Rightarrow> string" where
  "strip_end s = rev (dropWhile (\<lambda>c. c = CHR 0x0A \<or> c = CHR 0x00) (rev s))"

definition read_attr :: "FileSystem \<Rightarrow> string \<Rightarrow> string \<Rightarrow> string option" where
  "read_attr fs dir attr =
     (case fs_read fs (path_join dir attr) of
        None \<Rightarrow> None
      | Some raw \<Rightarrow> let v = trim (strip_end (utf8_lossy raw)) in if v \<noteq> [] then Some v else None)"

definition read_hex_u8 :: "FileSystem \<Rightarrow> string \<Rightarrow> string \<Rightarrow> u8 option" where
  "read_hex_u8 fs dir attr =
     (case read_attr fs dir attr of None \<Rightarrow> None | Some s \<Rightarrow> map_option of_nat (parse_unsigned 16 8 s))"

definition read_device :: "FileSystem \<Rightarrow> string \<Rightarrow> string \<Rightarrow> UsbDeviceInfo option" where
  "read_device fs path name =
     Option.bind (read_attr fs path ''busnum'') (\<lambda>bus_text.
     Option.bind (parse_unsigned 10 32 bus_text) (\<lambda>bus.
     Option.bind (read_attr fs path ''devnum'') (\<lambda>dev_text.
     Option.bind (parse_unsigned 10 32 dev_text) (\<lambda>dev.
     Option.bind (read_attr fs path ''idVendor'') (\<lambda>vendor_text.
     Option.bind (normalize_usb_id vendor_text) (\<lambda>vendor.
     Option.bind (read_attr fs path ''idProduct'') (\<lambda>product_text.
     Option.bind (normalize_usb_id product_text) (\<lambda>product.
     Option.bind (read_hex_u8 fs path ''bDeviceClass'') (\<lambda>cls.
       Some \<lparr>ui_port_path = name, ui_bus_num = of_nat bus, ui_dev_num = of_nat dev, ui_vendor_id = vendor,
             ui_product_id = product, ui_serial = read_attr fs path ''serial'', ui_manufacturer = read_attr fs path ''manufacturer'',
             ui_product = read_attr fs path ''product'', ui_bcd_device = read_attr fs path ''bcdDevice'', ui_device_class = cls,
             ui_interface_classes = [], ui_speed = read_attr fs path ''speed''\<rparr>)))))))))"

definition is_device_entry :: "string \<Rightarrow> bool" where
  "is_device_entry name \<longleftrightarrow> \<not> (CHR '':'' \<in> set name \<or> starts_with name ''usb'')"

definition interface_classes_of :: "FileSystem \<Rightarrow> string \<Rightarrow> string list \<Rightarrow> string \<Rightarrow> u8 list" where
  "interface_classes_of fs dir names name =
     List.map_filter (\<lambda>iface. read_hex_u8 fs (path_join dir iface) ''bInterfaceClass'')
       (filter (\<lambda>iface. starts_with iface (name @ '':'')) names)"

definition scan_entry :: "FileSystem \<Rightarrow> string \<Rightarrow> string list \<Rightarrow> string \<Rightarrow> UsbDeviceInfo option" where
  "scan_entry fs dir names name =
     (if \<not> is_device_entry name then None
      else map_option (\<lambda>d. d\<lparr>ui_interface_classes := interface_classes_of fs dir names name\<rparr>)
             (read_device fs (path_join dir name) name))"

definition scan :: "FileSystem \<Rightarrow> string \<Rightarrow> string + UsbDeviceInfo list" where
  "scan fs sysfs_root =
     (let dir = path_join sysfs_root ''bus/usb/devices''
      in case fs_read_dir fs dir of
           Inl e \<Rightarrow> Inl e
         | Inr entries \<Rightarrow>
             let names = sort (List.map_filter (\<lambda>e. e) entries)
             in Inr (List.map_filter (scan_entry fs dir names) names))"

section \<open>Lemmas\<close>

lemma scan_entry_port_path: "scan_entry fs dir names name = Some d \<Longrightarrow> ui_port_path d = name \<and> is_device_entry name"
  by (auto simp: scan_entry_def read_device_def split: if_splits bind_splits)

lemma read_attr_nonblank: "read_attr fs dir attr = Some v \<Longrightarrow> v \<noteq> []"
  by (auto simp: read_attr_def Let_def split: option.splits if_splits)

lemma map_filter_map_id:
  assumes "\<And>x y. f x = Some y \<Longrightarrow> g y = x"
  shows "map g (List.map_filter f xs) = filter (\<lambda>x. f x \<noteq> None) xs"
  using assms by (induction xs) (auto simp: List.map_filter_def)

lemma scan_port_paths:
  assumes "scan fs root = Inr devices"
  shows "\<exists>names. map ui_port_path devices = filter (\<lambda>n. scan_entry fs (path_join root ''bus/usb/devices'') names n \<noteq> None) names \<and>
    sorted names \<and> (\<forall>es. fs_read_dir fs (path_join root ''bus/usb/devices'') = Inr es \<longrightarrow> names = sort (List.map_filter (\<lambda>e. e) es))"
  using assms map_filter_map_id [of "scan_entry fs _ _" ui_port_path] scan_entry_port_path
  by (auto simp: scan_def Let_def split: sum.splits)

lemma lower_hex_lowercase: "is_ascii_hexdigit c \<Longrightarrow> lower_hex (to_ascii_lowercase c)"
  by (auto simp: lower_hex_def is_ascii_hexdigit_def is_ascii_digit_def code_to_ascii_lowercase is_ascii_uppercase_def)

lemma usb_id4_normalize: "normalize_usb_id s = Some v \<Longrightarrow> usb_id4 v"
proof -
  have "lower_hex (CHR ''0'')" by code_simp
  moreover assume "normalize_usb_id s = Some v"
  ultimately show ?thesis
    by (auto simp: normalize_usb_id_def usb_id4_def Let_def list_all_iff lower_hex_lowercase split: if_splits)
qed

lemma scan_entry_fields:
  assumes "scan_entry fs dir names name = Some d"
  shows "usb_id4 (ui_vendor_id d)" and "usb_id4 (ui_product_id d)" and "ui_serial d \<noteq> Some []"
    and "ui_interface_classes d = interface_classes_of fs dir names name"
  using assms
  by (auto simp: scan_entry_def read_device_def dest: usb_id4_normalize read_attr_nonblank split: if_splits bind_splits)

text \<open>
  A scan lists every fully enumerated device once, in the strict order of port paths, so no two devices of a scan
  have the same instance key; no interface and no root hub is among them, and their vendor and
  product ids are four lower-case hex digits, which is what the names of devices are built from.
\<close>

theorem scan_is_canonical:
  assumes "fs_read_dir fs (path_join root ''bus/usb/devices'') = Inr entries"
    and "distinct (List.map_filter (\<lambda>e. e) entries)" and "scan fs root = Inr devices"
  shows "sorted_wrt (<) (map ui_port_path devices) \<and> distinct (map instance_key_of devices) \<and>
    (\<forall>d \<in> set devices. is_device_entry (ui_port_path d) \<and> usb_id4 (ui_vendor_id d) \<and> usb_id4 (ui_product_id d))"
proof -
  let ?dir = "path_join root ''bus/usb/devices''"
  define names where "names = sort (List.map_filter (\<lambda>e. e) entries)"
  have devices: "devices = List.map_filter (scan_entry fs ?dir names) names"
    using assms(1,3) by (simp add: scan_def names_def Let_def)
  then have ports: "map ui_port_path devices = filter (\<lambda>n. scan_entry fs ?dir names n \<noteq> None) names"
    by (simp add: map_filter_map_id [of "scan_entry fs ?dir names" ui_port_path] scan_entry_port_path)
  have "sorted_wrt (<) names" using assms(2) by (simp add: names_def strict_sorted_iff)
  then have sorted: "sorted_wrt (<) (map ui_port_path devices)" unfolding ports by (rule sorted_wrt_filter)
  then have "distinct (map ui_port_path devices)" by (simp add: strict_sorted_iff)
  then have "distinct (map instance_key_of devices)"
    by (auto simp: distinct_map inj_on_def instance_key_of_def)
  moreover have "is_device_entry (ui_port_path d) \<and> usb_id4 (ui_vendor_id d) \<and> usb_id4 (ui_product_id d)" if "d \<in> set devices" for d
    using that scan_entry_port_path scan_entry_fields
    by (auto simp: devices List.map_filter_def)
  ultimately show ?thesis using sorted by blast
qed

definition sample_tree :: FileSystem where
  "sample_tree =
     \<lparr>fs_read_dir = (\<lambda>_. Inr [Some ''usb3'', Some ''3-3'', Some ''3-3:1.0'', None]),
      fs_read = map_of
        [(''/sys/bus/usb/devices/3-3/busnum'', ''3'' @ [CHR 0x0A]), (''/sys/bus/usb/devices/3-3/devnum'', ''4'' @ [CHR 0x0A]),
         (''/sys/bus/usb/devices/3-3/idVendor'', ''1A86''), (''/sys/bus/usb/devices/3-3/idProduct'', ''7523''),
         (''/sys/bus/usb/devices/3-3/bDeviceClass'', ''ff''), (''/sys/bus/usb/devices/3-3:1.0/bInterfaceClass'', ''ff'')]\<rparr>"

definition sample_device :: UsbDeviceInfo where
  "sample_device =
     \<lparr>ui_port_path = ''3-3'', ui_bus_num = 3, ui_dev_num = 4, ui_vendor_id = ''1a86'', ui_product_id = ''7523'',
      ui_serial = None, ui_manufacturer = None, ui_product = None, ui_bcd_device = None, ui_device_class = 255,
      ui_interface_classes = [255], ui_speed = None\<rparr>"

text \<open>A plain attribute value with the newline the kernel puts after it.\<close>

lemma read_attr_plain:
  assumes "fs_read fs (path_join dir attr) = Some (v @ nl)" and "nl \<in> {[], [CHR 0x0A]}"
    and "v \<noteq> []" and "\<forall>c \<in> set v. 33 \<le> code c \<and> code c < 128"
  shows "read_attr fs dir attr = Some v"
proof -
  have "utf8_lossy (v @ nl) = v @ nl" using assms(2,4) by (intro utf8_lossy_valid utf8_ascii) auto
  moreover have "strip_end (v @ nl) = v"
  proof -
    obtain w c where v: "v = w @ [c]" using assms(3) by (cases v rule: rev_cases) auto
    with assms(4) have "c \<noteq> CHR 0x0A" "c \<noteq> CHR 0x00" by auto
    with assms(2) v show ?thesis by (auto simp: strip_end_def)
  qed
  ultimately show ?thesis using assms(1,3,4) by (simp add: read_attr_def trim_printable)
qed

lemma read_attr_missing: "fs_read fs (path_join dir attr) = None \<Longrightarrow> read_attr fs dir attr = None"
  by (simp add: read_attr_def)

lemma sample_attrs:
  fixes dir :: string
  defines "dir \<equiv> ''/sys/bus/usb/devices/3-3''"
  shows "read_attr sample_tree dir ''busnum'' = Some ''3''" "read_attr sample_tree dir ''devnum'' = Some ''4''"
    "read_attr sample_tree dir ''idVendor'' = Some ''1A86''" "read_attr sample_tree dir ''idProduct'' = Some ''7523''"
    "read_attr sample_tree dir ''bDeviceClass'' = Some ''ff''"
    "read_attr sample_tree ''/sys/bus/usb/devices/3-3:1.0'' ''bInterfaceClass'' = Some ''ff''"
    "read_attr sample_tree dir ''serial'' = None" "read_attr sample_tree dir ''manufacturer'' = None"
    "read_attr sample_tree dir ''product'' = None" "read_attr sample_tree dir ''bcdDevice'' = None"
    "read_attr sample_tree dir ''speed'' = None"
  unfolding dir_def
  by (rule read_attr_plain [where nl = "[CHR 0x0A]"] read_attr_plain [where nl = "[]"] read_attr_missing;
      simp add: sample_tree_def path_join_def starts_with_def; fail)+

lemma sample_numbers:
  "parse_unsigned 10 32 ''3'' = Some 3" "parse_unsigned 10 32 ''4'' = Some 4" "parse_unsigned 16 8 ''ff'' = Some 255"
  "normalize_usb_id ''1A86'' = Some ''1a86''" "normalize_usb_id ''7523'' = Some ''7523''"
proof -
  have a: "char_of (97 :: nat) = CHR ''a''" by code_simp
  show "parse_unsigned 10 32 ''3'' = Some 3" "parse_unsigned 10 32 ''4'' = Some 4" "parse_unsigned 16 8 ''ff'' = Some 255"
    "normalize_usb_id ''1A86'' = Some ''1a86''" "normalize_usb_id ''7523'' = Some ''7523''"
    by (simp_all add: parse_unsigned_def starts_with_def digit_value_def rust_defs normalize_usb_id_def usb_id_digits_def trim_printable
        strip_prefix_def a)
qed

lemma sample_scan: "scan sample_tree ''/sys'' = Inr [sample_device]"
proof -
  have join: "path_join ''/sys'' ''bus/usb/devices'' = ''/sys/bus/usb/devices''"
    "path_join ''/sys/bus/usb/devices'' ''3-3'' = ''/sys/bus/usb/devices/3-3''"
    "path_join ''/sys/bus/usb/devices'' ''3-3:1.0'' = ''/sys/bus/usb/devices/3-3:1.0''"
    by (simp_all add: path_join_def starts_with_def)
  have entries: "fs_read_dir sample_tree d = Inr [Some ''usb3'', Some ''3-3'', Some ''3-3:1.0'', None]" for d
    by (simp add: sample_tree_def)
  define names where "names = [''3-3'', ''3-3:1.0'', ''usb3'']"
  have sorted: "sort (List.map_filter (\<lambda>e. e) [Some ''usb3'', Some ''3-3'', Some ''3-3:1.0'', None]) = names"
    unfolding names_def by code_simp
  have "scan_entry sample_tree ''/sys/bus/usb/devices'' names ''3-3'' = Some sample_device"
    by (simp add: scan_entry_def is_device_entry_def starts_with_def join read_device_def sample_attrs sample_numbers read_hex_u8_def
        interface_classes_of_def names_def List.map_filter_def sample_device_def)
  moreover have "scan_entry sample_tree ''/sys/bus/usb/devices'' names ''3-3:1.0'' = None"
    "scan_entry sample_tree ''/sys/bus/usb/devices'' names ''usb3'' = None"
    by (simp_all add: scan_entry_def is_device_entry_def starts_with_def)
  ultimately have "List.map_filter (scan_entry sample_tree ''/sys/bus/usb/devices'' names) [''3-3'', ''3-3:1.0'', ''usb3''] = [sample_device]"
    by (simp add: List.map_filter_def)
  then show ?thesis by (simp only: scan_def join entries sorted Let_def sum.case names_def)
qed

theorem scan_is_canonical_witness:
  "scan sample_tree ''/sys'' = Inr [sample_device] \<and> distinct (map instance_key_of [sample_device]) \<and> usb_id4 (ui_vendor_id sample_device)"
proof -
  have "fs_read_dir sample_tree (path_join ''/sys'' ''bus/usb/devices'') = Inr [Some ''usb3'', Some ''3-3'', Some ''3-3:1.0'', None]"
    by (simp add: sample_tree_def)
  from scan_is_canonical [OF this _ sample_scan] sample_scan show ?thesis by (simp add: List.map_filter_def)
qed

end
