(* ===== verification/Uevent.thy ===== *)
theory Uevent
  imports Utf8
begin

text \<open>
  The parser of \<open>src/uevent.rs\<close>: kernel uevents, datagrams of NUL-terminated fields, of which the first is
  \<open>ACTION@DEVPATH\<close> and the rest are \<open>KEY=VALUE\<close>. The netlink socket is in theory \<open>UeventSocket\<close>.
\<close>

record Uevent =
  ue_action :: string
  ue_devpath :: string
  ue_vars :: "string \<rightharpoonup> string"

definition subsystem :: "Uevent \<Rightarrow> string option" where
  "subsystem ev = ue_vars ev ''SUBSYSTEM''"

definition affects_usb_devices :: "Uevent \<Rightarrow> bool" where
  "affects_usb_devices ev \<longleftrightarrow>
     subsystem ev = Some ''usb'' \<and> is_none_or (\<lambda>t. t = ''usb_device'') (ue_vars ev ''DEVTYPE'')"

abbreviation NUL :: char where
  "NUL \<equiv> CHR 0x00"

definition parse_var :: "bytes \<Rightarrow> (string \<times> string) option" where
  "parse_var f = Option.bind (from_utf8 f) (split_once (CHR ''=''))"

definition parse :: "bytes \<Rightarrow> Uevent option" where
  "parse buf =
     (case filter (\<lambda>f. f \<noteq> []) (split_on NUL buf) of
        [] \<Rightarrow> None
      | first # rest \<Rightarrow>
          (case from_utf8 first of
             None \<Rightarrow> None
           | Some header \<Rightarrow>
               (case split_once (CHR ''@'') header of
                  None \<Rightarrow> None
                | Some (action, devpath) \<Rightarrow>
                    Some \<lparr>ue_action = action, ue_devpath = devpath, ue_vars = collect_map (List.map_filter parse_var rest)\<rparr>)))"

section \<open>Round trip\<close>

text \<open>How the kernel writes an event.\<close>

definition write_uevent :: "string \<Rightarrow> string \<Rightarrow> (string \<times> string) list \<Rightarrow> bytes" where
  "write_uevent action devpath vars =
     action @ ''@'' @ devpath @ [NUL] @ concat (map (\<lambda>(k, v). k @ ''='' @ v @ [NUL]) vars)"

lemma split_on_sep: "c \<notin> set a \<Longrightarrow> split_on c (a @ c # b) = a # split_on c b"
  by (induction a) auto

lemma split_on_fields:
  "\<forall>f \<in> set fs. c \<notin> set f \<Longrightarrow> split_on c (concat (map (\<lambda>f. f @ [c]) fs)) = fs @ [[]]"
  by (induction fs) (auto simp: split_on_sep)

text \<open>
  An event as the kernel writes it is read back: the action, the path and, for every key, the value of its last
  occurrence, provided the texts are UTF-8 without NUL bytes, the action has no @ and no key an equals sign.
\<close>

theorem uevent_roundtrip:
  assumes "CHR ''@'' \<notin> set action" and "NUL \<notin> set (action @ devpath)" and "utf8_valid (action @ ''@'' @ devpath)"
    and "\<forall>(k, v) \<in> set vars. CHR ''='' \<notin> set k \<and> NUL \<notin> set (k @ v) \<and> utf8_valid (k @ ''='' @ v)"
  shows "parse (write_uevent action devpath vars) =
    Some \<lparr>ue_action = action, ue_devpath = devpath, ue_vars = collect_map vars\<rparr>"
proof -
  define fs where "fs = (action @ ''@'' @ devpath) # map (\<lambda>(k, v). k @ ''='' @ v) vars"
  have "write_uevent action devpath vars = concat (map (\<lambda>f. f @ [NUL]) fs)"
    by (simp add: write_uevent_def fs_def comp_def case_prod_unfold)
  moreover have "\<forall>f \<in> set fs. NUL \<notin> set f" using assms by (fastforce simp: fs_def)
  ultimately have "split_on NUL (write_uevent action devpath vars) = fs @ [[]]" by (simp add: split_on_fields)
  moreover have "filter (\<lambda>f. f \<noteq> []) fs = fs" by (auto simp: fs_def intro!: filter_True)
  moreover have "List.map_filter parse_var (map (\<lambda>(k, v). k @ ''='' @ v) vars) = vars"
    using assms(4) by (induction vars) (auto simp: List.map_filter_def parse_var_def from_utf8_def)
  moreover have "split_once (CHR ''@'') (action @ ''@'' @ devpath) = Some (action, devpath)"
    using split_once_sep [OF assms(1)] by simp
  ultimately show ?thesis using assms(3) by (simp add: parse_def fs_def from_utf8_def)
qed

text \<open>
  Messages of udevd are rejected: their first field is \<open>libudev\<close>.
\<close>

lemma udev_messages_are_rejected: "parse (''libudev'' @ [NUL] @ rest) = None"
proof -
  have "split_on NUL (''libudev'' @ [NUL] @ rest) = ''libudev'' # split_on NUL rest"
    using split_on_sep [of NUL "''libudev''" rest] by simp
  moreover have "split_once (CHR ''@'') ''libudev'' = None" by (simp add: split_once_def)
  ultimately show ?thesis by (simp add: parse_def from_utf8_def)
qed

theorem uevent_roundtrip_witness:
  "parse (write_uevent ''add'' ''/devices/usb3/3-3'' [(''SUBSYSTEM'', ''usb''), (''DEVTYPE'', ''usb_device'')]) =
     Some \<lparr>ue_action = ''add'', ue_devpath = ''/devices/usb3/3-3'',
       ue_vars = collect_map [(''SUBSYSTEM'', ''usb''), (''DEVTYPE'', ''usb_device'')]\<rparr>"
  by (rule uevent_roundtrip) (auto intro!: utf8_ascii)

end
