(* ===== verification/Discovery.thy ===== *)
theory Discovery
  imports Api Agent Sysfs Uevent
begin

text \<open>
  \<open>src/agent/discovery.rs\<close>: the agent's scan loop, which turns the devices of its node into \<open>UsbDevice\<close>
  objects. The cluster is a parameter, as for the controller: for every kind of write, a function from the writes made so
  far to the answer, which may also be that the write timed out. The monotonic clock (\<open>Instant\<close>) is a
  function of the writes made so far, in nanoseconds. A status written as JSON is a \<open>DeviceStatusPatch\<close>,
  in which an absent member is \<^const>\<open>Keep\<close> and a null one \<open>Put None\<close>; since all
  members of \<open>UsbDeviceStatus\<close> are left out when unset, comparing JSON without nulls is comparing records.
\<close>

section \<open>Writes\<close>

datatype AgentCall =
    ApplyDevice string UsbDeviceSpec "(string, string) btree"
  | WriteStatus string "string option" DeviceStatusPatch

datatype WriteReply = Written | Refused KubeError | NoAnswer

record AgentServer =
  ag_reply :: "AgentCall list \<Rightarrow> AgentCall \<Rightarrow> WriteReply"
  ag_clock :: "AgentCall list \<Rightarrow> nat"

definition NANOS :: nat where
  "NANOS = 1000000000"

definition WRITE_TIMEOUT :: nat where
  "WRITE_TIMEOUT = 15"

definition DEFERRED_RESCAN :: nat where
  "DEFERRED_RESCAN = 3"

datatype WriteError = WriteRefused KubeError | WriteTimedOut string

record DiscoveryState =
  di_log :: "AgentCall list"
  di_local :: LocalDevices
  di_sticky :: "InstanceKey \<rightharpoonup> Assignment"
  di_first_seen :: "InstanceKey \<rightharpoonup> nat"
  di_deferred_logged :: "InstanceKey set"
  di_status_writes :: "string \<rightharpoonup> DeviceStatusPatch \<times> nat"

definition discovery_new :: DiscoveryState where
  "discovery_new =
     \<lparr>di_log = [], di_local = [], di_sticky = Map.empty, di_first_seen = Map.empty, di_deferred_logged = {},
      di_status_writes = Map.empty\<rparr>"

definition bounded :: "AgentServer \<Rightarrow> string \<Rightarrow> AgentCall \<Rightarrow> DiscoveryState \<Rightarrow> (WriteError + unit) \<times> DiscoveryState" where
  "bounded srv what call st =
     ((case ag_reply srv (di_log st) call of
         Written \<Rightarrow> Inr ()
       | Refused e \<Rightarrow> Inl (WriteRefused e)
       | NoAnswer \<Rightarrow> Inl (WriteTimedOut (what @ '' timed out after '' @ show_nat WRITE_TIMEOUT @ ''s''))),
      st\<lparr>di_log := di_log st @ [call]\<rparr>)"

section \<open>Publishing a device\<close>

definition LABEL_VENDOR_ID :: string where
  "LABEL_VENDOR_ID = ''atomicusb.safewords.io/vendor-id''"

definition LABEL_PRODUCT_ID :: string where
  "LABEL_PRODUCT_ID = ''atomicusb.safewords.io/product-id''"

definition LABEL_NODE :: string where
  "LABEL_NODE = ''atomicusb.safewords.io/node''"

definition LABEL_IDENTITY :: string where
  "LABEL_IDENTITY = ''atomicusb.safewords.io/identity''"

fun identity_debug :: "IdentitySource \<Rightarrow> string" where
  "identity_debug Serial = ''Serial''"
| "identity_debug SerialDescriptor = ''SerialDescriptor''"
| "identity_debug Descriptor = ''Descriptor''"
| "identity_debug PortPath = ''PortPath''"

definition published_spec :: "UsbDeviceInfo \<Rightarrow> IdentitySource \<Rightarrow> UsbDeviceSpec" where
  "published_spec d source =
     \<lparr>ds_vendor_id = ui_vendor_id d, ds_product_id = ui_product_id d, ds_serial = ui_serial d,
      ds_manufacturer = ui_manufacturer d, ds_product = ui_product d, ds_bcd_device = ui_bcd_device d, ds_identity = source\<rparr>"

definition published_labels :: "AgentConfig \<Rightarrow> UsbDeviceInfo \<Rightarrow> IdentitySource \<Rightarrow> (string, string) btree" where
  "published_labels cfg d source =
     bt_collect (List.map_filter (\<lambda>(k, v). map_option (\<lambda>w. (k, w)) v)
       [(LABEL_VENDOR_ID, Some (ui_vendor_id d)), (LABEL_PRODUCT_ID, Some (ui_product_id d)),
        (LABEL_NODE, label_value (cfg_node cfg)), (LABEL_IDENTITY, Some (identity_debug source))])"

definition desired_status :: "AgentConfig \<Rightarrow> UsbDeviceInfo \<Rightarrow> DeviceStatusPatch" where
  "desired_status cfg d =
     \<lparr>dp_phase = Put (Some Available), dp_node = Put (Some (cfg_node cfg)), dp_port_path = Put (Some (ui_port_path d)),
      dp_bus_num = Put (Some (ui_bus_num d)), dp_dev_num = Put (Some (ui_dev_num d)), dp_speed = Put (ui_speed d),
      dp_device_class = Put (Some (show_hex2 (ui_device_class d))),
      dp_interface_classes = Put (Some (map show_hex2 (ui_interface_classes d))),
      dp_exporter = Put (Some \<lparr>ee_address = cfg_pod_ip cfg, ee_port = sa_port (cfg_listen cfg), ee_pod = cfg_pod_name cfg\<rparr>),
      dp_last_seen = Keep, dp_message = Put None, dp_attached_to = Keep\<rparr>"

definition spec_current :: "UsbDeviceSpec \<Rightarrow> (string, string) btree \<Rightarrow> UsbDevice option \<Rightarrow> bool" where
  "spec_current spec labels existing =
     is_some_and (\<lambda>obj. ud_spec obj = spec \<and> list_all (\<lambda>(k, v). map_of (om_labels (ud_metadata obj)) k = Some v) labels) existing"

definition status_current :: "DeviceStatusPatch \<Rightarrow> UsbDeviceStatus option \<Rightarrow> bool" where
  "status_current desired observed =
     is_some_and (\<lambda>s. merge_status desired EMPTY_STATUS = s\<lparr>st_last_seen := None, st_attached_to := None\<rparr>) observed"

definition heartbeat_due :: "Lib \<Rightarrow> AgentConfig \<Rightarrow> seconds \<Rightarrow> UsbDeviceStatus option \<Rightarrow> bool" where
  "heartbeat_due L cfg now observed =
     is_none_or (\<lambda>age. age \<ge> sint (cfg_heartbeat_interval cfg))
       (Option.bind observed (\<lambda>s. age_secs L (st_last_seen s) now))"

definition written_recently :: "AgentServer \<Rightarrow> AgentConfig \<Rightarrow> string \<Rightarrow> DeviceStatusPatch \<Rightarrow> DiscoveryState \<Rightarrow> bool" where
  "written_recently srv cfg name desired st =
     is_some_and (\<lambda>(value, at). value = desired \<and>
         ag_clock srv (di_log st) - at < min (unat (cfg_heartbeat_interval cfg)) 10 * NANOS)
       (di_status_writes st name)"

definition write_heartbeat ::
  "Lib \<Rightarrow> AgentServer \<Rightarrow> string \<Rightarrow> DeviceStatusPatch \<Rightarrow> seconds \<Rightarrow> DiscoveryState \<Rightarrow> (WriteError + unit) \<times> DiscoveryState" where
  "write_heartbeat L srv name desired now st =
     (case bounded srv ''the heartbeat'' (WriteStatus name None (desired\<lparr>dp_last_seen := Put (Some (rfc3339 L now))\<rparr>)) st of
        (Inl e, st') \<Rightarrow> (Inl e, st')
      | (Inr _, st') \<Rightarrow>
          (Inr (), st'\<lparr>di_status_writes := (di_status_writes st')(name \<mapsto> (desired, ag_clock srv (di_log st')))\<rparr>))"

definition apply_spec ::
  "AgentServer \<Rightarrow> AgentConfig \<Rightarrow> string \<Rightarrow> UsbDeviceInfo \<Rightarrow> IdentitySource \<Rightarrow> UsbDevice option \<Rightarrow> DiscoveryState \<Rightarrow>
   (WriteError + unit) \<times> DiscoveryState" where
  "apply_spec srv cfg name d source existing st =
     (let spec = published_spec d source; labels = published_labels cfg d source
      in if spec_current spec labels existing then (Inr (), st)
         else bounded srv ''updating the device'' (ApplyDevice name spec labels) st)"

definition publish ::
  "Lib \<Rightarrow> AgentServer \<Rightarrow> AgentConfig \<Rightarrow> string \<Rightarrow> UsbDeviceInfo \<Rightarrow> IdentitySource \<Rightarrow> UsbDevice option \<Rightarrow> seconds \<Rightarrow> DiscoveryState \<Rightarrow>
   (WriteError + unit) \<times> DiscoveryState" where
  "publish L srv cfg name d source existing now st =
     (case apply_spec srv cfg name d source existing st of
        (Inl e, st1) \<Rightarrow> (Inl e, st1)
      | (Inr _, st1) \<Rightarrow>
          let desired = desired_status cfg d;
              observed = Option.bind existing ud_status
          in if (status_current desired observed \<and> \<not> heartbeat_due L cfg now observed) \<or> written_recently srv cfg name desired st1
             then (Inr (), st1)
             else write_heartbeat L srv name desired now st1)"

definition unplugged_patch :: "Lib \<Rightarrow> AgentConfig \<Rightarrow> seconds \<Rightarrow> DeviceStatusPatch" where
  "unplugged_patch L cfg now =
     no_patch\<lparr>dp_phase := Put (Some Unplugged), dp_exporter := Put None, dp_bus_num := Put None, dp_dev_num := Put None,
       dp_message := Put (Some (''unplugged from '' @ cfg_node cfg @ '' at '' @ rfc3339 L now))\<rparr>"

text \<open>The outcome of the write is only logged.\<close>

definition mark_unplugged :: "Lib \<Rightarrow> AgentServer \<Rightarrow> AgentConfig \<Rightarrow> seconds \<Rightarrow> UsbDevice \<Rightarrow> DiscoveryState \<Rightarrow> DiscoveryState" where
  "mark_unplugged L srv cfg now obj st =
     st\<lparr>di_log := di_log st @
       [WriteStatus (device_name_any obj) (om_resource_version (ud_metadata obj)) (unplugged_patch L cfg now)]\<rparr>"

section \<open>A scan\<close>

definition published :: "AgentConfig \<Rightarrow> UsbDeviceInfo \<Rightarrow> bool" where
  "published cfg d \<longleftrightarrow> (cfg_include_hubs cfg \<or> \<not> is_hub d) \<and> \<not> list_ex (\<lambda>p. pattern_matches p d) (cfg_ignore cfg)"

definition objects_by_name_of :: "UsbDevice list \<Rightarrow> (string \<rightharpoonup> UsbDevice)" where
  "objects_by_name_of objects = collect_map (map (\<lambda>obj. (device_name_any obj, obj)) objects)"

definition recover_one :: "AgentConfig \<Rightarrow> UsbDevice \<Rightarrow> (InstanceKey \<rightharpoonup> Assignment) \<Rightarrow> (InstanceKey \<rightharpoonup> Assignment)" where
  "recover_one cfg obj sticky =
     (let status = status_ref obj
      in if st_node status \<noteq> Some (cfg_node cfg) \<or> st_phase status \<noteq> Some Available then sticky
         else case (st_port_path status, st_bus_num status, st_dev_num status) of
                (Some port_path, Some bus_num, Some dev_num) \<Rightarrow>
                  sticky(InstanceKey port_path bus_num dev_num \<mapsto>
                    \<lparr>as_name = device_name_any obj, as_source = ds_identity (ud_spec obj)\<rparr>)
              | _ \<Rightarrow> sticky)"

definition recover_assignments :: "AgentConfig \<Rightarrow> UsbDevice list \<Rightarrow> DiscoveryState \<Rightarrow> DiscoveryState" where
  "recover_assignments cfg objects st = st\<lparr>di_sticky := fold (recover_one cfg) objects (di_sticky st)\<rparr>"

definition still_valid :: "(InstanceKey \<rightharpoonup> Fingerprint) \<Rightarrow> (string \<rightharpoonup> UsbDevice) \<Rightarrow> InstanceKey \<Rightarrow> Assignment \<Rightarrow> bool" where
  "still_valid fingerprints objects_by_name key a =
     is_some_and (\<lambda>fp. is_none_or (\<lambda>obj. device_fingerprint obj = fp) (objects_by_name (as_name a))) (fingerprints key)"

definition known_devices :: "Lib \<Rightarrow> AgentConfig \<Rightarrow> seconds \<Rightarrow> UsbDevice list \<Rightarrow> KnownDevice list" where
  "known_devices L cfg now objects =
     map (\<lambda>obj. \<lparr>kd_name = device_name_any obj, kd_fingerprint = device_fingerprint obj,
       kd_present_on = (if is_available L obj now (sint (cfg_lost_after cfg)) then st_node (status_ref obj) else None)\<rparr>) objects"

text \<open>Forgetting the instances that disappeared, and the times at which the present ones were first seen.\<close>

definition refresh :: "AgentConfig \<Rightarrow> nat \<Rightarrow> UsbDevice list \<Rightarrow> UsbDeviceInfo list \<Rightarrow> DiscoveryState \<Rightarrow> DiscoveryState" where
  "refresh cfg started objects devices st =
     (let fingerprints = collect_map (fingerprints_of devices)
      in st\<lparr>di_sticky := retain (still_valid fingerprints (objects_by_name_of objects)) (di_sticky st),
            di_first_seen := (\<lambda>key. if fingerprints key = None then None
               else Some (case di_first_seen st key of None \<Rightarrow> started | Some t \<Rightarrow> t)),
            di_deferred_logged := {key \<in> di_deferred_logged st. fingerprints key \<noteq> None}\<rparr>)"

definition may_defer_of :: "AgentConfig \<Rightarrow> nat \<Rightarrow> DiscoveryState \<Rightarrow> UsbDeviceInfo list \<Rightarrow> InstanceKey set" where
  "may_defer_of cfg started st devices =
     set (filter (\<lambda>key. is_some_and (\<lambda>seen. started - seen < unat (cfg_lost_after cfg) * NANOS) (di_first_seen st key))
       (map instance_key_of devices))"

definition scan_context :: "Lib \<Rightarrow> AgentConfig \<Rightarrow> seconds \<Rightarrow> nat \<Rightarrow> UsbDevice list \<Rightarrow> UsbDeviceInfo list \<Rightarrow> DiscoveryState \<Rightarrow> AssignContext" where
  "scan_context L cfg now started objects devices st =
     \<lparr>ac_node = cfg_node cfg, ac_sticky = di_sticky st, ac_known = known_devices L cfg now objects,
      ac_may_defer = may_defer_of cfg started st devices\<rparr>"

type_synonym local_view = "(string, UsbDeviceInfo \<times> IdentitySource) btree"

text \<open>
  The loop over the devices: the names that are kept or new, the local view and whether some device has to wait. A device without a
  decision is the panic of \<open>decisions[&key]\<close>, here \<^const>\<open>None\<close>.
\<close>

fun take_decisions ::
  "(InstanceKey \<rightharpoonup> Decision) \<Rightarrow> UsbDeviceInfo list \<Rightarrow> local_view \<Rightarrow> bool \<Rightarrow> DiscoveryState \<Rightarrow> (local_view \<times> bool \<times> DiscoveryState) option" where
  "take_decisions decisions [] loc deferred st = Some (loc, deferred, st)"
| "take_decisions decisions (d # devices) loc deferred st =
     (case decisions (instance_key_of d) of
        None \<Rightarrow> None
      | Some (Assigned a) \<Rightarrow>
          take_decisions decisions devices (bt_insert (as_name a) (d, as_source a) loc) deferred
            (if di_sticky st (instance_key_of d) \<noteq> Some a
             then st\<lparr>di_sticky := (di_sticky st)(instance_key_of d \<mapsto> a)\<rparr> else st)
      | Some (Deferred name held_by) \<Rightarrow>
          take_decisions decisions devices loc True
            (st\<lparr>di_deferred_logged := insert (instance_key_of d) (di_deferred_logged st)\<rparr>))"

definition view_of :: "local_view \<Rightarrow> LocalDevices" where
  "view_of loc = map (\<lambda>(name, (d, _)). (name, d)) loc"

text \<open>\<open>send_if_modified\<close>: the watch channel has the new view; equal views wake nobody.\<close>

definition publish_local :: "local_view \<Rightarrow> DiscoveryState \<Rightarrow> DiscoveryState" where
  "publish_local loc st = st\<lparr>di_local := view_of loc\<rparr>"

fun publish_all ::
  "Lib \<Rightarrow> AgentServer \<Rightarrow> AgentConfig \<Rightarrow> (string \<rightharpoonup> UsbDevice) \<Rightarrow> seconds \<Rightarrow> local_view \<Rightarrow> DiscoveryState \<Rightarrow> DiscoveryState" where
  "publish_all L srv cfg objects now [] st = st"
| "publish_all L srv cfg objects now ((name, (d, source)) # rest) st =
     publish_all L srv cfg objects now rest (snd (publish L srv cfg name d source (objects name) now st))"

definition gone :: "AgentConfig \<Rightarrow> local_view \<Rightarrow> UsbDevice \<Rightarrow> bool" where
  "gone cfg loc obj \<longleftrightarrow>
     st_node (status_ref obj) = Some (cfg_node cfg) \<and> st_phase (status_ref obj) = Some Available \<and>
     map_of loc (device_name_any obj) = None"

definition mark_gone :: "Lib \<Rightarrow> AgentServer \<Rightarrow> AgentConfig \<Rightarrow> seconds \<Rightarrow> local_view \<Rightarrow> UsbDevice list \<Rightarrow> DiscoveryState \<Rightarrow> DiscoveryState" where
  "mark_gone L srv cfg now loc objects st = fold (mark_unplugged L srv cfg now) (filter (gone cfg loc) objects) st"

datatype ScanError = ScanFailed string | NoDecision

definition scan_once ::
  "Lib \<Rightarrow> AgentServer \<Rightarrow> FileSystem \<Rightarrow> AgentConfig \<Rightarrow> seconds \<Rightarrow> UsbDevice list \<Rightarrow> DiscoveryState \<Rightarrow>
   (ScanError + bool) \<times> DiscoveryState" where
  "scan_once L srv fs cfg now objects st =
     (case scan fs (cfg_sysfs_root cfg) of
        Inl e \<Rightarrow> (Inl (ScanFailed e), st)
      | Inr scanned \<Rightarrow>
          let devices = filter (published cfg) scanned;
              started = ag_clock srv (di_log st);
              st1 = refresh cfg started objects devices st;
              decisions = assign L (scan_context L cfg now started objects devices st1) devices
          in case take_decisions decisions devices [] False st1 of
               None \<Rightarrow> (Inl NoDecision, st1)
             | Some (loc, deferred, st2) \<Rightarrow>
                 let st3 = publish_all L srv cfg (objects_by_name_of objects) now loc (publish_local loc st2);
                     st4 = mark_gone L srv cfg now loc objects st3
                 in (Inr deferred,
                     st4\<lparr>di_status_writes := retain (\<lambda>name _. map_of loc name \<noteq> None) (di_status_writes st4)\<rparr>))"

text \<open>The interval \<open>run\<close> waits for after a scan.\<close>

definition rescan_interval :: "AgentConfig \<Rightarrow> ScanError + bool \<Rightarrow> nat" where
  "rescan_interval cfg result =
     (let interval = unat (cfg_scan_interval cfg) in if result = Inr True then min DEFERRED_RESCAN interval else interval)"

section \<open>The loop over the decisions\<close>

lemma take_decisions_frame:
  "take_decisions dec devices loc def st = Some (loc', def', st') \<Longrightarrow>
   di_log st' = di_log st \<and> di_status_writes st' = di_status_writes st \<and> di_first_seen st' = di_first_seen st"
  by (induction dec devices loc "def" st rule: take_decisions.induct) (auto split: option.splits Decision.splits if_splits)

lemma take_decisions_grows:
  "take_decisions dec devices loc def st = Some (loc', def', st') \<Longrightarrow> map_of loc name \<noteq> None \<Longrightarrow> map_of loc' name \<noteq> None"
  by (induction dec devices loc "def" st rule: take_decisions.induct)
    (auto simp: map_of_bt_insert split: option.splits Decision.splits if_splits)

lemma take_decisions_assigned:
  "take_decisions dec devices loc def st = Some (loc', def', st') \<Longrightarrow> d \<in> set devices \<Longrightarrow>
   dec (instance_key_of d) = Some (Assigned a) \<Longrightarrow> map_of loc' (as_name a) \<noteq> None"
proof (induction dec devices loc "def" st rule: take_decisions.induct)
  case (2 dec e devices loc "def" st)
  show ?case
  proof (cases "d = e")
    case True
    with 2(3,5) take_decisions_grows [where name = "as_name a"] show ?thesis
      by (fastforce simp: map_of_bt_insert simp del: not_None_eq)
  next
    case False
    with 2 show ?thesis by (auto split: option.splits Decision.splits)
  qed
qed simp

lemma take_decisions_local:
  "take_decisions dec devices loc def st = Some (loc', def', st') \<Longrightarrow> map_of loc' name = Some x \<Longrightarrow>
   map_of loc name = Some x \<or>
   (\<exists>d a. d \<in> set devices \<and> dec (instance_key_of d) = Some (Assigned a) \<and> as_name a = name \<and> x = (d, as_source a))"
  by (induction dec devices loc "def" st rule: take_decisions.induct)
    (fastforce simp: map_of_bt_insert split: option.splits Decision.splits if_splits)+

lemma take_decisions_sticky_other:
  "take_decisions dec devices loc def st = Some (loc', def', st') \<Longrightarrow> k \<notin> instance_key_of ` set devices \<Longrightarrow>
   di_sticky st' k = di_sticky st k"
  by (induction dec devices loc "def" st rule: take_decisions.induct) (auto split: option.splits Decision.splits if_splits)

lemma take_decisions_sticky_stays:
  "take_decisions dec devices loc def st = Some (loc', def', st') \<Longrightarrow> dec k = Some (Assigned a) \<Longrightarrow>
   di_sticky st k = Some a \<Longrightarrow> di_sticky st' k = Some a"
proof (induction dec devices loc "def" st rule: take_decisions.induct)
  case (2 dec d devices loc "def" st)
  then show ?case by (cases "k = instance_key_of d") (auto split: option.splits Decision.splits if_splits)
qed simp

lemma take_decisions_sticky:
  "take_decisions dec devices loc def st = Some (loc', def', st') \<Longrightarrow> d \<in> set devices \<Longrightarrow>
   dec (instance_key_of d) = Some (Assigned a) \<Longrightarrow> di_sticky st' (instance_key_of d) = Some a"
proof (induction dec devices loc "def" st rule: take_decisions.induct)
  case (2 dec e devices loc "def" st)
  show ?case
  proof (cases "d = e")
    case True
    with 2(3,5) show ?thesis
      by (auto split: if_splits elim: take_decisions_sticky_stays)
  next
    case False
    with 2 show ?thesis by (auto split: option.splits Decision.splits)
  qed
qed simp

lemma take_decisions_sorted:
  "take_decisions dec devices loc def st = Some (loc', def', st') \<Longrightarrow> bt_sorted loc \<Longrightarrow> bt_sorted loc'"
  by (induction dec devices loc "def" st rule: take_decisions.induct)
    (auto simp: bt_sorted_insert split: option.splits Decision.splits if_splits)

lemma take_decisions_deferred:
  "take_decisions dec devices loc def st = Some (loc', def', st') \<Longrightarrow>
   def' \<longleftrightarrow> def \<or> (\<exists>d name h. d \<in> set devices \<and> dec (instance_key_of d) = Some (Deferred name h))"
  by (induction dec devices loc "def" st rule: take_decisions.induct) (auto split: option.splits Decision.splits if_splits)

lemma take_decisions_total:
  "\<forall>d \<in> set devices. dec (instance_key_of d) \<noteq> None \<Longrightarrow> \<exists>r. take_decisions dec devices loc def st = Some r"
  by (induction dec devices loc "def" st rule: take_decisions.induct) (auto split: option.splits Decision.splits)

section \<open>What a scan writes\<close>

definition heartbeat_of :: "Lib \<Rightarrow> AgentConfig \<Rightarrow> seconds \<Rightarrow> UsbDeviceInfo \<Rightarrow> DeviceStatusPatch" where
  "heartbeat_of L cfg now d = (desired_status cfg d)\<lparr>dp_last_seen := Put (Some (rfc3339 L now))\<rparr>"

lemma publish_calls:
  assumes "publish L srv cfg name d source existing now st = (r, st')"
  shows "\<exists>calls. di_log st' = di_log st @ calls \<and>
    set calls \<subseteq> {ApplyDevice name (published_spec d source) (published_labels cfg d source), WriteStatus name None (heartbeat_of L cfg now d)}"
  using assms
  by (auto simp: publish_def apply_spec_def write_heartbeat_def bounded_def heartbeat_of_def Let_def
      split: prod.splits sum.splits if_splits)

lemma publish_frame: "publish L srv cfg name d source existing now st = (r, st') \<Longrightarrow> di_local st' = di_local st \<and> di_sticky st' = di_sticky st"
  by (auto simp: publish_def apply_spec_def write_heartbeat_def bounded_def Let_def split: prod.splits sum.splits if_splits)

definition device_writes :: "Lib \<Rightarrow> AgentConfig \<Rightarrow> seconds \<Rightarrow> local_view \<Rightarrow> AgentCall set" where
  "device_writes L cfg now loc =
     {c. \<exists>name d source. (name, (d, source)) \<in> set loc \<and>
        (c = ApplyDevice name (published_spec d source) (published_labels cfg d source) \<or>
         c = WriteStatus name None (heartbeat_of L cfg now d))}"

lemma device_writes_Cons:
  "device_writes L cfg now ((name, (d, source)) # rest) =
     {ApplyDevice name (published_spec d source) (published_labels cfg d source), WriteStatus name None (heartbeat_of L cfg now d)} \<union>
     device_writes L cfg now rest"
  by (auto simp: device_writes_def)

lemma publish_all_calls:
  "\<exists>calls. di_log (publish_all L srv cfg objects now loc st) = di_log st @ calls \<and> set calls \<subseteq> device_writes L cfg now loc"
proof (induction L srv cfg objects now loc st rule: publish_all.induct)
  case (2 L srv cfg objects now name d source rest st)
  obtain r st1 where p: "publish L srv cfg name d source (objects name) now st = (r, st1)" by fastforce
  from publish_calls [OF p] obtain c1 where c1: "di_log st1 = di_log st @ c1"
    "set c1 \<subseteq> {ApplyDevice name (published_spec d source) (published_labels cfg d source), WriteStatus name None (heartbeat_of L cfg now d)}"
    by blast
  from 2 obtain c2 where "di_log (publish_all L srv cfg objects now rest st1) = di_log st1 @ c2" "set c2 \<subseteq> device_writes L cfg now rest"
    unfolding p snd_conv by blast
  with c1 have "di_log (publish_all L srv cfg objects now ((name, (d, source)) # rest) st) = di_log st @ (c1 @ c2)"
    "set (c1 @ c2) \<subseteq> device_writes L cfg now ((name, (d, source)) # rest)"
    unfolding device_writes_Cons by (auto simp: p)
  then show ?case by blast
qed simp

lemma publish_all_frame:
  "di_local (publish_all L srv cfg objects now loc st) = di_local st \<and> di_sticky (publish_all L srv cfg objects now loc st) = di_sticky st"
proof (induction L srv cfg objects now loc st rule: publish_all.induct)
  case (2 L srv cfg objects now name d source rest st)
  then show ?case using publish_frame by (metis publish_all.simps(2) surjective_pairing)
qed simp

lemma mark_gone_log:
  "mark_gone L srv cfg now loc objects st =
     st\<lparr>di_log := di_log st @ map (\<lambda>obj. WriteStatus (device_name_any obj) (om_resource_version (ud_metadata obj)) (unplugged_patch L cfg now))
       (filter (gone cfg loc) objects)\<rparr>"
proof -
  have "fold (mark_unplugged L srv cfg now) objs st =
      st\<lparr>di_log := di_log st @ map (\<lambda>obj. WriteStatus (device_name_any obj) (om_resource_version (ud_metadata obj)) (unplugged_patch L cfg now)) objs\<rparr>"
    for objs st by (induction objs arbitrary: st) (auto simp: mark_unplugged_def)
  then show ?thesis by (simp add: mark_gone_def)
qed

section \<open>A whole scan\<close>

definition scan_decisions ::
  "Lib \<Rightarrow> AgentServer \<Rightarrow> AgentConfig \<Rightarrow> seconds \<Rightarrow> UsbDevice list \<Rightarrow> UsbDeviceInfo list \<Rightarrow> DiscoveryState \<Rightarrow> (InstanceKey \<rightharpoonup> Decision)" where
  "scan_decisions L srv cfg now objects devices st =
     (let started = ag_clock srv (di_log st)
      in assign L (scan_context L cfg now started objects devices (refresh cfg started objects devices st)) devices)"

lemma refresh_frame [simp]:
  "di_log (refresh cfg started objects devices st) = di_log st" "di_local (refresh cfg started objects devices st) = di_local st"
  by (simp_all add: refresh_def Let_def)

lemma scan_once_Inr:
  assumes "scan_once L srv fs cfg now objects st = (Inr deferred, st')" and "scan fs (cfg_sysfs_root cfg) = Inr scanned"
  obtains loc st2 calls where
    "take_decisions (scan_decisions L srv cfg now objects (filter (published cfg) scanned) st) (filter (published cfg) scanned) [] False
       (refresh cfg (ag_clock srv (di_log st)) objects (filter (published cfg) scanned) st) = Some (loc, deferred, st2)"
    "di_local st' = view_of loc" "di_sticky st' = di_sticky st2"
    "di_log st' = di_log st @ calls @
       map (\<lambda>obj. WriteStatus (device_name_any obj) (om_resource_version (ud_metadata obj)) (unplugged_patch L cfg now)) (filter (gone cfg loc) objects)"
    "set calls \<subseteq> device_writes L cfg now loc"
proof -
  let ?devices = "filter (published cfg) scanned"
  let ?st1 = "refresh cfg (ag_clock srv (di_log st)) objects ?devices st"
  from assms obtain loc st2 where td: "take_decisions (scan_decisions L srv cfg now objects ?devices st) ?devices [] False ?st1 = Some (loc, deferred, st2)"
    and st': "st' = (mark_gone L srv cfg now loc objects (publish_all L srv cfg (objects_by_name_of objects) now loc (publish_local loc st2)))
      \<lparr>di_status_writes := retain (\<lambda>name _. map_of loc name \<noteq> None)
        (di_status_writes (mark_gone L srv cfg now loc objects (publish_all L srv cfg (objects_by_name_of objects) now loc (publish_local loc st2))))\<rparr>"
    by (auto simp: scan_once_def scan_decisions_def Let_def split: option.splits)
  obtain calls where calls: "di_log (publish_all L srv cfg (objects_by_name_of objects) now loc (publish_local loc st2)) = di_log (publish_local loc st2) @ calls"
    "set calls \<subseteq> device_writes L cfg now loc"
    using publish_all_calls by blast
  have "di_log st2 = di_log st" using take_decisions_frame [OF td] by simp
  then show ?thesis
    using that [OF td, of calls] calls publish_all_frame [of L srv cfg "objects_by_name_of objects" now loc "publish_local loc st2"]
    by (simp add: st' mark_gone_log publish_local_def)
qed

lemma scan_decisions_total:
  "d \<in> set devices \<Longrightarrow> scan_decisions L srv cfg now objects devices st (instance_key_of d) \<noteq> None"
  unfolding scan_decisions_def Let_def using assign_dom [of L _ devices] by blast

lemma scan_has_decisions: "fst (scan_once L srv fs cfg now objects st) \<noteq> Inl NoDecision"
proof (cases "scan fs (cfg_sysfs_root cfg)")
  case (Inr scanned)
  obtain r where "take_decisions (scan_decisions L srv cfg now objects (filter (published cfg) scanned) st) (filter (published cfg) scanned) [] False
     (refresh cfg (ag_clock srv (di_log st)) objects (filter (published cfg) scanned) st) = Some r"
    using take_decisions_total scan_decisions_total by blast
  with Inr show ?thesis by (auto simp: scan_once_def scan_decisions_def Let_def split: prod.splits)
qed (simp add: scan_once_def)

text \<open>The writes of the agent leave the lease alone, which belongs to the controller.\<close>

fun keeps_lease :: "AgentCall \<Rightarrow> bool" where
  "keeps_lease (ApplyDevice _ _ _) = True"
| "keeps_lease (WriteStatus _ _ p) = (dp_attached_to p = Keep)"

definition unplug_writes :: "Lib \<Rightarrow> AgentConfig \<Rightarrow> seconds \<Rightarrow> local_view \<Rightarrow> UsbDevice list \<Rightarrow> AgentCall set" where
  "unplug_writes L cfg now loc objects =
     (\<lambda>obj. WriteStatus (device_name_any obj) (om_resource_version (ud_metadata obj)) (unplugged_patch L cfg now)) `
       {obj \<in> set objects. st_node (status_ref obj) = Some (cfg_node cfg) \<and> st_phase (status_ref obj) = Some Available \<and>
          device_name_any obj \<notin> fst ` set loc}"

lemma writes_keep_leases:
  "c \<in> device_writes L cfg now loc \<union> unplug_writes L cfg now loc objects \<Longrightarrow> keeps_lease c"
  by (auto simp: device_writes_def unplug_writes_def heartbeat_of_def desired_status_def unplugged_patch_def no_patch_def)

lemma unplug_writes_gone:
  "unplug_writes L cfg now loc objects =
     set (map (\<lambda>obj. WriteStatus (device_name_any obj) (om_resource_version (ud_metadata obj)) (unplugged_patch L cfg now)) (filter (gone cfg loc) objects))"
  by (auto simp: unplug_writes_def gone_def map_of_eq_None_iff)

lemma scan_writes:
  assumes "scan_once L srv fs cfg now objects st = (Inr deferred, st')" and "scan fs (cfg_sysfs_root cfg) = Inr scanned"
  obtains loc calls where "di_local st' = view_of loc" "\<forall>(name, d, source) \<in> set loc. d \<in> set scanned \<and> published cfg d"
    "di_log st' = di_log st @ calls" "set calls \<subseteq> device_writes L cfg now loc \<union> unplug_writes L cfg now loc objects"
    "unplug_writes L cfg now loc objects \<subseteq> set calls" "list_all keeps_lease calls"
proof -
  let ?devices = "filter (published cfg) scanned"
  from assms obtain loc st2 calls where td: "take_decisions (scan_decisions L srv cfg now objects ?devices st) ?devices [] False
      (refresh cfg (ag_clock srv (di_log st)) objects ?devices st) = Some (loc, deferred, st2)"
    and l: "di_local st' = view_of loc"
    and c: "di_log st' = di_log st @ calls @
       map (\<lambda>obj. WriteStatus (device_name_any obj) (om_resource_version (ud_metadata obj)) (unplugged_patch L cfg now)) (filter (gone cfg loc) objects)"
      "set calls \<subseteq> device_writes L cfg now loc"
    by (rule scan_once_Inr)
  define new where "new = calls @
       map (\<lambda>obj. WriteStatus (device_name_any obj) (om_resource_version (ud_metadata obj)) (unplugged_patch L cfg now)) (filter (gone cfg loc) objects)"
  have sub: "set new \<subseteq> device_writes L cfg now loc \<union> unplug_writes L cfg now loc objects" "unplug_writes L cfg now loc objects \<subseteq> set new"
    using c(2) by (auto simp: new_def unplug_writes_gone)
  then have "list_all keeps_lease new" using writes_keep_leases by (fastforce simp: list_all_iff)
  moreover have "d \<in> set scanned \<and> published cfg d" if "(name, d, source) \<in> set loc" for name d source
  proof -
    have "map_of loc name = Some (d, source)" using take_decisions_sorted [OF td] that by (simp add: bt_entries_get)
    from take_decisions_local [OF td this] show ?thesis by auto
  qed
  ultimately show ?thesis using that [OF l _ _ sub] c(1) unfolding new_def [symmetric] by blast
qed

text \<open>
  Property C26: what a scan writes: the spec and the heartbeat of devices it has found and does not ignore, under the names they have in the local view, and,
  conditional on the version it has seen, that a device is unplugged; this for exactly those objects that name this node, are available and
  are not in the local view, so no agent speaks about the devices of another. No write touches the lease of a device.
\<close>

theorem scan_writes_its_own_devices_only:
  assumes "scan_once L srv fs cfg now objects st = (Inr deferred, st')" and "scan fs (cfg_sysfs_root cfg) = Inr scanned"
  shows "\<exists>loc calls. di_local st' = view_of loc \<and> di_log st' = di_log st @ calls \<and>
    (\<forall>(name, d, source) \<in> set loc. d \<in> set scanned \<and> published cfg d) \<and>
    set calls \<subseteq> device_writes L cfg now loc \<union> unplug_writes L cfg now loc objects \<and>
    unplug_writes L cfg now loc objects \<subseteq> set calls \<and> list_all keeps_lease calls"
proof -
  from assms obtain loc calls where "di_local st' = view_of loc" "\<forall>(name, d, source) \<in> set loc. d \<in> set scanned \<and> published cfg d"
    "di_log st' = di_log st @ calls" "set calls \<subseteq> device_writes L cfg now loc \<union> unplug_writes L cfg now loc objects"
    "unplug_writes L cfg now loc objects \<subseteq> set calls" "list_all keeps_lease calls"
    by (rule scan_writes)
  then show ?thesis by blast
qed

lemma scan_calls_keep_leases:
  "list_all keeps_lease (drop (length (di_log st)) (di_log (snd (scan_once L srv fs cfg now objects st))))"
proof (cases "scan_once L srv fs cfg now objects st")
  case (Pair r st')
  show ?thesis
  proof (cases r)
    case (Inl e)
    with Pair scan_has_decisions [of L srv fs cfg now objects st] have "st' = st"
      by (auto simp: scan_once_def Let_def split: sum.splits option.splits prod.splits)
    with Pair show ?thesis by simp
  next
    case (Inr deferred)
    with Pair obtain scanned where "scan fs (cfg_sysfs_root cfg) = Inr scanned" by (auto simp: scan_once_def split: sum.splits)
    with Inr Pair obtain calls where "di_log st' = di_log st @ calls" "list_all keeps_lease calls" by (metis scan_writes)
    with Pair show ?thesis by simp
  qed
qed

section \<open>Restarts\<close>

definition recovered_key :: "AgentConfig \<Rightarrow> UsbDevice \<Rightarrow> InstanceKey option" where
  "recovered_key cfg obj =
     (if st_node (status_ref obj) = Some (cfg_node cfg) \<and> st_phase (status_ref obj) = Some Available
      then case (st_port_path (status_ref obj), st_bus_num (status_ref obj), st_dev_num (status_ref obj)) of
             (Some p, Some b, Some n) \<Rightarrow> Some (InstanceKey p b n) | _ \<Rightarrow> None
      else None)"

abbreviation recovered_as :: "UsbDevice \<Rightarrow> Assignment" where
  "recovered_as obj \<equiv> \<lparr>as_name = device_name_any obj, as_source = ds_identity (ud_spec obj)\<rparr>"

lemma recover_one_eq:
  "recover_one cfg obj sticky = (case recovered_key cfg obj of None \<Rightarrow> sticky | Some k \<Rightarrow> sticky(k \<mapsto> recovered_as obj))"
  by (auto simp: recover_one_def recovered_key_def Let_def split: option.splits)

lemma recover_finds:
  assumes "obj \<in> set objects" and "recovered_key cfg obj = Some k"
    and "\<forall>x \<in> set objects. recovered_key cfg x = Some k \<longrightarrow> x = obj"
  shows "fold (recover_one cfg) objects sticky k = Some (recovered_as obj)"
  using assms
proof (induction objects rule: rev_induct)
  case (snoc x xs)
  show ?case
  proof (cases "recovered_key cfg x = Some k")
    case True
    with snoc.prems(3) have "x = obj" by simp
    with True show ?thesis by (simp add: recover_one_eq [of cfg obj])
  next
    case False
    with snoc.prems(1,2) have "obj \<in> set xs" by auto
    moreover have "\<forall>y \<in> set xs. recovered_key cfg y = Some k \<longrightarrow> y = obj" using snoc.prems(3) by simp
    ultimately have "fold (recover_one cfg) xs sticky k = Some (recovered_as obj)"
      using snoc.IH snoc.prems(2) by blast
    with False show ?thesis by (cases "recovered_key cfg x") (simp_all add: recover_one_eq [of cfg x])
  qed
qed simp

lemma recover_only:
  "fold (recover_one cfg) objects Map.empty k = Some a \<Longrightarrow> \<exists>obj \<in> set objects. recovered_key cfg obj = Some k \<and> a = recovered_as obj"
proof (induction objects rule: rev_induct)
  case (snoc x xs)
  show ?case
  proof (cases "recovered_key cfg x = Some k")
    case True
    with snoc.prems have "a = recovered_as x" by (simp add: recover_one_eq [of cfg x])
    with True show ?thesis by simp
  next
    case False
    with snoc.prems have "fold (recover_one cfg) xs Map.empty k = Some a"
      by (cases "recovered_key cfg x") (simp_all add: recover_one_eq [of cfg x])
    with snoc.IH show ?thesis by auto
  qed
qed simp

lemma collect_map_key:
  assumes "distinct (map f xs)" and "x \<in> set xs"
  shows "collect_map (map (\<lambda>y. (f y, g y)) xs) (f x) = Some (g x)"
  using assms by (intro collect_map_distinct) (auto simp: comp_def)

text \<open>The known device of an object is that object's, when names are unique.\<close>

lemma known_by_name_object:
  assumes "distinct (map device_name_any objects)" and "obj \<in> set objects"
  shows "known_by_name_of (known_devices L cfg now objects) (device_name_any obj) =
    Some \<lparr>kd_name = device_name_any obj, kd_fingerprint = device_fingerprint obj,
      kd_present_on = (if is_available L obj now (sint (cfg_lost_after cfg)) then st_node (status_ref obj) else None)\<rparr>"
  using collect_map_key [OF assms, of "\<lambda>obj. \<lparr>kd_name = device_name_any obj, kd_fingerprint = device_fingerprint obj,
      kd_present_on = (if is_available L obj now (sint (cfg_lost_after cfg)) then st_node (status_ref obj) else None)\<rparr>"]
  by (simp add: known_by_name_of_def known_devices_def comp_def)

section \<open>Heartbeats\<close>

text \<open>
  Publishing a device keeps its heartbeat going. When it succeeds, the agent has just written the whole status with the current
  time, or the object it sees has the wanted status and a heartbeat younger than the interval, or it has itself
  written exactly this status less than the interval (and less than ten seconds) ago.
\<close>

theorem publish_keeps_heartbeat:
  assumes "publish L srv cfg name d source existing now st = (Inr (), st')"
  shows "(\<exists>log. di_log st' = log @ [WriteStatus name None (heartbeat_of L cfg now d)]) \<or>
    (\<exists>obj s age. existing = Some obj \<and> ud_status obj = Some s \<and> st_phase s = Some Available \<and> st_node s = Some (cfg_node cfg) \<and>
       age_secs L (st_last_seen s) now = Some age \<and> age < sint (cfg_heartbeat_interval cfg)) \<or>
    (\<exists>at. di_status_writes st' name = Some (desired_status cfg d, at) \<and>
       ag_clock srv (di_log st') - at < min (unat (cfg_heartbeat_interval cfg)) 10 * NANOS)"
proof -
  let ?desired = "desired_status cfg d" and ?observed = "Option.bind existing ud_status"
  obtain r st1 where a: "apply_spec srv cfg name d source existing st = (r, st1)" by fastforce
  with assms have r: "r = Inr ()" by (auto simp: publish_def split: sum.splits)
  show ?thesis
  proof (cases "(status_current ?desired ?observed \<and> \<not> heartbeat_due L cfg now ?observed) \<or> written_recently srv cfg name ?desired st1")
    case True
    with assms a r have st': "st' = st1" by (simp add: publish_def Let_def)
    from True show ?thesis
    proof
      assume "written_recently srv cfg name ?desired st1"
      then show ?thesis by (auto simp: written_recently_def is_some_and_iff st')
    next
      assume cur: "status_current ?desired ?observed \<and> \<not> heartbeat_due L cfg now ?observed"
      then obtain obj s where s: "existing = Some obj" "ud_status obj = Some s"
          "merge_status ?desired EMPTY_STATUS = s\<lparr>st_last_seen := None, st_attached_to := None\<rparr>"
        by (auto simp: status_current_def is_some_and_iff bind_eq_Some_conv)
      have "st_phase (merge_status ?desired EMPTY_STATUS) = Some Available" "st_node (merge_status ?desired EMPTY_STATUS) = Some (cfg_node cfg)"
        by (simp_all add: merge_status_def desired_status_def)
      with s(3) have "st_phase s = Some Available" "st_node s = Some (cfg_node cfg)" by simp_all
      moreover from cur s(1,2) obtain age where "age_secs L (st_last_seen s) now = Some age" "age < sint (cfg_heartbeat_interval cfg)"
        by (auto simp: heartbeat_due_def is_none_or_iff)
      ultimately show ?thesis using s by blast
    qed
  next
    case False
    with assms a r have "write_heartbeat L srv name ?desired now st1 = (Inr (), st')" by (simp add: publish_def Let_def)
    then have "di_log st' = di_log st1 @ [WriteStatus name None (heartbeat_of L cfg now d)]"
      by (auto simp: write_heartbeat_def bounded_def heartbeat_of_def split: WriteReply.splits)
    then show ?thesis by blast
  qed
qed

text \<open>
  A heartbeat makes a device available, whatever its status was before, and keeps it available until the configured
  time without a heartbeat has passed; merging it leaves the lease as it was.
\<close>

theorem heartbeat_makes_available:
  assumes "time_contract L" and "ud_status obj = Some (merge_status (heartbeat_of L cfg now d) before)"
  shows "(is_available L obj t limit \<longleftrightarrow> t \<le> now + limit) \<and> st_node (status_ref obj) = Some (cfg_node cfg) \<and>
    st_attached_to (status_ref obj) = st_attached_to before"
proof -
  have s: "status_ref obj = merge_status (heartbeat_of L cfg now d) before" using assms(2) by (simp add: status_ref_def)
  then have "st_last_seen (status_ref obj) = Some (rfc3339 L now)" by (simp add: merge_status_def heartbeat_of_def)
  then show ?thesis
    using is_available_fresh [OF assms(1), of obj now t limit] by (auto simp: s merge_status_def heartbeat_of_def desired_status_def)
qed

section \<open>The properties at work\<close>

lemma scan_once_succeeds:
  assumes "scan fs (cfg_sysfs_root cfg) = Inr scanned"
  shows "\<exists>deferred st'. scan_once L srv fs cfg now objects st = (Inr deferred, st')"
proof -
  obtain r st' where r: "scan_once L srv fs cfg now objects st = (r, st')" by fastforce
  with scan_has_decisions [of L srv fs cfg now objects st] assms have "\<nexists>e. r = Inl e"
    by (auto simp: scan_once_def Let_def split: option.splits)
  with r show ?thesis by (cases r) auto
qed

definition sample_agent_server :: AgentServer where
  "sample_agent_server = \<lparr>ag_reply = (\<lambda>log call. Written), ag_clock = (\<lambda>log. length log)\<rparr>"

definition sample_object :: UsbDevice where
  "sample_object =
     \<lparr>ud_metadata = \<lparr>om_name = Some ''usb-a'', om_name_any = ''usb-a'', om_namespace = None, om_uid = Some ''u'', om_resource_version = Some ''1'',
        om_generation = None, om_creation_timestamp = None, om_deletion_timestamp = None, om_owner_references = [], om_labels = []\<rparr>,
      ud_spec = published_spec sample_device PortPath,
      ud_status = Some (merge_status (desired_status sample_cfg sample_device) EMPTY_STATUS)\<rparr>"

lemma sample_recovered: "recovered_key sample_cfg sample_object = Some (instance_key_of sample_device)"
  by (simp add: recovered_key_def sample_object_def status_ref_def merge_status_def desired_status_def instance_key_of_def)

lemma sample_published: "published sample_cfg sample_device" "scan sample_tree (cfg_sysfs_root sample_cfg) = Inr [sample_device]"
  using sample_scan by (simp_all add: published_def sample_cfg_def is_hub_def CLASS_HUB_def sample_device_def)

theorem scan_writes_its_own_devices_only_witness:
  "\<exists>loc calls deferred st'. scan_once sample_lib sample_agent_server sample_tree sample_cfg 1000 [sample_object] discovery_new = (Inr deferred, st') \<and>
     di_local st' = view_of loc \<and> di_log st' = di_log discovery_new @ calls \<and>
     unplug_writes sample_lib sample_cfg 1000 loc [sample_object] \<subseteq> set calls \<and> list_all keeps_lease calls"
proof -
  obtain deferred st' where r: "scan_once sample_lib sample_agent_server sample_tree sample_cfg 1000 [sample_object] discovery_new = (Inr deferred, st')"
    using scan_once_succeeds [OF sample_published(2)] by blast
  from scan_writes_its_own_devices_only [OF r sample_published(2)] obtain loc calls where
    "di_local st' = view_of loc" "di_log st' = di_log discovery_new @ calls"
    "unplug_writes sample_lib sample_cfg 1000 loc [sample_object] \<subseteq> set calls" "list_all keeps_lease calls"
    by blast
  with r show ?thesis by (intro exI conjI)
qed

theorem publish_keeps_heartbeat_witness:
  "\<exists>st' log. publish sample_lib sample_agent_server sample_cfg ''usb-a'' sample_device PortPath None 1000 discovery_new = (Inr (), st') \<and>
     di_log st' = log @ [WriteStatus ''usb-a'' None (heartbeat_of sample_lib sample_cfg 1000 sample_device)]"
proof -
  have calls: "publish sample_lib sample_agent_server sample_cfg ''usb-a'' sample_device PortPath None 1000 discovery_new =
      (Inr (), discovery_new\<lparr>di_log :=
        [ApplyDevice ''usb-a'' (published_spec sample_device PortPath) (published_labels sample_cfg sample_device PortPath),
         WriteStatus ''usb-a'' None (heartbeat_of sample_lib sample_cfg 1000 sample_device)],
        di_status_writes := [''usb-a'' \<mapsto> (desired_status sample_cfg sample_device, 2)]\<rparr>)"
    by (simp add: publish_def apply_spec_def spec_current_def bounded_def sample_agent_server_def Let_def status_current_def written_recently_def
        discovery_new_def write_heartbeat_def heartbeat_of_def numeral_2_eq_2)
  from publish_keeps_heartbeat [OF this] calls show ?thesis by auto
qed

theorem heartbeat_makes_available_witness:
  "is_available sample_lib (sample_object\<lparr>ud_status := Some (merge_status (heartbeat_of sample_lib sample_cfg 1000 sample_device) EMPTY_STATUS)\<rparr>) 1090 90"
  using heartbeat_makes_available [OF time_sample, of "sample_object\<lparr>ud_status := Some (merge_status (heartbeat_of sample_lib sample_cfg 1000 sample_device) EMPTY_STATUS)\<rparr>"
      sample_cfg 1000 sample_device EMPTY_STATUS 1090 90] by simp

section \<open>JSON without nulls\<close>

text \<open>\<open>without_nulls\<close> itself, on JSON: members that are null are dropped from objects, at any depth of objects; arrays are left alone.\<close>

fun without_nulls :: "Json \<Rightarrow> Json" where
  "without_nulls (JObject members) = JObject (map (\<lambda>(k, v). (k, without_nulls v)) (filter (\<lambda>(k, v). v \<noteq> JNull) members))"
| "without_nulls other = other"

fun no_null_members :: "Json \<Rightarrow> bool" where
  "no_null_members (JObject members) = (\<forall>(k, v) \<in> set members. v \<noteq> JNull \<and> no_null_members v)"
| "no_null_members _ = True"

lemma without_nulls_clean: "no_null_members (without_nulls v)"
proof (induction v rule: without_nulls.induct)
  case (1 members)
  have "without_nulls v \<noteq> JNull" if "v \<noteq> JNull" for v using that by (cases v) auto
  with 1 show ?case by (auto simp: case_prod_unfold)
qed auto

lemma without_nulls_id: "no_null_members v \<Longrightarrow> without_nulls v = v"
proof (induction v rule: without_nulls.induct)
  case (1 members)
  then have "filter (\<lambda>(k, v). v \<noteq> JNull) members = members" by (auto intro!: filter_True)
  moreover have "map (\<lambda>(k, v). (k, without_nulls v)) members = members"
    using 1 by (intro map_idI) (fastforce simp: case_prod_unfold)
  ultimately show ?case by simp
qed auto

end
