(* ===== verification/LeaseHistory.thy ===== *)
theory LeaseHistory
  imports LeaseSafety Discovery
begin

text \<open>
  The life of a device's lease over the whole system. An object of the API server is changed by the controller's passes, by the
  agents' scans and by nobody else; here its versions follow each other as the server accepts those writes, in any
  interleaving of any number of passes and scans with outdated caches. Abstractly a lease is a lock: the history of an object refines the history of a lock that is
  taken only when it is free.
\<close>

section \<open>A lock\<close>

datatype LockOp = Take string | Give | Idle

fun lock_apply :: "LockOp \<Rightarrow> string option \<Rightarrow> string option option" where
  "lock_apply (Take u) None = Some (Some u)"
| "lock_apply (Take u) (Some _) = None"
| "lock_apply Give (Some _) = Some None"
| "lock_apply Give None = None"
| "lock_apply Idle h = Some h"

text \<open>The holders after each operation of a run; a run with an operation the lock refuses has none.\<close>

fun lock_trace :: "LockOp list \<Rightarrow> string option \<Rightarrow> string option list option" where
  "lock_trace [] h = Some [h]"
| "lock_trace (a # ops) h = Option.bind (lock_apply a h) (\<lambda>h'. map_option ((#) h) (lock_trace ops h'))"

inductive chain :: "('s \<Rightarrow> 's \<Rightarrow> bool) \<Rightarrow> 's list \<Rightarrow> bool" for change where
  one: "chain change [s]"
| more: "chain change (s # ss) \<Longrightarrow> change s' s \<Longrightarrow> chain change (s' # s # ss)"

inductive_cases chain_ConsE: "chain change (s # t # ss)"

text \<open>
  What it takes to be used as a lock: every change of the state is one operation of the lock. Then the holders over a run of
  changes are a trace of the lock, and two different holders never follow each other without the lock having been free in between.
\<close>

locale lock_refinement =
  fixes holder :: "'s \<Rightarrow> string option" and change :: "'s \<Rightarrow> 's \<Rightarrow> bool"
  assumes change_is_op: "change s s' \<Longrightarrow> \<exists>a. lock_apply a (holder s) = Some (holder s')"
begin

lemma refines: "chain change ss \<Longrightarrow> \<exists>ops. lock_trace ops (holder (hd ss)) = Some (map holder ss)"
proof (induction rule: chain.induct)
  case (one s)
  show ?case by (rule exI [of _ "[]"]) simp
next
  case (more s ss s')
  then obtain ops a where "lock_trace ops (holder s) = Some (map holder (s # ss))" "lock_apply a (holder s') = Some (holder s)"
    using change_is_op by fastforce
  then show ?case by (intro exI [of _ "a # ops"]) simp
qed

lemma free_between:
  "chain change (s # ss) \<Longrightarrow> holder s = Some a \<Longrightarrow> holder (last (s # ss)) = Some b \<Longrightarrow> a \<noteq> b \<Longrightarrow> \<exists>m \<in> set ss. holder m = None"
proof (induction ss arbitrary: s)
  case (Cons t ss)
  from Cons.prems(1) have step: "chain change (t # ss)" "change s t" by (auto elim: chain_ConsE)
  show ?case
  proof (cases "holder t = Some a")
    case True
    with Cons.IH [OF step(1)] Cons.prems show ?thesis by auto
  next
    case False
    obtain op where "lock_apply op (holder s) = Some (holder t)" using change_is_op [OF step(2)] by blast
    with False Cons.prems(2) have "holder t = None" by (cases op) auto
    then show ?thesis by simp
  qed
qed simp

end

section \<open>The writes to a device\<close>

text \<open>A write under a version is accepted only by the object of that version.\<close>

definition accepts :: "(string \<Rightarrow> string \<Rightarrow> UsbDevice) \<Rightarrow> string \<Rightarrow> string option \<Rightarrow> UsbDevice \<Rightarrow> bool" where
  "accepts V n version d = is_none_or (\<lambda>v. d = V n v) version"

definition scan_calls ::
  "Lib \<Rightarrow> AgentServer \<Rightarrow> FileSystem \<Rightarrow> AgentConfig \<Rightarrow> seconds \<Rightarrow> UsbDevice list \<Rightarrow> DiscoveryState \<Rightarrow> AgentCall list" where
  "scan_calls L srv fs cfg now objects st = drop (length (di_log st)) (di_log (snd (scan_once L srv fs cfg now objects st)))"

text \<open>The object \<open>n\<close> changes by a call of some pass of the controller or of some scan of an agent.\<close>

inductive device_write :: "(string \<Rightarrow> string \<Rightarrow> UsbDevice) \<Rightarrow> Lib \<Rightarrow> string \<Rightarrow> UsbDevice \<Rightarrow> UsbDevice \<Rightarrow> bool" for V L n where
  by_pass: "cas_contract V srv \<Longrightarrow> list_all (genuine V) (cx_devices ctx) \<Longrightarrow>
    PatchDeviceStatus n version patch \<in> set (new_calls st (snd (reconcile_all L srv ctx now st))) \<Longrightarrow> accepts V n version d \<Longrightarrow>
    ud_status d' = Some (merge_status patch (status_ref d)) \<Longrightarrow> device_write V L n d d'"
| by_scan: "WriteStatus n version patch \<in> set (scan_calls L asrv fs cfg now objects dst) \<Longrightarrow> accepts V n version d \<Longrightarrow>
    ud_status d' = Some (merge_status patch (status_ref d)) \<Longrightarrow> device_write V L n d d'"
| by_apply: "ApplyDevice n spec labels \<in> set (scan_calls L asrv fs cfg now objects dst) \<Longrightarrow> ud_status d' = ud_status d \<Longrightarrow>
    ud_spec d' = spec \<Longrightarrow> device_write V L n d d'"

lemma merged_holder:
  "ud_status d' = Some (merge_status patch (status_ref d)) \<Longrightarrow>
   lease_holder d' = (case dp_attached_to patch of Keep \<Rightarrow> lease_holder d | Put a \<Rightarrow> map_option at_claim_uid a)"
  by (auto simp: lease_holder_def status_ref_def [of d'] merge_status_def split: upd.split)

lemma device_write_is_op: "device_write V L n d d' \<Longrightarrow> \<exists>a. lock_apply a (lease_holder d) = Some (lease_holder d')"
proof (induction rule: device_write.induct)
  case (by_pass srv ctx version patch st now d d')
  have "pass_call_ok V L now ctx (PatchDeviceStatus n version patch)" using by_pass(1-3) by (rule pass_calls)
  then obtain v where v: "version = Some v" "case dp_attached_to patch of
       Put None \<Rightarrow> lease_holder (V n v) \<noteq> None | Put (Some lease) \<Rightarrow> lease_holder (V n v) = None | Keep \<Rightarrow> True"
    by (rule pass_patch_lease)
  then have d: "d = V n v" using by_pass(4) by (simp add: accepts_def)
  show ?case
  proof (cases "dp_attached_to patch")
    case Keep
    then show ?thesis using merged_holder [OF by_pass(5)] by (intro exI [of _ Idle]) simp
  next
    case (Put lease)
    then show ?thesis using merged_holder [OF by_pass(5)] v(2) d
      by (cases lease) (auto intro: exI [of _ Give] exI [of _ "Take u" for u])
  qed
next
  case (by_scan version patch asrv fs cfg now objects dst d d')
  have "keeps_lease (WriteStatus n version patch)"
    using by_scan(1) scan_calls_keep_leases [of dst L asrv fs cfg now objects] by (auto simp: scan_calls_def list_all_iff)
  then show ?case using merged_holder [OF by_scan(3)] by (intro exI [of _ Idle]) simp
next
  case (by_apply spec labels asrv fs cfg now objects dst d' d)
  then show ?case by (intro exI [of _ Idle]) (simp add: lease_holder_def status_ref_def)
qed

interpretation lease: lock_refinement lease_holder "device_write V L n" for V L n
  by unfold_locales (rule device_write_is_op)

section \<open>Properties\<close>

text \<open>
  Property C1: a lease is a lock. However the passes of the controller and the scans of the agents interleave, and however outdated
  the caches they work from, the sequence of lease holders of a device is a trace of a lock that is taken only when it is free
  and given up only by being freed.
\<close>

theorem lease_history_refines_lock:
  assumes "chain (device_write V L n) ds"
  shows "\<exists>ops. lock_trace ops (lease_holder (hd ds)) = Some (map lease_holder ds)"
  using assms by (rule lease.refines)

text \<open>
  A device is free between two holders: if a claim holds the lease of a device and later another does, some version of the object
  in between has no lease.
\<close>

theorem device_is_free_between_holders:
  assumes "chain (device_write V L n) (d # ds)" and "lease_holder d = Some a" and "lease_holder (last (d # ds)) = Some b" and "a \<noteq> b"
  shows "\<exists>m. m \<in> set ds \<and> lease_holder m = None"
  using lease.free_between [OF assms] by blast

section \<open>The properties at work\<close>

text \<open>A device leased to a claim that is gone: one pass frees it, the next leases it to the claim of the small cluster.\<close>

definition orphaned_device :: UsbDevice where
  "orphaned_device = free_device\<lparr>ud_metadata := plain_meta ''usb-x'' ''d1'' ''0'',
     ud_status := Some (merge_status (lease_patch (Some ((lease_for sample_lib 50 radio_claim)\<lparr>at_claim_uid := ''gone''\<rparr>))) (status_ref free_device))\<rparr>"

definition history_versions :: "string \<Rightarrow> string \<Rightarrow> UsbDevice" where
  "history_versions n v = (if v = ''0'' then orphaned_device else small_versions n v)"

lemma history_contract: "cas_contract history_versions small_server"
  by (auto simp: cas_contract_def patch_contract_def small_server_def history_versions_def small_versions_def leased_free_device_def genuine_def
      plain_meta_def free_device_def split: if_splits)

lemma history_free: "device_write history_versions sample_lib ''usb-x'' orphaned_device free_device"
proof (rule device_write.by_pass [OF history_contract])
  show "list_all (genuine history_versions) (cx_devices (small_ctx\<lparr>cx_devices := [orphaned_device]\<rparr>))"
    by (simp add: genuine_def history_versions_def orphaned_device_def plain_meta_def)
  show "PatchDeviceStatus ''usb-x'' (Some ''0'') (lease_patch None) \<in>
      set (new_calls small_state (snd (reconcile_all sample_lib small_server (small_ctx\<lparr>cx_devices := [orphaned_device]\<rparr>) 100 small_state)))"
    by code_simp
  show "accepts history_versions ''usb-x'' (Some ''0'') orphaned_device" by (simp add: accepts_def history_versions_def)
  show "ud_status free_device = Some (merge_status (lease_patch None) (status_ref orphaned_device))" by code_simp
qed

lemma history_lease: "device_write history_versions sample_lib ''usb-x'' free_device leased_free_device"
proof (rule device_write.by_pass [OF history_contract _ small_lease_call])
  show "list_all (genuine history_versions) (cx_devices small_ctx)"
    using small_genuine by (simp add: small_ctx_def genuine_def history_versions_def small_versions_def free_device_def plain_meta_def)
  show "accepts history_versions ''usb-x'' (Some ''1'') free_device" by (simp add: accepts_def history_versions_def small_versions_def)
qed (simp add: leased_free_device_def)

lemma history_chain: "chain (device_write history_versions sample_lib ''usb-x'') [orphaned_device, free_device, leased_free_device]"
  by (intro chain.intros history_free history_lease)

theorem lease_history_refines_lock_witness:
  "\<exists>ops. lock_trace ops (lease_holder orphaned_device) =
     Some [lease_holder orphaned_device, lease_holder free_device, lease_holder leased_free_device]"
  using lease_history_refines_lock [OF history_chain] by simp

theorem device_is_free_between_holders_witness: "\<exists>m. m \<in> {free_device, leased_free_device} \<and> lease_holder m = None"
proof -
  have "lease_holder orphaned_device = Some ''gone'' \<and> lease_holder leased_free_device = Some ''c1''" by code_simp
  then show ?thesis using device_is_free_between_holders [OF history_chain, of "''gone''" "''c1''"] by simp
qed

end
