(* ===== verification/Resumes.thy ===== *)
theory Resumes
  imports LeaseSafety
begin

text \<open>
  Which virtual machines a pass resumes: only those whose boot is held by a valid claim. The other side of it is that a machine that
  starts paused and whose only holding claims are invalid is resumed by nobody.
\<close>

section \<open>Where the holds come from\<close>

lemma and_then_InrD: "and_then m f st = (Inr v, st') \<Longrightarrow> \<exists>w st1. m st = (Inr w, st1) \<and> f w st1 = (Inr v, st')"
  by (auto simp: and_then_def split: prod.splits sum.splits)

definition holds_vm :: "Lib \<Rightarrow> (string \<rightharpoonup> slot_result) \<Rightarrow> string \<times> string \<Rightarrow> UsbDeviceClaim \<Rightarrow> bool" where
  "holds_vm L slots key claim \<longleftrightarrow>
     claim_vm_key claim = key \<and> cs_hold_boot (uc_spec claim) \<noteq> None \<and> invalid_reason L slots claim = None"

lemma claim_hold:
  assumes "reconcile_claim L srv now lost vms vmis slots claim st = (Inr out, st')" and "out_hold out = Some bc" and "\<not> bc_invalid bc"
  shows "holds_vm L slots (claim_vm_key claim) claim"
proof -
  from assms(1) obtain vm vmi target requeue st1 where "report_claim L srv now lost claim slots vm vmi target requeue st1 = (Inr out, st')"
    unfolding reconcile_claim_def Let_def by (fastforce dest!: and_then_InrD)
  then have "out_hold out = None \<or> (\<exists>bc. out_hold out = Some bc \<and> cs_hold_boot (uc_spec claim) \<noteq> None \<and>
      bc_invalid bc = (invalid_reason L slots claim \<noteq> None))"
    unfolding report_claim_def Let_def case_prod_unfold
    by (cases "cs_hold_boot (uc_spec claim)") (auto dest!: and_then_InrD simp: return_def)
  with assms(2,3) show ?thesis by (auto simp: holds_vm_def)
qed

definition holds_ok :: "(string \<times> string \<Rightarrow> bool) \<Rightarrow> hold_table \<Rightarrow> bool" where
  "holds_ok P holds \<longleftrightarrow> (\<forall>(key, bcs) \<in> set holds. \<forall>bc \<in> set bcs. \<not> bc_invalid bc \<longrightarrow> P key)"

lemma set_bt_insert: "set (bt_insert k v m) \<subseteq> insert (k, v) (set m)"
proof (induction m)
  case (Cons e m)
  then show ?case by (cases e) auto
qed simp

lemma holds_ok_push:
  assumes "holds_ok P holds" and "\<not> bc_invalid bc \<Longrightarrow> P key"
  shows "holds_ok P (bt_push key bc holds)"
proof -
  define bcs where "bcs = (case map_of holds key of None \<Rightarrow> [] | Some bcs \<Rightarrow> bcs) @ [bc]"
  have "P key" if "b \<in> set bcs" "\<not> bc_invalid b" for b
  proof (cases "b = bc")
    case False
    with that(1) obtain old where "map_of holds key = Some old" "b \<in> set old" by (cases "map_of holds key") (auto simp: bcs_def)
    then show ?thesis using assms(1) that(2) map_of_SomeD [of holds key old] unfolding holds_ok_def by blast
  qed (use assms(2) that(2) in simp)
  then have "holds_ok P ((key, bcs) # holds)" using assms(1) by (auto simp: holds_ok_def)
  moreover have "set (bt_push key bc holds) \<subseteq> set ((key, bcs) # holds)"
    using set_bt_insert [of key bcs holds] by (simp add: bt_push_def bcs_def)
  ultimately show ?thesis unfolding holds_ok_def by blast
qed

lemma reconcile_claims_holds:
  assumes "reconcile_claims L srv now lost vms vmis slots claims requeue holds st = (Inr (requeue', holds'), st')" and "holds_ok P holds"
    and "\<And>c key. c \<in> set claims \<Longrightarrow> holds_vm L slots key c \<Longrightarrow> P key"
  shows "holds_ok P holds'"
  using assms
proof (induction claims arbitrary: requeue holds st)
  case Nil
  then show ?case by (simp add: return_def)
next
  case (Cons c claims)
  obtain r st1 where one: "reconcile_claim L srv now lost vms vmis slots c st = (r, st1)" by fastforce
  have later: "P key" if "d \<in> set claims" "holds_vm L slots key d" for d key using Cons.prems(3) [of d key] that by simp
  show ?case
  proof (cases r)
    case (Inl e)
    with Cons.prems(1) one obtain err where "e = KubeErr err" by (cases e) (auto simp: fail_def)
    with Cons.prems(1) one Inl have "reconcile_claims L srv now lost vms vmis slots claims True holds st1 = (Inr (requeue', holds'), st')" by simp
    then show ?thesis by (rule Cons.IH) (use Cons.prems(2) later in auto)
  next
    case (Inr out)
    have "holds_ok P (case out_hold out of None \<Rightarrow> holds | Some hold \<Rightarrow> bt_push (claim_vm_key c) hold holds)"
    proof (cases "out_hold out")
      case (Some bc)
      have "P (claim_vm_key c)" if "\<not> bc_invalid bc"
        using Cons.prems(3) [of c] claim_hold [OF one [unfolded Inr] Some that] by simp
      with Cons.prems(2) show ?thesis by (simp add: Some holds_ok_push)
    qed (simp add: Cons.prems(2))
    with Cons.IH [of "requeue \<or> out_requeue out" _ st1] Cons.prems(1) later one Inr show ?thesis by auto
  qed
qed

section \<open>The resumes of a pass\<close>

lemma boot_hold_unpause_held:
  assumes "Unpause ns n \<in> set (new_calls st (snd (reconcile_boot_hold L srv key claims vm vmi now st)))"
  shows "key = (ns, n) \<and> (\<exists>bc \<in> set claims. \<not> bc_invalid bc)"
proof -
  have "Unpause ns n \<in> set (filter is_Unpause (new_calls st (snd (reconcile_boot_hold L srv key claims vm vmi now st))))"
    using assms by simp
  then obtain i where "(ns, n) = (fst key, snd key)" "can_be_held (boot_hold_inputs st claims vm vmi now) i"
    unfolding unpause_calls by (auto split: if_splits)
  then show ?thesis by (auto simp: can_be_held_def holding_claims_def boot_hold_inputs_def Let_def filter_empty_conv)
qed

lemma boot_holds_unpause_held:
  assumes "Unpause ns n \<in> set (new_calls st (snd (reconcile_boot_holds L srv now vms vmis holds requeue st)))" and "holds_ok P holds"
  shows "P (ns, n)"
  using assms
proof (induction holds arbitrary: requeue st)
  case Nil
  then show ?case by (simp add: return_def new_calls_def)
next
  case (Cons kc holds)
  obtain key claims where kc: "kc = (key, claims)" by fastforce
  obtain b st1 where one: "reconcile_boot_hold L srv key claims (vms key) (vmis key) now st = (Inr b, st1)"
    using reconcile_boot_hold_effect(1) [of L srv key claims "vms key" "vmis key" now st] by (metis prod.collapse)
  let ?rest = "reconcile_boot_holds L srv now vms vmis holds (requeue \<or> b) st1"
  have rest: "reconcile_boot_holds L srv now vms vmis (kc # holds) requeue st = ?rest" by (simp add: kc one)
  obtain calls1 calls2 where calls: "c_log st1 = c_log st @ calls1" "c_log (snd ?rest) = c_log st1 @ calls2"
    using reconcile_boot_hold_effect(3) [of L srv key claims "vms key" "vmis key" now st] one reconcile_boot_holds_spec by (metis snd_conv)
  with Cons.prems(1) consider "Unpause ns n \<in> set (new_calls st st1)" | "Unpause ns n \<in> set (new_calls st1 (snd ?rest))"
    by (auto simp: rest new_calls_def)
  then show ?case
  proof cases
    case 1
    then show ?thesis
      using boot_hold_unpause_held [of ns n st L srv key claims "vms key" "vmis key" now] one Cons.prems(2) by (auto simp: kc holds_ok_def)
  next
    case 2
    with Cons.IH Cons.prems(2) show ?thesis by (auto simp: holds_ok_def)
  qed
qed

lemma pass_unpause_held:
  assumes contract: "cas_contract V srv" and genuine: "list_all (genuine V) (cx_devices ctx)"
    and unpause: "Unpause ns n \<in> set (new_calls st (snd (reconcile_all L srv ctx now st)))"
  shows "\<exists>c \<in> set (live_claims_of (cx_claims ctx)). holds_vm L (allocate_slots (map slot_request_of (live_claims_of (cx_claims ctx)))) (ns, n) c"
  using contract genuine
proof (cases rule: pass_shape [where L = L and now = now and st = st])
  case (failed e calls)
  with unpause no_unpause_in [OF failed(3)] show ?thesis by (simp add: new_calls_def)
next
  case (boot_holds requeue st1 requeue' holds st2 calls)
  let ?P = "\<lambda>key. \<exists>c \<in> set (live_claims_of (cx_claims ctx)).
    holds_vm L (allocate_slots (map slot_request_of (live_claims_of (cx_claims ctx)))) key c"
  let ?st3 = "snd (forget_gone (live_vmis_of (cx_vmis ctx)) st2)"
  let ?bh = "reconcile_boot_holds L srv now (vm_table_of (cx_vms ctx)) (vmi_table_of (cx_vmis ctx)) holds requeue' ?st3"
  have held: "holds_ok ?P holds" by (rule reconcile_claims_holds [OF boot_holds(1)]) (auto simp: holds_ok_def)
  obtain calls2 where "c_log (snd ?bh) = c_log st @ calls @ calls2" "c_log (snd ?bh) = c_log ?st3 @ calls2"
    using reconcile_boot_holds_spec [of L srv now _ _ holds requeue' ?st3] by (auto simp: forget_gone_def boot_holds(3))
  with unpause no_unpause_in [OF boot_holds(4)] have "Unpause ns n \<in> set (new_calls ?st3 (snd ?bh))"
    by (auto simp: new_calls_def boot_holds(2))
  from boot_holds_unpause_held [OF this held] show ?thesis .
qed

text \<open>
  Property C21: a pass resumes a virtual machine only if a live claim for that machine asks to hold its boot and is valid. So no machine is touched that
  nobody asked to hold; but a machine that starts paused and whose holding claims are all invalid, say because of a typo in
  their selectors, is never resumed, whatever the timeouts.
\<close>

theorem only_held_vms_are_resumed:
  assumes "cas_contract V srv" and "list_all (genuine V) (cx_devices ctx)"
    and "Unpause ns n \<in> set (new_calls st (snd (reconcile_all L srv ctx now st)))"
  shows "\<exists>c. c \<in> set (live_claims_of (cx_claims ctx)) \<and> claim_vm_key c = (ns, n) \<and> cs_hold_boot (uc_spec c) \<noteq> None \<and>
    invalid_reason L (allocate_slots (map slot_request_of (live_claims_of (cx_claims ctx)))) c = None"
  using pass_unpause_held [OF assms] by (auto simp: holds_vm_def)

section \<open>The property at work\<close>

text \<open>The claim of the small cluster holds the boot of its machine, which was started paused long ago.\<close>

definition paused_vmi_object :: DynamicObject where
  "paused_vmi_object = \<lparr>do_metadata = plain_meta ''vm'' ''i1'' ''4'',
     do_data = JObject [(''spec'', JObject [(''startStrategy'', JString ''Paused'')]),
       (''status'', JObject [(''conditions'', JArray [JObject [(''lastTransitionTime'', JString (rfc3339 sample_lib 10)),
          (''status'', JString ''True''), (''type'', JString ''Paused'')]]), (''phase'', JString ''Running'')])]\<rparr>"

definition holding_ctx :: Ctx where
  "holding_ctx = small_ctx\<lparr>cx_vmis := [paused_vmi_object],
     cx_claims := [radio_claim\<lparr>uc_spec := (uc_spec radio_claim)\<lparr>cs_hold_boot := Some \<lparr>hb_timeout_seconds = Some 60\<rparr>\<rparr>\<rparr>]\<rparr>"

lemma holding_unpause: "Unpause ''ns'' ''vm'' \<in> set (new_calls small_state (snd (reconcile_all sample_lib small_server holding_ctx 100 small_state)))"
  by code_simp

theorem only_held_vms_are_resumed_witness:
  "\<exists>c. c \<in> set (live_claims_of (cx_claims holding_ctx)) \<and> claim_vm_key c = (''ns'', ''vm'') \<and> cs_hold_boot (uc_spec c) \<noteq> None"
  using only_held_vms_are_resumed [OF small_contract _ holding_unpause] small_genuine by (auto simp: holding_ctx_def)

end
