(* ===== verification/Startup.thy ===== *)
theory Startup
  imports Discovery Controller Proto
begin

text \<open>
  What the program does once: the key secret the controller makes (\<open>ensure_psk_secret\<close> in \<open>src/controller.rs\<close>), the
  controller's configuration from its arguments, the agent's check of the key at its start, and the \<open>scan\<close> command of
  \<open>src/main.rs\<close>. The secrets API is an argument, as are the random bytes drawn.
\<close>

section \<open>The pre-shared key\<close>

record Secret =
  sec_name :: string
  sec_labels :: "(string, string) btree"
  sec_string_data :: "(string, string) btree"

record SecretApi =
  sx_get_opt :: "string \<Rightarrow> string \<Rightarrow> KubeError + Secret option"
  sx_create :: "string \<Rightarrow> Secret \<Rightarrow> KubeError + unit"

definition psk_secret :: "Lib \<Rightarrow> bytes \<Rightarrow> string \<Rightarrow> Secret" where
  "psk_secret L random name =
     \<lparr>sec_name = name, sec_labels = [(''app.kubernetes.io/name'', ''atomic-usb'')],
      sec_string_data = [(''psk'', hex_encode L random)]\<rparr>"

text \<open>The secret that is created, if the API is asked to create one, and the result.\<close>

definition ensure_psk_secret :: "Lib \<Rightarrow> SecretApi \<Rightarrow> bytes \<Rightarrow> string \<Rightarrow> string \<Rightarrow> Secret option \<times> (KubeError + unit)" where
  "ensure_psk_secret L api random namespace name =
     (case sx_get_opt api namespace name of
        Inl e \<Rightarrow> (None, Inl e)
      | Inr (Some _) \<Rightarrow> (None, Inr ())
      | Inr None \<Rightarrow>
          let secret = psk_secret L random name
          in (Some secret,
              case sx_create api namespace secret of
                Inr _ \<Rightarrow> Inr ()
              | Inl err \<Rightarrow> if is_conflict err then Inr () else Inl err))"

text \<open>The key in the file of a pod into which the secret is mounted.\<close>

definition mounted_key :: "Secret \<Rightarrow> string + bytes" where
  "mounted_key secret = (case map_of (sec_string_data secret) ''psk'' of Some v \<Rightarrow> Inr v | None \<Rightarrow> Inl ''not found'')"

lemma lower_hex_not_space: "lower_hex c \<Longrightarrow> \<not> is_ascii_whitespace c"
  by (auto simp: lower_hex_def is_ascii_whitespace_def is_ascii_digit_def)

lemma trim_ascii_id: "\<forall>c \<in> set raw. \<not> is_ascii_whitespace c \<Longrightarrow> trim_ascii raw = raw"
proof -
  have id: "dropWhile is_ascii_whitespace xs = xs" if "\<forall>c \<in> set xs. \<not> is_ascii_whitespace c" for xs
    using that by (cases xs) auto
  assume "\<forall>c \<in> set raw. \<not> is_ascii_whitespace c"
  then show ?thesis by (simp add: trim_ascii_def id)
qed

text \<open>
  The key the controller generates is one the agents accept: a secret is created exactly when the API says there is none, losing the race to create
  it is no error, and an agent that mounts the created secret reads back all of its 64 hexadecimal
  digits.
\<close>

theorem generated_key_is_accepted:
  assumes "hex_contract L" and "length random = 32"
  shows "case ensure_psk_secret L api random namespace name of
      (Some secret, r) \<Rightarrow> sx_get_opt api namespace name = Inr None \<and> sec_name secret = name \<and>
        read_psk path (mounted_key secret) = Inr (hex_encode L random) \<and> length (hex_encode L random) = 64 \<and>
        (r = Inr () \<longleftrightarrow> sx_create api namespace secret = Inr () \<or> (\<exists>e. sx_create api namespace secret = Inl e \<and> is_conflict e))
    | (None, r) \<Rightarrow> sx_get_opt api namespace name \<noteq> Inr None \<and> (r = Inr () \<longleftrightarrow> (\<exists>s. sx_get_opt api namespace name = Inr (Some s)))"
proof -
  have hex: "\<forall>c \<in> set (hex_encode L random). \<not> is_ascii_whitespace c" "length (hex_encode L random) = 64"
    using assms lower_hex_not_space by (auto simp: hex_contract_def)
  then have "read_psk path (mounted_key (psk_secret L random name)) = Inr (hex_encode L random)"
    by (simp add: read_psk_def mounted_key_def psk_secret_def trim_ascii_id Let_def)
  with hex(2) show ?thesis
    by (auto simp: ensure_psk_secret_def Let_def psk_secret_def split: sum.splits option.splits)
qed

theorem generated_key_is_accepted_witness:
  "\<exists>secret. ensure_psk_secret sample_lib \<lparr>sx_get_opt = (\<lambda>_ _. Inr None), sx_create = (\<lambda>_ _. Inl (ApiError 409 []))\<rparr> (replicate 32 (CHR ''x'')) ''usb'' ''key''
     = (Some secret, Inr ()) \<and> read_psk ''/psk'' (mounted_key secret) = Inr (hex_encode sample_lib (replicate 32 (CHR ''x'')))"
  using generated_key_is_accepted [OF hex_sample, of "replicate 32 (CHR ''x'')"
      "\<lparr>sx_get_opt = (\<lambda>_ _. Inr None), sx_create = (\<lambda>_ _. Inl (ApiError 409 []))\<rparr>" "''usb''" "''key''" "''/psk''"]
  by (simp add: ensure_psk_secret_def Let_def)

section \<open>Configuration and start\<close>

record ControllerArgs =
  ca_namespace :: string
  ca_psk_secret :: string
  ca_lost_after_seconds :: u64
  ca_resync_seconds :: u64

definition controller_config :: "ControllerArgs \<Rightarrow> ControllerConfig" where
  "controller_config args =
     \<lparr>cc_namespace = ca_namespace args, cc_psk_secret = (if ca_psk_secret args = [] then None else Some (ca_psk_secret args)),
      cc_lost_after = ca_lost_after_seconds args, cc_resync = ca_resync_seconds args\<rparr>"

text \<open>Before anything else the controller makes the key secret, unless the argument is empty.\<close>

definition controller_start :: "Lib \<Rightarrow> SecretApi \<Rightarrow> bytes \<Rightarrow> ControllerConfig \<Rightarrow> KubeError + unit" where
  "controller_start L api random config =
     (case cc_psk_secret config of
        None \<Rightarrow> Inr ()
      | Some secret \<Rightarrow> snd (ensure_psk_secret L api random (cc_namespace config) secret))"

text \<open>An agent does not start without the key.\<close>

definition agent_start :: "AgentConfig \<Rightarrow> string + bytes \<Rightarrow> string + unit" where
  "agent_start cfg key_file =
     (case read_psk (cfg_psk_file cfg) key_file of
        Inl e \<Rightarrow> Inl (''agent needs the pre-shared key: '' @ e)
      | Inr _ \<Rightarrow> Inr ())"

section \<open>The scan command\<close>

record ScanRow =
  row_name :: string
  row_identity :: string
  row_hub :: bool
  row_device :: UsbDeviceInfo

definition scan_row :: "(InstanceKey \<rightharpoonup> Decision) \<Rightarrow> UsbDeviceInfo \<Rightarrow> ScanRow option" where
  "scan_row decisions d =
     (case decisions (instance_key_of d) of
        None \<Rightarrow> None
      | Some (Assigned a) \<Rightarrow>
          Some \<lparr>row_name = as_name a, row_identity = identity_debug (as_source a), row_hub = is_hub d, row_device = d\<rparr>
      | Some (Deferred name _) \<Rightarrow> Some \<lparr>row_name = name, row_identity = ''Deferred'', row_hub = is_hub d, row_device = d\<rparr>)"

definition standalone_context :: "string \<Rightarrow> AssignContext" where
  "standalone_context node = \<lparr>ac_node = node, ac_sticky = Map.empty, ac_known = [], ac_may_defer = {}\<rparr>"

text \<open>The rows printed; a missing decision would be a panic, a \<^const>\<open>None\<close> among the rows.\<close>

definition scan_command :: "Lib \<Rightarrow> FileSystem \<Rightarrow> string \<Rightarrow> string \<Rightarrow> string + ScanRow option list" where
  "scan_command L fs root node =
     (case scan fs root of
        Inl e \<Rightarrow> Inl (''scanning sysfs: '' @ e)
      | Inr devices \<Rightarrow> Inr (map (scan_row (assign L (standalone_context node) devices)) devices))"

text \<open>
  The command prints one row per device, in the order of the scan, with the name and the tier the device gets on a node
  that knows of no other; it never panics and no device has to wait.
\<close>

theorem scan_command_prints_assignments:
  assumes "scan_command L fs root node = Inr rows"
  shows "\<exists>devices. scan fs root = Inr devices \<and>
    list_all2 (\<lambda>row d. \<exists>a. assign L (standalone_context node) devices (instance_key_of d) = Some (Assigned a) \<and>
      row = Some \<lparr>row_name = as_name a, row_identity = identity_debug (as_source a), row_hub = is_hub d, row_device = d\<rparr>) rows devices"
proof -
  from assms obtain devices where devices: "scan fs root = Inr devices"
    "rows = map (scan_row (assign L (standalone_context node) devices)) devices"
    by (auto simp: scan_command_def split: sum.splits)
  have "\<exists>a. assign L (standalone_context node) devices (instance_key_of d) = Some (Assigned a)" if d: "d \<in> set devices" for d
  proof -
    obtain dec where dec: "assign L (standalone_context node) devices (instance_key_of d) = Some dec"
      using assign_decides [OF d, of L "standalone_context node"] by auto
    show ?thesis
    proof (cases dec)
      case (Deferred name h)
      with dec show ?thesis by (cases rule: assign_cases) (auto simp: standalone_context_def)
    qed (simp add: dec)
  qed
  then have "list_all2 (\<lambda>row d. \<exists>a. assign L (standalone_context node) devices (instance_key_of d) = Some (Assigned a) \<and>
      row = Some \<lparr>row_name = as_name a, row_identity = identity_debug (as_source a), row_hub = is_hub d, row_device = d\<rparr>) rows devices"
    unfolding devices(2) list_all2_map1 by (intro list_all2_all_nthI) (force simp: scan_row_def dest: nth_mem)+
  with devices(1) show ?thesis by blast
qed

theorem scan_command_prints_assignments_witness:
  "\<exists>rows (a :: Assignment). scan_command sample_lib sample_tree (cfg_sysfs_root sample_cfg) ''n1'' = Inr rows \<and>
     rows = [Some \<lparr>row_name = as_name a, row_identity = identity_debug (as_source a), row_hub = is_hub sample_device, row_device = sample_device\<rparr>]"
proof -
  obtain rows where rows: "scan_command sample_lib sample_tree (cfg_sysfs_root sample_cfg) ''n1'' = Inr rows"
    by (simp add: scan_command_def sample_published(2))
  from scan_command_prints_assignments [OF rows] rows show ?thesis
    by (auto simp: sample_published(2) list_all2_Cons2)
qed

end
