(* ===== verification/UeventSocket.thy ===== *)
theory UeventSocket
  imports Uevent
begin

text \<open>
  The netlink socket of \<open>src/uevent.rs\<close> (the Linux module): opening it and receiving a datagram. What the kernel and the
  runtime's registration answer is an argument; the system calls made are part of the result, among them the closing of the descriptor
  when its owner is dropped on an error.
\<close>

section \<open>Opening the socket\<close>

definition KERNEL_GROUP :: nat where
  "KERNEL_GROUP = 1"

definition RECV_BUFFER_BYTES :: int where
  "RECV_BUFFER_BYTES = 4 * 1024 * 1024"

datatype Syscall =
    SysSocket
  | SysRcvBufForce nat int
  | SysRcvBuf nat int
  | SysBind nat nat
  | SysRegister nat
  | SysClose nat

record KernelAnswers =
  ka_socket :: "string + nat"
  ka_force :: bool
  ka_bind :: "string + unit"
  ka_register :: "string + unit"

record UeventSocket =
  us_fd :: nat

text \<open>The calls up to and including \<open>bind\<close>; a refused \<open>SO_RCVBUFFORCE\<close> is followed by \<open>SO_RCVBUF\<close>, whose answer is ignored.\<close>

definition setup_calls :: "KernelAnswers \<Rightarrow> nat \<Rightarrow> Syscall list" where
  "setup_calls k raw =
     [SysSocket, SysRcvBufForce raw RECV_BUFFER_BYTES] @
     (if ka_force k then [] else [SysRcvBuf raw RECV_BUFFER_BYTES]) @ [SysBind raw KERNEL_GROUP]"

definition socket_open :: "KernelAnswers \<Rightarrow> Syscall list \<times> (string + UeventSocket)" where
  "socket_open k =
     (case ka_socket k of
        Inl e \<Rightarrow> ([SysSocket], Inl e)
      | Inr raw \<Rightarrow>
          (case ka_bind k of
             Inl e \<Rightarrow> (setup_calls k raw @ [SysClose raw], Inl e)
           | Inr _ \<Rightarrow>
               (case ka_register k of
                  Inl e \<Rightarrow> (setup_calls k raw @ [SysRegister raw, SysClose raw], Inl e)
                | Inr _ \<Rightarrow> (setup_calls k raw @ [SysRegister raw], Inr \<lparr>us_fd = raw\<rparr>))))"

text \<open>
  No descriptor is leaked: one that was opened is closed exactly if the socket is not handed out, and the socket that is handed out listens to
  the kernel's group.
\<close>

lemma no_descriptor_is_leaked:
  assumes "socket_open k = (calls, r)" and "ka_socket k = Inr raw"
  shows "(SysClose raw \<in> set calls \<longleftrightarrow> (\<exists>e. r = Inl e)) \<and> (\<forall>s. r = Inr s \<longrightarrow> us_fd s = raw \<and> SysBind raw 1 \<in> set calls)"
  using assms by (auto simp: socket_open_def setup_calls_def KERNEL_GROUP_def split: sum.splits if_splits)

section \<open>Receiving\<close>

definition BUFFER_LEN :: nat where
  "BUFFER_LEN = 8192"

text \<open>One turn of the loop in \<open>recv\<close>: the readiness fails, the read would block or fails, or it yields a datagram, cut off at the end of the buffer.\<close>

datatype RecvTurn = NotReadable string | WouldBlock | ReadFailed string | ReadDatagram bytes

text \<open>\<^const>\<open>None\<close> when it is still waiting after these turns.\<close>

fun recv :: "RecvTurn list \<Rightarrow> (string + Uevent option) option" where
  "recv [] = None"
| "recv (NotReadable e # turns) = Some (Inl e)"
| "recv (WouldBlock # turns) = recv turns"
| "recv (ReadFailed e # turns) = Some (Inl e)"
| "recv (ReadDatagram d # turns) = Some (Inr (parse (take BUFFER_LEN d)))"

lemma recv_skips_spurious: "recv (replicate n WouldBlock @ turns) = recv turns"
  by (induction n) simp_all

lemma recv_kernel_event:
  assumes "CHR ''@'' \<notin> set action" and "NUL \<notin> set (action @ devpath)" and "utf8_valid (action @ ''@'' @ devpath)"
    and "\<forall>(k, v) \<in> set vars. CHR ''='' \<notin> set k \<and> NUL \<notin> set (k @ v) \<and> utf8_valid (k @ ''='' @ v)"
    and "length (write_uevent action devpath vars) \<le> BUFFER_LEN"
  shows "recv (replicate n WouldBlock @ ReadDatagram (write_uevent action devpath vars) # turns) =
    Some (Inr (Some \<lparr>ue_action = action, ue_devpath = devpath, ue_vars = collect_map vars\<rparr>))"
  using uevent_roundtrip [OF assms(1-4)] assms(5) by (simp add: recv_skips_spurious)

end
