(* ===== verification/Waiting.thy ===== *)
theory Waiting
  imports UeventSocket
begin

text \<open>
  The wait between two scans, \<open>wait_for_usb_event\<close> of \<open>src/agent/discovery.rs\<close>. Time is in
  milliseconds since the wait began. What happens during a wait is a list of arrivals in the order they are received, each with
  its time; an arrival that was queued earlier is received at once.
\<close>

section \<open>Waiting for a USB event\<close>

definition UEVENT_SETTLE :: nat where
  "UEVENT_SETTLE = 500"

text \<open>A datagram, parsed if it could be, or an error of the socket.\<close>

datatype Received = Datagram "Uevent option" | RecvError

definition received_of :: "string + Uevent option \<Rightarrow> Received" where
  "received_of r = (case r of Inl e \<Rightarrow> RecvError | Inr ev \<Rightarrow> Datagram ev)"

type_synonym arrivals = "(nat \<times> Received) list"

text \<open>Swallowing the rest of a burst; the result is the time at which it is over.\<close>

fun settle_burst :: "nat \<Rightarrow> nat \<Rightarrow> arrivals \<Rightarrow> nat" where
  "settle_burst settle_until now [] = (if now < settle_until then now + UEVENT_SETTLE else now)"
| "settle_burst settle_until now ((at, r) # rest) =
     (if \<not> now < settle_until then now
      else if at > now + UEVENT_SETTLE then now + UEVENT_SETTLE
      else case r of
             Datagram _ \<Rightarrow> settle_burst settle_until (max now at) rest
           | RecvError \<Rightarrow> max now at)"

definition ends_wait :: "Received \<Rightarrow> bool" where
  "ends_wait r = (case r of Datagram ev \<Rightarrow> is_some_and affects_usb_devices ev | RecvError \<Rightarrow> True)"

text \<open>The loop before the burst; an arrival at the deadline or later is left for the next wait.\<close>

fun wait_loop :: "nat \<Rightarrow> nat \<Rightarrow> arrivals \<Rightarrow> nat" where
  "wait_loop interval now [] = interval"
| "wait_loop interval now ((at, r) # rest) =
     (if max now at \<ge> interval then interval
      else if ends_wait r then settle_burst (max now at + UEVENT_SETTLE * 4) (max now at) rest
      else wait_loop interval (max now at) rest)"

text \<open>\<open>uevents\<close> is \<^const>\<open>None\<close> when the socket could not be opened.\<close>

definition wait_for_usb_event :: "arrivals option \<Rightarrow> nat \<Rightarrow> nat" where
  "wait_for_usb_event uevents interval =
     (case uevents of None \<Rightarrow> interval | Some arrivals \<Rightarrow> wait_loop interval 0 arrivals)"

lemma settle_burst_bounds: "now \<le> settle_burst u now evs" "settle_burst u now evs \<le> max now (u + UEVENT_SETTLE)"
proof (induction u now evs rule: settle_burst.induct)
  case (2 u now at r rest)
  show "now \<le> settle_burst u now ((at, r) # rest)" using 2(1) by (auto split: Received.split)
  show "settle_burst u now ((at, r) # rest) \<le> max now (u + UEVENT_SETTLE)" using 2(2) by (fastforce split: Received.split)
qed auto

lemma wait_loop_bound: "wait_loop interval now evs \<le> interval + 5 * UEVENT_SETTLE"
proof (induction interval now evs rule: wait_loop.induct)
  case (2 interval now at r rest)
  have "settle_burst (max now at + UEVENT_SETTLE * 4) (max now at) rest \<le> max now at + 5 * UEVENT_SETTLE"
    using settle_burst_bounds(2) [of "max now at + UEVENT_SETTLE * 4" "max now at" rest] by linarith
  with 2 show ?case by (cases "max now at \<ge> interval") (simp, simp only: wait_loop.simps if_False, simp)
qed simp

text \<open>A wait is over at most two and a half seconds after the first arrival that matters.\<close>

lemma wait_loop_prompt:
  "(at, r) \<in> set evs \<Longrightarrow> ends_wait r \<Longrightarrow> sorted (map fst evs) \<Longrightarrow> now \<le> at \<Longrightarrow> at < interval \<Longrightarrow>
   wait_loop interval now evs \<le> at + 5 * UEVENT_SETTLE"
proof (induction interval now evs rule: wait_loop.induct)
  case (2 interval now at' r' rest)
  have le: "max now at' \<le> at" using 2(2,4,5) by auto
  with 2(6) have before: "\<not> interval \<le> max now at'" by linarith
  show ?case
  proof (cases "ends_wait r'")
    case True
    have "wait_loop interval now ((at', r') # rest) = settle_burst (max now at' + UEVENT_SETTLE * 4) (max now at') rest"
      using before True by simp
    also have "\<dots> \<le> max now at' + 5 * UEVENT_SETTLE"
      using settle_burst_bounds(2) [of "max now at' + UEVENT_SETTLE * 4" "max now at'" rest] by linarith
    finally show ?thesis using le by linarith
  next
    case False
    with 2(2,3) have "(at, r) \<in> set rest" by auto
    from 2(1) [OF before False this 2(3) _ le 2(6)] 2(4) before False show ?thesis by simp
  qed
qed simp

text \<open>
  The wait between two scans. It is never longer than the interval and two and a half seconds, however long a burst of
  kernel events lasts, and when an event about a USB device, or the loss of events, arrives before the
  interval is over, the next scan starts within two and a half seconds of it.
\<close>

theorem rescan_is_prompt:
  assumes "sorted (map fst evs)" and "(at, r) \<in> set evs" and "ends_wait r" and "at < interval"
  shows "wait_for_usb_event (Some evs) interval \<le> at + 2500"
  using wait_loop_prompt [OF assms(2,3,1) _ assms(4), of 0] by (simp add: wait_for_usb_event_def UEVENT_SETTLE_def)

theorem rescan_is_prompt_witness:
  "wait_for_usb_event (Some [(100, Datagram None), (3000, RecvError), (3200, Datagram None)]) 15000 \<le> 5500"
  using rescan_is_prompt [of "[(100, Datagram None), (3000, RecvError), (3200, Datagram None)]" 3000 RecvError 15000]
  by (simp add: ends_wait_def)

text \<open>
  No burst of kernel events postpones a scan for ever: whatever arrives, a wait is over two and a half seconds after its interval.
\<close>

lemma wait_is_bounded: "wait_for_usb_event uevents interval \<le> interval + 2500"
  using wait_loop_bound [of interval 0] by (simp add: wait_for_usb_event_def UEVENT_SETTLE_def split: option.split)

text \<open>A kernel event about a USB device, as the kernel sends it.\<close>

definition usb_device_event :: "string \<Rightarrow> string \<Rightarrow> (string \<times> string) list \<Rightarrow> bool" where
  "usb_device_event action devpath vars \<longleftrightarrow>
     CHR ''@'' \<notin> set action \<and> NUL \<notin> set (action @ devpath) \<and> utf8_valid (action @ ''@'' @ devpath) \<and>
     list_all (\<lambda>(k, v). CHR ''='' \<notin> set k \<and> NUL \<notin> set (k @ v) \<and> utf8_valid (k @ ''='' @ v)) vars \<and>
     length (write_uevent action devpath vars) \<le> BUFFER_LEN \<and>
     collect_map vars ''SUBSYSTEM'' = Some ''usb'' \<and> is_none_or (\<lambda>t. t = ''usb_device'') (collect_map vars ''DEVTYPE'')"

lemma usb_device_event_ends_wait:
  assumes "usb_device_event action devpath vars"
    and "recv (replicate n WouldBlock @ ReadDatagram (write_uevent action devpath vars) # turns) = Some r"
  shows "ends_wait (received_of r)"
proof -
  from assms(1) have "r = Inr (Some \<lparr>ue_action = action, ue_devpath = devpath, ue_vars = collect_map vars\<rparr>)"
    using assms(2) recv_kernel_event [of action devpath vars n turns] by (auto simp: usb_device_event_def list_all_iff)
  with assms(1) show ?thesis
    by (simp add: received_of_def ends_wait_def affects_usb_devices_def subsystem_def usb_device_event_def)
qed

text \<open>
  Property C36: hotplug is noticed: when the kernel sends an event about a USB device while the agent waits for its next scan, the bytes of the
  datagram, read after any number of spurious wake-ups, are recognised and the next scan starts within two and a half
  seconds, whatever else arrives.
\<close>

theorem hotplug_starts_a_scan:
  assumes "usb_device_event action devpath vars"
    and "recv (replicate n WouldBlock @ ReadDatagram (write_uevent action devpath vars) # turns) = Some r"
    and "sorted (map fst evs)" and "(at, received_of r) \<in> set evs" and "at < interval"
  shows "wait_for_usb_event (Some evs) interval \<le> at + 2500"
  using wait_loop_prompt [OF assms(4) usb_device_event_ends_wait [OF assms(1,2)] assms(3) _ assms(5), of 0]
  by (simp add: wait_for_usb_event_def UEVENT_SETTLE_def)

lemma plug_event: "usb_device_event ''add'' ''/devices/usb3/3-3'' [(''SUBSYSTEM'', ''usb''), (''DEVTYPE'', ''usb_device'')]"
  by (auto simp: usb_device_event_def collect_map_def write_uevent_def BUFFER_LEN_def intro!: utf8_ascii)

theorem hotplug_starts_a_scan_witness:
  "\<exists>r. recv [WouldBlock, ReadDatagram (write_uevent ''add'' ''/devices/usb3/3-3'' [(''SUBSYSTEM'', ''usb''), (''DEVTYPE'', ''usb_device'')])] = Some r \<and>
     wait_for_usb_event (Some [(100, Datagram None), (3000, received_of r), (3200, Datagram None)]) 15000 \<le> 5500"
proof -
  let ?d = "write_uevent ''add'' ''/devices/usb3/3-3'' [(''SUBSYSTEM'', ''usb''), (''DEVTYPE'', ''usb_device'')]"
  obtain r where r: "recv (replicate 1 WouldBlock @ [ReadDatagram ?d]) = Some r" by simp
  show ?thesis
    using hotplug_starts_a_scan [OF plug_event r, of "[(100, Datagram None), (3000, received_of r), (3200, Datagram None)]" 3000 15000] r
    by simp
qed

end
