(* ===== verification/EndToEnd.thy ===== *)
theory EndToEnd
  imports AttachSafety ExportSafety LeaseHistory Resumes Startup Waiting
begin

text \<open>
  Where the components meet: a request the attacher sends passes the exporter's authorization when the controller's lease is
  for the session's claim, and what a session task reports is what the controller makes of the claim.
\<close>

section \<open>From the attacher to the exporter\<close>

lemma attempt_hello:
  assumes "attempt L fs ctx spec now env = Some (reports, Some hello, r)"
  obtains psk where "read_psk (cfg_psk_file (ax_config ctx)) (ae_key_file env) = Inr psk"
    "hello = hello_new L (ae_random env) psk (ss_device spec) (ss_claim spec) (word_of_int now)"
proof -
  from assms obtain exporter node socket where
    "attempt_io L (ax_config ctx) spec (word_of_int now) exporter node socket env = (reports, Some hello, r)"
    by (auto simp: attempt_def split: option.splits sum.splits)
  from attempt_io_hello [OF this] that show ?thesis by blast
qed

lemma new_nonce_admitted: "seen nonce = None \<Longrightarrow> fst (check_and_insert seen nonce ts now) = Inr ()"
  by (simp add: check_and_insert_def retain_def Let_def)

lemma session_claim_lease:
  assumes "desired_session ctx claim = Some (uid, spec)" and "he_claim h = ss_claim spec"
    and "st_attached_to (status_ref obj) = Some (lease_for L t claim)"
  shows "lease_matches h obj"
  using assms by (auto simp: desired_session_Some lease_matches_def lease_for_def claim_uid_def claim_namespace_def)

lemma attempt_authorized:
  assumes contract: "hex_contract L"
    and session: "desired_session ctx claim = Some (uid, spec)"
    and sent: "attempt L fs ctx spec now env = Some (reports, Some hello, r)"
    and key: "read_psk (cfg_psk_file cfg) key_file = read_psk (cfg_psk_file (ax_config ctx)) (ae_key_file env)"
    and skew: "clock_skew clock (word_of_int now) \<le> MAX_CLOCK_SKEW_SECS"
    and fresh: "seen (hex_encode L (ae_random env)) = None"
    and plugged: "map_of devices (ss_device spec) = Some d"
    and leased: "get_opt (ss_device spec) = Inr (Some obj)" "st_attached_to (status_ref obj) = Some (lease_for L t claim)"
  shows "fst (authorize L show_err cfg key_file clock devices get_opt hello seen) = Inr d"
proof -
  obtain psk where psk: "read_psk (cfg_psk_file (ax_config ctx)) (ae_key_file env) = Inr psk"
    and hello: "hello = hello_new L (ae_random env) psk (ss_device spec) (ss_claim spec) (word_of_int now)"
    using attempt_hello [OF sent] .
  have "verify L hello psk clock = Inr ()" unfolding hello verify_hello_new [OF contract] by (rule skew)
  moreover have "fst (check_and_insert seen (he_nonce hello) (he_timestamp hello) clock) = Inr ()"
    using fresh by (intro new_nonce_admitted) (simp add: hello)
  ultimately have "fst (authenticate L cfg key_file clock hello seen) = Inr ()" using psk key by (simp add: authenticate_Inr)
  moreover have "locate_device cfg devices hello = Inr d" using plugged by (simp add: locate_device_def hello)
  moreover have "check_lease show_err hello d (get_opt (he_device hello)) = Inr d"
    unfolding check_lease_Inr using leased session_claim_lease [OF session _ leased(2)] by (simp add: hello)
  ultimately show ?thesis by (auto simp: authorize_def split: prod.splits sum.splits)
qed

section \<open>From the attacher to the controller\<close>

lemma shows_report_attached:
  assumes "shows_report cfg spec (state, message, awaiting) conn" and "vi_node vmi = Some (cfg_node cfg)"
  shows "connection_attached conn vmi (ss_device spec) (Some (ss_slot spec)) \<longleftrightarrow> state = ConnConnected"
  using assms by (auto simp: shows_report_def connection_attached_def is_some_and_iff)

lemma shows_report_awaiting:
  assumes "shows_report cfg spec (state, message, awaiting) (ucs_connection previous)" and "vi_node vmi = Some (cfg_node cfg)"
  shows "claim_ready previous phase (Some vmi) (Some (ss_device spec)) (Some (ss_slot spec)) \<longleftrightarrow> phase = Attached \<or> awaiting"
  using assms by (auto simp: shows_report_def claim_ready_def is_some_and_iff)

lemma claim_connection_previous: "claim_connection claim = Some c \<Longrightarrow> ucs_connection (claim_previous claim) = Some c"
  by (auto simp: claim_connection_def claim_previous_def split: option.splits)

definition delivered :: "AgentConfig \<Rightarrow> report \<times> report_env \<Rightarrow> bool" where
  "delivered cfg = (\<lambda>(_, _, current, reply). reply = Inr () \<and> \<not> other_node_connected cfg current)"

lemma delivered_shown:
  assumes "rs \<noteq> []" and "list_all (delivered cfg) rs"
  shows "shows_report cfg spec (fst (last rs)) (snd (make_reports L cfg spec rs (reporter_new L t0, stored)))"
proof -
  have "reporter_ok cfg spec (reporter_new L t0, stored)" by (simp add: reporter_ok_def reporter_new_def)
  moreover have "\<forall>(_, e) \<in> set rs. snd (snd e) = Inr () \<and> \<not> other_node_connected cfg (fst (snd e))"
    using assms(2) by (auto simp: list_all_iff delivered_def)
  ultimately show ?thesis using make_reports_show [of cfg spec "(reporter_new L t0, stored)" rs L] assms(1) by blast
qed

text \<open>The phase and the readiness the controller computes for a session whose device and machine are fine.\<close>

lemma shown_phase:
  assumes node: "vi_node vmi = Some (cfg_node cfg)" and vmi: "is_running vmi" "vi_client_passthrough vmi"
    and shown: "shows_report cfg spec (state, message, awaiting) (claim_connection claim)"
    and device: "device_name_any d = ss_device spec" "is_available L d now lost" and vm: "vm_present vm (Some vmi)"
  defines "phase \<equiv> fst (compute_phase (phase_inputs L now lost claim None (Some d) vm (Some vmi) (Some (ss_slot spec))))"
  shows "phase = (if state = ConnConnected then Attached else Connecting) \<and>
    claim_ready (claim_previous claim) phase (Some vmi) (Some (ss_device spec)) (Some (ss_slot spec)) = (state = ConnConnected \<or> awaiting)"
proof -
  have phase: "phase = (if state = ConnConnected then Attached else Connecting)"
    unfolding phase_def compute_phase_cases
    using shows_report_attached [OF shown node] vmi device vm
    by (simp add: phase_inputs_def phase_client_passthrough_def data_path_up_def)
  obtain c where "claim_connection claim = Some c" using shown by (auto simp: shows_report_def is_some_and_iff)
  then have "ucs_connection (claim_previous claim) = claim_connection claim" using claim_connection_previous by simp
  with shows_report_awaiting [of cfg spec state message awaiting "claim_previous claim" vmi phase] shown node phase show ?thesis by simp
qed

lemma reported_phase:
  assumes session: "desired_session ctx claim = Some (uid, spec)"
    and vmi: "vmi_in_store ctx (cr_namespace (ss_claim spec)) (ss_vm_name spec) = Some vmi"
    and rs: "rs \<noteq> []" "list_all (delivered (ax_config ctx)) rs" "fst (last rs) = (state, message, awaiting)"
    and stored: "claim_connection claim' = snd (make_reports L (ax_config ctx) spec rs (reporter_new L t0, old))"
    and device: "device_name_any d = ss_device spec" "is_available L d now lost" and vm: "vm_present vm (Some vmi)"
  defines "phase \<equiv> fst (compute_phase (phase_inputs L now lost claim' None (Some d) vm (Some vmi) (Some (ss_slot spec))))"
  shows "phase = (if state = ConnConnected then Attached else Connecting) \<and>
    claim_ready (claim_previous claim') phase (Some vmi) (Some (ss_device spec)) (Some (ss_slot spec)) = (state = ConnConnected \<or> awaiting)"
  unfolding phase_def
proof (rule shown_phase [OF _ _ _ _ device vm])
  show "vi_node vmi = Some (cfg_node (ax_config ctx))" "is_running vmi" "vi_client_passthrough vmi"
    using session vmi by (auto simp: desired_session_Some)
  show "shows_report (ax_config ctx) spec (state, message, awaiting) (claim_connection claim')"
    using delivered_shown [OF rs(1,2), of spec L t0 old] by (simp add: stored rs(3))
qed

section \<open>What an attempt reports last\<close>

lemma greeting_waits_last:
  "snd (read_greeting spec node rounds) = None \<Longrightarrow> rounds \<noteq> [] \<Longrightarrow>
   fst (read_greeting spec node rounds) \<noteq> [] \<and> snd (snd (last (fst (read_greeting spec node rounds))))"
proof -
  assume none: "snd (read_greeting spec node rounds) = None" and ne: "rounds \<noteq> []"
  obtain paused outcome rest where r: "rounds = (paused, outcome) # rest" using ne by (cases rounds) auto
  from none have "fst (read_greeting spec node rounds) \<noteq> []"
    by (auto simp: r Let_def split: GreetingRead.splits if_splits prod.splits)
  with greeting_reports [of spec node rounds] last_in_set show ?thesis by (fastforce simp: list_all_iff)
qed

lemma waiting_attempt_awaits:
  assumes "attempt L fs ctx spec now env = Some (reports, hello, None)" and "ae_greeting env \<noteq> []"
  shows "reports \<noteq> [] \<and> snd (snd (last reports))"
proof -
  from assms(1) obtain exporter node socket where
    io: "attempt_io L (ax_config ctx) spec (word_of_int now) exporter node socket env = (reports, hello, None)"
    by (auto simp: attempt_def split: option.splits sum.splits)
  then obtain spliced where s: "splice_vm spec node socket env = (spliced, None)"
    and r: "reports = (ConnConnecting, ''connecting to exporter on '' @ node, False) # spliced"
    by (auto simp: attempt_io_def Let_def split: prod.splits sum.splits)
  from s have "read_greeting spec node (ae_greeting env) = (spliced, None)"
    by (auto simp: splice_vm_def split: option.splits prod.splits sum.splits)
  with greeting_waits_last [of spec node "ae_greeting env"] assms(2) r show ?thesis by auto
qed

lemma ready_claim_released:
  assumes "can_be_held i vmi" and "holding_claims i = [c]" and "bc_ready c"
  shows "\<exists>reason. decide_boot_hold L i = Release reason"
  using decide_held(1) [OF assms(1), of L] assms(2,3) by (simp add: all_ready_def)

section \<open>Refusals\<close>

text \<open>The reason an exporter refuses a connection for is what the session reports and the claim shows.\<close>

lemma refusal_reaches_session:
  assumes "request_exporter L cfg spec now exporter node env = (Some hello, r)" and "ae_send env = None" and "ae_answer env = Answered (reject_reply reason)"
  shows "r = Inl (Failed (''exporter on '' @ node @ '' refused: '' @ reason))"
    and "fst (session_turn (Inl (Failed (''exporter on '' @ node @ '' refused: '' @ reason))) backoff) =
      (ConnDisconnected, ''exporter on '' @ node @ '' refused: '' @ reason, False)"
proof -
  show "r = Inl (Failed (''exporter on '' @ node @ '' refused: '' @ reason))"
    using assms by (cases "read_psk (cfg_psk_file cfg) (ae_key_file env)"; cases "ae_connect env")
      (auto simp: request_exporter_def reject_reply_def Let_def)
qed (simp add: session_turn_def)

end
