(* ===== verification/Watch.thy ===== *)
theory Watch
  imports RustStd
begin

text \<open>
  \<open>src/watch.rs\<close>: the reflectors that keep the caches up to date and the wait of a control loop for a change. The channel is
  \<open>tokio\<close>'s watch channel, of which the code uses this much: a sender has a value and the number of times it was sent (the version), a
  receiver remembers the version it has seen, \<open>changed()\<close> is ready when the version is not the one seen, and \<open>mark_unchanged\<close> takes the present one as
  seen. What a reflector's store makes of the events of a watch belongs to the client library; here a store is the list of the events that
  were applied to it. Reading the key is in theory \<open>Proto\<close>.
\<close>

section \<open>The channel\<close>

record Changes =
  ch_value :: u64
  ch_version :: nat

definition changes :: Changes where
  "changes = \<lparr>ch_value = 0, ch_version = 0\<rparr>"

definition send_modify :: "(u64 \<Rightarrow> u64) \<Rightarrow> Changes \<Rightarrow> Changes" where
  "send_modify f c = \<lparr>ch_value = f (ch_value c), ch_version = Suc (ch_version c)\<rparr>"

text \<open>What a reflector does for every event: \<open>wrapping_add\<close> is addition of words.\<close>

definition bump :: "Changes \<Rightarrow> Changes" where
  "bump = send_modify (\<lambda>v. v + 1)"

record Receiver =
  rc_seen :: nat

definition subscribe :: "Changes \<Rightarrow> Receiver" where
  "subscribe c = \<lparr>rc_seen = ch_version c\<rparr>"

definition changed_ready :: "Changes \<Rightarrow> Receiver \<Rightarrow> bool" where
  "changed_ready c rx \<longleftrightarrow> ch_version c \<noteq> rc_seen rx"

definition mark_unchanged :: "Changes \<Rightarrow> Receiver \<Rightarrow> Receiver" where
  "mark_unchanged c rx = rx\<lparr>rc_seen := ch_version c\<rparr>"

text \<open>
  The contract of such a channel: whoever marks it has nothing to wait for until the next send, and a send is noticed however
  many follow it.
\<close>

locale notifier =
  fixes send :: "'c \<Rightarrow> 'c" and ready :: "'c \<Rightarrow> 'r \<Rightarrow> bool" and mark :: "'c \<Rightarrow> 'r \<Rightarrow> 'r" and ok :: "'c \<Rightarrow> 'r \<Rightarrow> bool"
  assumes mark_ok: "ok c (mark c r)"
    and mark_clears: "\<not> ready c (mark c r)"
    and send_ok: "ok c r \<Longrightarrow> ok (send c) r"
    and send_wakes: "ok c r \<Longrightarrow> ready (send c) r"
begin

lemma sends_ok: "ok c r \<Longrightarrow> ok ((send ^^ n) c) r"
  by (induction n) (simp_all add: send_ok)

lemma marked_ready_iff: "ready ((send ^^ n) c) (mark c r) \<longleftrightarrow> n \<noteq> 0"
  using sends_ok [OF mark_ok] by (cases n) (simp_all add: mark_clears send_wakes)

end

definition behind :: "Changes \<Rightarrow> Receiver \<Rightarrow> bool" where
  "behind c rx \<longleftrightarrow> rc_seen rx \<le> ch_version c"

interpretation chan: notifier bump changed_ready mark_unchanged behind
  by unfold_locales (auto simp: bump_def send_modify_def changed_ready_def mark_unchanged_def behind_def)

lemma bumps_count:
  "ch_version ((bump ^^ n) c) = ch_version c + n" "ch_value ((bump ^^ n) c) = ch_value c + of_nat n"
  by (induction n) (simp_all add: bump_def send_modify_def)

section \<open>Reflectors\<close>

text \<open>An item of the stream of a watch: an event, already applied to the store by \<open>reflect(writer)\<close>, or an error.\<close>

datatype 'e WatchItem = WatchEvent 'e | WatchError string

text \<open>The body of the task that \<open>reflect_with\<close> spawns, on the items of the stream so far: the store and the channel afterwards.\<close>

fun reflect_with :: "'e WatchItem list \<Rightarrow> 'e list \<times> Changes \<Rightarrow> 'e list \<times> Changes" where
  "reflect_with [] (store, c) = (store, c)"
| "reflect_with (WatchEvent e # items) (store, c) = reflect_with items (store @ [e], bump c)"
| "reflect_with (WatchError err # items) (store, c) = reflect_with items (store, c)"

lemma reflect_with_counts:
  "reflect_with items (store, c) = (store', c') \<Longrightarrow> \<exists>new. store' = store @ new \<and> c' = (bump ^^ length new) c"
proof (induction items "(store, c)" arbitrary: store c rule: reflect_with.induct)
  case (2 e items store c)
  then obtain new where "store' = (store @ [e]) @ new" "c' = (bump ^^ length new) (bump c)" by fastforce
  then show ?case by (intro exI [of _ "e # new"]) (simp add: funpow_swap1)
qed simp_all

section \<open>Waiting for a change\<close>

text \<open>
  The time is in milliseconds since the wait began; \<open>bumps\<close> are the times at which a watched store changes, in ascending order.
\<close>

definition changed_at :: "Changes \<Rightarrow> Receiver \<Rightarrow> nat list \<Rightarrow> nat option" where
  "changed_at c rx bumps = (if changed_ready c rx then Some 0 else case bumps of [] \<Rightarrow> None | t # _ \<Rightarrow> Some t)"

definition wait_end :: "Changes \<Rightarrow> Receiver \<Rightarrow> nat \<Rightarrow> nat \<Rightarrow> nat list \<Rightarrow> nat" where
  "wait_end c rx limit debounce bumps =
     (case changed_at c rx bumps of
        Some t \<Rightarrow> if t \<le> limit then t + debounce else limit
      | None \<Rightarrow> limit)"

text \<open>\<open>wait_for_change\<close>: when it returns, with the channel and the receiver at that time.\<close>

definition wait_for_change :: "nat \<Rightarrow> nat \<Rightarrow> nat list \<Rightarrow> Changes \<Rightarrow> Receiver \<Rightarrow> nat \<times> Changes \<times> Receiver" where
  "wait_for_change limit debounce bumps c rx =
     (let e = wait_end c rx limit debounce bumps;
          c' = (bump ^^ length (filter (\<lambda>t. t \<le> e) bumps)) c
      in (e, c', mark_unchanged c' rx))"

text \<open>
  No change is lost, and none is acted upon twice without need. A wait ends within its limit and the debounce time; if the stores change \<open>n\<close> times after
  that, while a pass is running, the next wait is over after the debounce time alone if \<open>n\<close> is not zero, and otherwise lasts until the
  next change or its limit. That the counter wraps around after \<open>2^64\<close> changes does not matter.
\<close>

theorem no_change_is_lost:
  assumes "wait_for_change limit debounce bumps c rx = (e, c1, rx1)"
    and "wait_for_change limit' debounce' bumps' ((bump ^^ n) c1) rx1 = (e', c2, rx2)"
  shows "e \<le> limit + debounce \<and> (n \<noteq> 0 \<longrightarrow> e' = debounce') \<and>
    (n = 0 \<longrightarrow> e' = (case bumps' of [] \<Rightarrow> limit' | t # _ \<Rightarrow> if t \<le> limit' then t + debounce' else limit'))"
proof -
  from assms(1) have e: "e = wait_end c rx limit debounce bumps" and rx1: "rx1 = mark_unchanged c1 rx"
    by (auto simp: wait_for_change_def Let_def)
  have e': "e' = wait_end ((bump ^^ n) c1) (mark_unchanged c1 rx) limit' debounce' bumps'"
    using assms(2) by (auto simp: wait_for_change_def Let_def rx1)
  show ?thesis
    using chan.marked_ready_iff [of n c1 rx]
    by (auto simp: e e' wait_end_def changed_at_def split: option.split list.split)
qed

theorem no_change_is_lost_witness:
  "fst (wait_for_change 10000 200 [] (bump (fst (snd (wait_for_change 10000 200 [50, 90] changes (subscribe changes)))))
     (snd (snd (wait_for_change 10000 200 [50, 90] changes (subscribe changes))))) = 200"
proof -
  obtain e c1 rx1 where one: "wait_for_change 10000 200 [50, 90] changes (subscribe changes) = (e, c1, rx1)" by (metis prod_cases3)
  obtain e' c2 rx2 where two: "wait_for_change 10000 200 [] ((bump ^^ 1) c1) rx1 = (e', c2, rx2)" by (metis prod_cases3)
  show ?thesis using no_change_is_lost [OF one two] one two by simp
qed

section \<open>A control loop and its reflectors\<close>

text \<open>
  The reflectors run concurrently with the loop that reads their stores. Between applying an event and announcing it a
  reflector may be interrupted, so these are two steps. The loop is in a pass, in \<open>changed()\<close>, in the debounce time
  or about to call \<open>mark_unchanged\<close>. \<open>ws_from\<close> remembers what the stores contained when the last pass began; whatever a pass reads, it reads later.
\<close>

datatype LoopPc = InPass | AwaitChange | Settling | Marking

record ('i, 'e) WatchState =
  ws_store :: "'i \<Rightarrow> 'e list"
  ws_owes :: "'i \<Rightarrow> bool"
  ws_changes :: Changes
  ws_receiver :: Receiver
  ws_pc :: LoopPc
  ws_from :: "'i \<Rightarrow> 'e list"

datatype ('i, 'e) WatchStep =
    ApplyEvent 'i 'e
  | Announce 'i
  | WatchFails 'i
  | PassEnds
  | ChangedReturns
  | WaitTimesOut
  | DebounceEnds
  | MarkUnchanged

text \<open>The first pass begins right after \<open>subscribe\<close>, with stores that hold their initial lists.\<close>

definition loop_start :: "('i \<Rightarrow> 'e list) \<Rightarrow> ('i \<Rightarrow> bool) \<Rightarrow> Changes \<Rightarrow> ('i, 'e) WatchState" where
  "loop_start store owes c =
     \<lparr>ws_store = store, ws_owes = owes, ws_changes = c, ws_receiver = subscribe c, ws_pc = InPass, ws_from = store\<rparr>"

fun watch_step :: "('i, 'e) WatchStep \<Rightarrow> ('i, 'e) WatchState \<Rightarrow> ('i, 'e) WatchState option" where
  "watch_step (ApplyEvent i e) s =
     (if ws_owes s i then None
      else Some (s\<lparr>ws_store := (ws_store s)(i := ws_store s i @ [e]), ws_owes := (ws_owes s)(i := True)\<rparr>))"
| "watch_step (Announce i) s =
     (if ws_owes s i then Some (s\<lparr>ws_owes := (ws_owes s)(i := False), ws_changes := bump (ws_changes s)\<rparr>) else None)"
| "watch_step (WatchFails i) s = (if ws_owes s i then None else Some s)"
| "watch_step PassEnds s = (if ws_pc s = InPass then Some (s\<lparr>ws_pc := AwaitChange\<rparr>) else None)"
| "watch_step ChangedReturns s =
     (if ws_pc s = AwaitChange \<and> changed_ready (ws_changes s) (ws_receiver s)
      then Some (s\<lparr>ws_pc := Settling, ws_receiver := mark_unchanged (ws_changes s) (ws_receiver s)\<rparr>) else None)"
| "watch_step WaitTimesOut s = (if ws_pc s = AwaitChange then Some (s\<lparr>ws_pc := Marking\<rparr>) else None)"
| "watch_step DebounceEnds s = (if ws_pc s = Settling then Some (s\<lparr>ws_pc := Marking\<rparr>) else None)"
| "watch_step MarkUnchanged s =
     (if ws_pc s = Marking
      then Some (s\<lparr>ws_pc := InPass, ws_receiver := mark_unchanged (ws_changes s) (ws_receiver s), ws_from := ws_store s\<rparr>) else None)"

inductive watch_run :: "('i, 'e) WatchState \<Rightarrow> ('i, 'e) WatchStep list \<Rightarrow> ('i, 'e) WatchState \<Rightarrow> bool" for s0 where
  start: "watch_run s0 [] s0"
| step: "watch_run s0 steps s \<Longrightarrow> watch_step x s = Some s' \<Longrightarrow> watch_run s0 (steps @ [x]) s'"

text \<open>While a pass runs or the loop waits, every change since the pass began has been announced after the mark, or is still owed.\<close>

definition notices :: "('i, 'e) WatchState \<Rightarrow> bool" where
  "notices s \<longleftrightarrow> behind (ws_changes s) (ws_receiver s) \<and>
     (ws_pc s \<in> {InPass, AwaitChange} \<longrightarrow> \<not> changed_ready (ws_changes s) (ws_receiver s) \<longrightarrow>
        (\<forall>i. ws_store s i = ws_from s i \<or> ws_owes s i))"

lemma watch_step_notices: "watch_step x s = Some s' \<Longrightarrow> notices s \<Longrightarrow> notices s'"
proof (cases x)
  case (Announce i)
  assume "watch_step x s = Some s'" "notices s"
  with Announce chan.send_ok chan.send_wakes show ?thesis by (auto simp: notices_def split: if_splits)
qed (auto simp: notices_def chan.mark_ok split: if_splits)

lemma loop_start_notices: "notices (loop_start store owes c)"
  by (simp add: notices_def loop_start_def behind_def subscribe_def)

lemma watch_run_notices: "watch_run s0 steps s \<Longrightarrow> notices s0 \<Longrightarrow> notices s"
  by (induction rule: watch_run.induct) (simp_all add: watch_step_notices)

text \<open>
  Property C10: a sleeping loop has seen everything. However the reflectors and the loop interleave, when the loop waits with \<open>changed()\<close> not ready and no reflector
  is about to announce an event, no store has changed since the last pass began, so the pass worked on the present contents; and
  if a store has changed since then, the wait can end at once or as soon as the reflectors have announced what they applied.
\<close>

theorem sleeping_loop_has_seen_everything:
  assumes "watch_run (loop_start store owes c) steps s" and "ws_pc s = AwaitChange"
  shows "((\<forall>i. \<not> ws_owes s i) \<and> watch_step ChangedReturns s = None \<longrightarrow> ws_store s = ws_from s) \<and>
    (\<forall>i. ws_store s i \<noteq> ws_from s i \<longrightarrow> watch_step ChangedReturns s \<noteq> None \<or>
       (\<exists>s'. watch_step (Announce i) s = Some s' \<and> watch_step ChangedReturns s' \<noteq> None))"
proof -
  have "notices s" using watch_run_notices [OF assms(1) loop_start_notices] .
  with assms(2) show ?thesis by (auto simp: notices_def chan.send_wakes)
qed

text \<open>One reflector; a device appears while the first pass runs, and the loop has yet to notice it.\<close>

definition late_event :: "(unit, nat) WatchState" where
  "late_event = \<lparr>ws_store = (\<lambda>_. [7]), ws_owes = (\<lambda>_. False), ws_changes = bump changes, ws_receiver = subscribe changes,
     ws_pc = AwaitChange, ws_from = (\<lambda>_. [])\<rparr>"

lemma late_event_run: "watch_run (loop_start (\<lambda>_. []) (\<lambda>_. False) changes) [ApplyEvent () 7, PassEnds, Announce ()] late_event"
proof -
  let ?s0 = "loop_start (\<lambda>_::unit. [] :: nat list) (\<lambda>_. False) changes"
  let ?s1 = "?s0\<lparr>ws_store := (\<lambda>_. [7]), ws_owes := (\<lambda>_. True)\<rparr>"
  let ?s2 = "?s1\<lparr>ws_pc := AwaitChange\<rparr>"
  have "watch_run ?s0 [ApplyEvent () 7] ?s1"
    using watch_run.step [OF watch_run.start [of ?s0], of "ApplyEvent () 7"] by (simp add: loop_start_def fun_upd_def)
  from watch_run.step [OF this, of PassEnds] have "watch_run ?s0 [ApplyEvent () 7, PassEnds] ?s2" by (simp add: loop_start_def)
  from watch_run.step [OF this, of "Announce ()"] show ?thesis by (simp add: loop_start_def late_event_def fun_upd_def)
qed

theorem sleeping_loop_has_seen_everything_witness: "watch_step ChangedReturns late_event \<noteq> None"
  using sleeping_loop_has_seen_everything [OF late_event_run] by (simp add: late_event_def)

end
