(* ===== verification/ControlLoop.thy ===== *)
theory ControlLoop
  imports Resumes Startup Watch
begin

text \<open>
  \<open>run\<close> of \<open>src/controller.rs\<close>: the start of the controller and its endless loop over passes. A round of the loop is what the
  caches show at its beginning and the time; the wait between two rounds is \<open>wait_for_change\<close> of theory \<open>Watch\<close>. The signal to shut down drops
  the loop at any point where it waits for an answer, so what was done by then is some prefix of the calls.
\<close>

section \<open>The loop\<close>

definition cstate_new :: CState where
  "cstate_new = \<lparr>c_log = [], c_devices = [], c_released = Map.empty\<rparr>"

text \<open>The waits in seconds, whether the loop is still going after the rounds, and the state.\<close>

fun control_loop :: "Lib \<Rightarrow> Server \<Rightarrow> ControllerConfig \<Rightarrow> (Ctx \<times> seconds) list \<Rightarrow> CState \<Rightarrow> u64 list \<times> bool \<times> CState" where
  "control_loop L srv config [] st = ([], True, st)"
| "control_loop L srv config ((ctx, now) # rounds) st =
     (let (r, st') = reconcile_all L srv (ctx\<lparr>cx_config := config\<rparr>) now st
      in case next_wait config r of
           None \<Rightarrow> ([], False, st')
         | Some wait \<Rightarrow> let (waits, going, st'') = control_loop L srv config rounds st' in (wait # waits, going, st''))"

datatype RunEnd = Stopped | StartFailed string | Panicked

text \<open>
  The whole run: \<open>ready\<close> is the answer of the caches' initial lists, \<open>rounds\<close> are the passes begun before the signal, \<open>finished\<close> is the number of
  calls that were made by then.
\<close>

definition controller_run ::
  "Lib \<Rightarrow> (KubeError \<Rightarrow> string) \<Rightarrow> SecretApi \<Rightarrow> bytes \<Rightarrow> ControllerConfig \<Rightarrow> string + unit \<Rightarrow> Server \<Rightarrow> (Ctx \<times> seconds) list \<Rightarrow> nat \<Rightarrow>
   RunEnd \<times> ApiCall list" where
  "controller_run L show_err api random config ready srv rounds finished =
     (case controller_start L api random config of
        Inl e \<Rightarrow> (StartFailed (''ensuring pre-shared key secret: '' @ show_err e), [])
      | Inr _ \<Rightarrow>
          (case ready of
             Inl e \<Rightarrow> (StartFailed (''waiting for initial lists: '' @ e), [])
           | Inr _ \<Rightarrow>
               (case control_loop L srv config rounds cstate_new of
                  (waits, going, st) \<Rightarrow> (if going then Stopped else Panicked, take finished (c_log st)))))"

section \<open>Resumed once\<close>

text \<open>How often a virtual machine was resumed: the accepted calls for it among the calls of a log.\<close>

fun resumes :: "Server \<Rightarrow> string \<times> string \<Rightarrow> ApiCall list \<Rightarrow> ApiCall list \<Rightarrow> nat" where
  "resumes srv key past [] = 0"
| "resumes srv key past (call # calls) =
     (if call = Unpause (fst key) (snd key) \<and> sv_unpause srv past (fst key) (snd key) = Inr () then 1 else 0) +
     resumes srv key (past @ [call]) calls"

lemma resumes_append: "resumes srv key past (a @ b) = resumes srv key past a + resumes srv key (past @ a) b"
  by (induction a arbitrary: past) auto

lemma resumes_none: "Unpause (fst key) (snd key) \<notin> set calls \<Longrightarrow> resumes srv key past calls = 0"
  by (induction calls arbitrary: past) auto

definition resumed_once :: "Server \<Rightarrow> string \<times> string \<Rightarrow> string \<Rightarrow> CState \<Rightarrow> bool" where
  "resumed_once srv key uid st \<longleftrightarrow> resumes srv key [] (c_log st) \<le> 1 \<and> (resumes srv key [] (c_log st) = 1 \<longrightarrow> c_released st uid \<noteq> None)"

lemma resumed_once_quiet:
  assumes "resumed_once srv key uid st" and "c_log st' = c_log st @ calls" and "Unpause (fst key) (snd key) \<notin> set calls"
    and "c_released st uid \<noteq> None \<Longrightarrow> c_released st' uid \<noteq> None"
  shows "resumed_once srv key uid st'"
  using assms by (auto simp: resumed_once_def resumes_append resumes_none)

lemma reports_no_unpause: "list_all is_PatchClaimStatus calls \<Longrightarrow> Unpause ns n \<notin> set calls"
  by (auto simp: list_all_iff)

lemma boot_hold_resumed_once:
  assumes "resumed_once srv key uid st" and "key' = key \<Longrightarrow> is_some_and (\<lambda>i. vi_uid i = uid) vmi"
  shows "resumed_once srv key uid (snd (reconcile_boot_hold L srv key' claims vm vmi now st))"
  using reconcile_boot_hold_cases [of L st claims vm vmi now srv key']
proof cases
  case quiet
  then show ?thesis
    by (auto simp: only_reports_def intro!: resumed_once_quiet [OF assms(1)] reports_no_unpause)
next
  case (failed reason err)
  then show ?thesis using assms(1) by (auto simp: resumed_once_def resumes_append)
next
  case (resumed reason i)
  let ?st1 = "remember_release (vi_uid i) reason (record_call (Unpause (fst key') (snd key')) st)"
  have "resumed_once srv key uid ?st1"
  proof (cases "key' = key")
    case True
    with assms(2) resumed(2) have uid: "vi_uid i = uid" by simp
    then have "c_released st uid = None" using release_not_recorded [of L st claims vm i now reason] resumed(1,2) by simp
    with assms(1) have "resumes srv key [] (c_log st) = 0" by (auto simp: resumed_once_def le_Suc_eq)
    with True uid resumed(3) show ?thesis by (simp add: resumed_once_def resumes_append remember_release_def)
  next
    case False
    then have "Unpause (fst key) (snd key) \<noteq> Unpause (fst key') (snd key')" by (auto simp: prod_eq_iff)
    then show ?thesis
      by (intro resumed_once_quiet [OF assms(1), of _ "[Unpause (fst key') (snd key')]"]) (auto simp: remember_release_def)
  qed
  with resumed(4) show ?thesis
    by (auto simp: only_reports_def intro: resumed_once_quiet [OF _ _ reports_no_unpause])
qed

lemma boot_holds_resumed_once:
  assumes "resumed_once srv key uid st" and "is_some_and (\<lambda>i. vi_uid i = uid) (vmis key)"
  shows "resumed_once srv key uid (snd (reconcile_boot_holds L srv now vms vmis holds requeue st))"
  using assms(1)
proof (induction holds arbitrary: requeue st)
  case (Cons kc holds)
  obtain key' claims where kc: "kc = (key', claims)" by fastforce
  obtain b st1 where one: "reconcile_boot_hold L srv key' claims (vms key') (vmis key') now st = (Inr b, st1)"
    using reconcile_boot_hold_effect(1) [of L srv key' claims "vms key'" "vmis key'" now st] by (metis prod.collapse)
  have "resumed_once srv key uid st1"
    using boot_hold_resumed_once [OF Cons.prems, of key' "vmis key'" L claims "vms key'" now] assms(2) one by simp
  with Cons.IH one show ?case by (simp add: kc)
qed (simp add: return_def)

lemma pass_resumed_once:
  assumes "cas_contract V srv" and "sees_instance V key uid ctx" and "resumed_once srv key uid st"
  shows "resumed_once srv key uid (snd (reconcile_all L srv ctx now st))"
proof -
  from assms(2) have ctx: "list_all (genuine V) (cx_devices ctx)" and vmi: "is_some_and (\<lambda>i. vi_uid i = uid) (vmi_table_of (cx_vmis ctx) key)"
    by (auto simp: sees_instance_def)
  from assms(1) ctx show ?thesis
  proof (cases rule: pass_shape [where L = L and now = now and st = st])
    case (failed e calls)
    then show ?thesis using no_unpause_in resumed_once_quiet [OF assms(3) failed(2)] by simp
  next
    case (boot_holds requeue st1 requeue' holds st2 calls)
    let ?st3 = "snd (forget_gone (live_vmis_of (cx_vmis ctx)) st2)"
    from vmi obtain i where "vmi_table_of (cx_vmis ctx) key = Some i" "vi_uid i = uid" by (auto simp: is_some_and_iff)
    then have "uid \<in> live_vmis_of (cx_vmis ctx)" by (auto simp: live_vmis_eq intro: ranI)
    then have "c_released ?st3 uid = c_released st uid"
      by (auto simp: forget_gone_def retain_def boot_holds(5) split: option.splits)
    then have "resumed_once srv key uid ?st3"
      by (intro resumed_once_quiet [OF assms(3), of _ calls] no_unpause_in boot_holds(4)) (auto simp: forget_gone_def boot_holds(3))
    from boot_holds_resumed_once [of srv key uid ?st3 "vmi_table_of (cx_vmis ctx)", OF this vmi] show ?thesis by (simp add: boot_holds(2))
  qed
qed

lemma sees_instance_config [simp]: "sees_instance V key uid (ctx\<lparr>cx_config := config\<rparr>) = sees_instance V key uid ctx"
  by (simp add: sees_instance_def)

lemma control_loop_resumed_once:
  assumes "cas_contract V srv" and "list_all (\<lambda>(ctx, now). sees_instance V key uid ctx) rounds" and "resumed_once srv key uid st"
    and "control_loop L srv config rounds st = (waits, going, st')"
  shows "resumed_once srv key uid st'"
  using assms(2-4)
proof (induction rounds arbitrary: st waits)
  case (Cons r rounds)
  obtain ctx now where r: "r = (ctx, now)" by fastforce
  obtain res st1 where one: "reconcile_all L srv (ctx\<lparr>cx_config := config\<rparr>) now st = (res, st1)" by fastforce
  have "resumed_once srv key uid st1"
    using pass_resumed_once [OF assms(1), of key uid "ctx\<lparr>cx_config := config\<rparr>" st L now] Cons.prems(1,2) by (simp add: r one)
  with Cons show ?case by (auto simp: r one split: option.splits prod.splits)
qed simp

lemma resumes_take: "resumes srv key past (take k calls) \<le> resumes srv key past calls"
  using resumes_append [of srv key past "take k calls" "drop k calls"] by simp

text \<open>
  Property C8: an instance is resumed at most once. During the whole run of a controller, however many passes it makes and wherever it is stopped, at most one
  accepted call resumes a virtual machine as long as the caches show the same instance of it, no matter how often its claims
  become ready, unready or time out and which other calls fail; so a machine that its user pauses later stays paused.
\<close>

theorem instance_is_resumed_once:
  assumes "cas_contract V srv" and "list_all (\<lambda>(ctx, now). sees_instance V key uid ctx) rounds"
  shows "resumes srv key [] (snd (controller_run L show_err api random config ready srv rounds finished)) \<le> 1"
proof -
  obtain waits going st where loop: "control_loop L srv config rounds cstate_new = (waits, going, st)" by (metis prod_cases3)
  have "resumed_once srv key uid cstate_new" by (simp add: resumed_once_def cstate_new_def)
  from control_loop_resumed_once [OF assms this loop] have "resumes srv key [] (c_log st) \<le> 1" by (simp add: resumed_once_def)
  with le_trans [OF resumes_take] show ?thesis by (auto simp: controller_run_def loop split: sum.splits)
qed

section \<open>The loop goes on\<close>

text \<open>
  Property C34: the controller runs until it is told to stop. It starts exactly if the key secret could be ensured (or is not wanted) and the
  caches have their initial lists; then, whatever the API answers, no pass panics, and after each of them it waits for one second or for the
  configured interval at most.
\<close>

theorem controller_runs_until_told_to_stop:
  assumes "cas_contract V srv" and "list_all (\<lambda>(ctx, now). list_all (genuine V) (cx_devices ctx)) rounds"
  shows "(fst (controller_run L show_err api random config ready srv rounds finished) = Stopped \<longleftrightarrow>
      controller_start L api random config = Inr () \<and> ready = Inr ()) \<and>
    fst (controller_run L show_err api random config ready srv rounds finished) \<noteq> Panicked \<and>
    (\<exists>waits st. control_loop L srv config rounds cstate_new = (waits, True, st) \<and> length waits = length rounds \<and>
       set waits \<subseteq> {1, cc_resync config})"
proof -
  have "\<exists>waits st'. control_loop L srv config rounds st = (waits, True, st') \<and> length waits = length rounds \<and> set waits \<subseteq> {1, cc_resync config}" for st
    using assms(2)
  proof (induction rounds arbitrary: st)
    case (Cons r rounds)
    obtain ctx now where r: "r = (ctx, now)" by fastforce
    obtain res st1 where one: "reconcile_all L srv (ctx\<lparr>cx_config := config\<rparr>) now st = (res, st1)" by fastforce
    have "res \<noteq> Inl (Panic m)" for m
      using reconcile_all_spec [OF assms(1), of "ctx\<lparr>cx_config := config\<rparr>" L now st] Cons.prems one by (auto simp: r)
    then have "\<exists>wait \<in> {1, cc_resync config}. next_wait config res = Some wait"
      by (auto simp: next_wait_def split: sum.split RunError.split)
    then obtain wait where wait: "next_wait config res = Some wait" "wait \<in> {1, cc_resync config}" by blast
    from Cons.IH [of st1] Cons.prems obtain waits st' where
      "control_loop L srv config rounds st1 = (waits, True, st')" "length waits = length rounds" "set waits \<subseteq> {1, cc_resync config}"
      by auto
    with wait show ?case by (simp add: r one)
  qed simp
  then obtain waits st where "control_loop L srv config rounds cstate_new = (waits, True, st)" "length waits = length rounds"
    "set waits \<subseteq> {1, cc_resync config}" by blast
  then show ?thesis by (auto simp: controller_run_def split: sum.splits)
qed

section \<open>A controller at work\<close>

abbreviation no_secret_api :: SecretApi where
  "no_secret_api \<equiv> \<lparr>sx_get_opt = (\<lambda>_ _. Inr None), sx_create = (\<lambda>_ _. Inr ())\<rparr>"

lemma holding_sees: "sees_instance small_versions (''ns'', ''vm'') ''i1'' holding_ctx"
proof -
  have "is_some_and (\<lambda>i. vi_uid i = ''i1'') (vmi_table_of (cx_vmis holding_ctx) (''ns'', ''vm''))" by code_simp
  then show ?thesis using small_genuine by (simp add: sees_instance_def holding_ctx_def)
qed

theorem instance_is_resumed_once_witness:
  "resumes small_server (''ns'', ''vm'') [] (snd (controller_run sample_lib (\<lambda>e. []) no_secret_api (replicate 32 (CHR ''x''))
     (cx_config small_ctx) (Inr ()) small_server [(holding_ctx, 100), (holding_ctx, 200)] 10)) = 1"
proof (rule antisym)
  let ?run = "controller_run sample_lib (\<lambda>e. []) no_secret_api (replicate 32 (CHR ''x''))
     (cx_config small_ctx) (Inr ()) small_server [(holding_ctx, 100), (holding_ctx, 200)] 10"
  show "resumes small_server (''ns'', ''vm'') [] (snd ?run) \<le> 1"
    by (rule instance_is_resumed_once [OF small_contract, of _ "''i1''"]) (simp add: holding_sees)
  show "1 \<le> resumes small_server (''ns'', ''vm'') [] (snd ?run)" by code_simp
qed

theorem controller_runs_until_told_to_stop_witness:
  "fst (controller_run sample_lib (\<lambda>e. []) no_secret_api (replicate 32 (CHR ''x''))
     (cx_config small_ctx) (Inr ()) small_server [(small_ctx, 100), (holding_ctx, 200)] 10) = Stopped"
  using controller_runs_until_told_to_stop [OF small_contract, of "[(small_ctx, 100), (holding_ctx, 200)]" sample_lib "\<lambda>e. []" no_secret_api
      "replicate 32 (CHR ''x'')" "cx_config small_ctx" "Inr ()" 10] small_genuine
  by (simp add: holding_ctx_def controller_start_def small_ctx_def)

end
