(* ===== verification/DiscoveryRun.thy ===== *)
theory DiscoveryRun
  imports Discovery Waiting
begin

text \<open>
  \<open>Discovery::run\<close> of \<open>src/agent/discovery.rs\<close>: recovery, opening the socket for kernel events, and the endless loop of scans and waits. A round is what the scan
  meets (the file system, the cached objects, the time, the API with the monotonic clock) and what arrives during the wait after it.
  The lemmas are about runs of many rounds: a device keeps its name while it stays plugged in, and the heartbeats of a device come often enough.
\<close>

section \<open>The loop\<close>

record ScanRound =
  ro_server :: AgentServer
  ro_fs :: FileSystem
  ro_now :: seconds
  ro_objects :: "UsbDevice list"
  ro_arrivals :: arrivals

definition scan_round :: "Lib \<Rightarrow> AgentConfig \<Rightarrow> ScanRound \<Rightarrow> DiscoveryState \<Rightarrow> (ScanError + bool) \<times> DiscoveryState" where
  "scan_round L cfg r st = scan_once L (ro_server r) (ro_fs r) cfg (ro_now r) (ro_objects r) st"

text \<open>The waits in milliseconds, whether the loop is still going (a missing decision would be a panic), and the state.\<close>

fun discovery_loop :: "Lib \<Rightarrow> AgentConfig \<Rightarrow> bool \<Rightarrow> ScanRound list \<Rightarrow> DiscoveryState \<Rightarrow> nat list \<times> bool \<times> DiscoveryState" where
  "discovery_loop L cfg uevents [] st = ([], True, st)"
| "discovery_loop L cfg uevents (r # rounds) st =
     (let (result, st') = scan_round L cfg r st
      in if result = Inl NoDecision then ([], False, st')
         else let wait = wait_for_usb_event (if uevents then Some (ro_arrivals r) else None) (1000 * rescan_interval cfg result);
                  (waits, going, st'') = discovery_loop L cfg uevents rounds st'
              in (wait # waits, going, st''))"

definition discovery_run ::
  "Lib \<Rightarrow> AgentConfig \<Rightarrow> KernelAnswers \<Rightarrow> UsbDevice list \<Rightarrow> ScanRound list \<Rightarrow> nat list \<times> bool \<times> DiscoveryState" where
  "discovery_run L cfg k objects rounds =
     discovery_loop L cfg (case snd (socket_open k) of Inr _ \<Rightarrow> True | Inl _ \<Rightarrow> False) rounds
       (recover_assignments cfg objects discovery_new)"

lemma scan_round_decides: "fst (scan_round L cfg r st) \<noteq> Inl NoDecision"
  unfolding scan_round_def by (rule scan_has_decisions)

lemma rescan_wait_bounded:
  "wait_for_usb_event uevents (1000 * rescan_interval cfg result) \<le> 1000 * unat (cfg_scan_interval cfg) + 2500"
proof -
  have "rescan_interval cfg result \<le> unat (cfg_scan_interval cfg)" by (simp add: rescan_interval_def Let_def)
  with wait_is_bounded [of uevents "1000 * rescan_interval cfg result"] show ?thesis by linarith
qed

lemma discovery_loop_Cons:
  "\<exists>wait. discovery_loop L cfg uevents (r # rounds) st =
     (let (waits, going, st') = discovery_loop L cfg uevents rounds (snd (scan_round L cfg r st)) in (wait # waits, going, st')) \<and>
     wait \<le> 1000 * unat (cfg_scan_interval cfg) + 2500"
proof -
  obtain result st1 where one: "scan_round L cfg r st = (result, st1)" by fastforce
  have "result \<noteq> Inl NoDecision" using scan_round_decides [of L cfg r st] one by simp
  then show ?thesis
    using rescan_wait_bounded [of "if uevents then Some (ro_arrivals r) else None" cfg result]
    by (intro exI [of _ "wait_for_usb_event (if uevents then Some (ro_arrivals r) else None) (1000 * rescan_interval cfg result)"])
      (auto simp: one split: prod.splits)
qed

text \<open>
  The agent never stops scanning: no scan panics, and between two scans it waits for no longer than the configured interval and two
  and a half seconds, with or without kernel events.
\<close>

theorem discovery_scans_for_ever:
  "\<exists>waits st. discovery_run L cfg k objects rounds = (waits, True, st) \<and> length waits = length rounds \<and>
     list_all (\<lambda>wait. wait \<le> 1000 * unat (cfg_scan_interval cfg) + 2500) waits"
proof -
  have "\<exists>waits st'. discovery_loop L cfg uevents rounds st = (waits, True, st') \<and> length waits = length rounds \<and>
      list_all (\<lambda>wait. wait \<le> 1000 * unat (cfg_scan_interval cfg) + 2500) waits" for uevents st
  proof (induction rounds arbitrary: st)
    case (Cons r rounds)
    from Cons.IH [of "snd (scan_round L cfg r st)"] obtain waits st' where
      "discovery_loop L cfg uevents rounds (snd (scan_round L cfg r st)) = (waits, True, st')" "length waits = length rounds"
      "list_all (\<lambda>wait. wait \<le> 1000 * unat (cfg_scan_interval cfg) + 2500) waits" by blast
    with discovery_loop_Cons [of L cfg uevents r rounds st] show ?case by (auto simp del: discovery_loop.simps)
  qed simp
  then show ?thesis unfolding discovery_run_def by blast
qed

section \<open>Names over many rounds\<close>

text \<open>
  A round in which a device stays plugged in and nothing speaks against its name: the scan fails, or it finds the device at its port, no other device is
  called like the name by its port, the object of the name, if the cache has one, is about this device, and no node that
  comes first in the order of names is known to have it.
\<close>

definition stays_plugged_in :: "Lib \<Rightarrow> AgentConfig \<Rightarrow> UsbDeviceInfo \<Rightarrow> string \<Rightarrow> ScanRound \<Rightarrow> bool" where
  "stays_plugged_in L cfg d name r \<longleftrightarrow>
     (case scan (ro_fs r) (cfg_sysfs_root cfg) of
        Inl _ \<Rightarrow> True
      | Inr scanned \<Rightarrow>
          distinct (map instance_key_of scanned) \<and> d \<in> set scanned \<and> published cfg d \<and>
          list_all (\<lambda>e. published cfg e \<and> e \<noteq> d \<longrightarrow> port_name L (fingerprint_of e) (cfg_node cfg) (ui_port_path e) \<noteq> name) scanned) \<and>
     is_none_or (\<lambda>obj. device_fingerprint obj = fingerprint_of d) (objects_by_name_of (ro_objects r) name) \<and>
     is_none_or (\<lambda>other. \<not> other < cfg_node cfg)
       (present_on_node (known_by_name_of (known_devices L cfg (ro_now r) (ro_objects r))) name)"

text \<open>The device has the name, it alone, and the exporter finds it under that name.\<close>

definition is_named :: "UsbDeviceInfo \<Rightarrow> Assignment \<Rightarrow> DiscoveryState \<Rightarrow> bool" where
  "is_named d a st \<longleftrightarrow> di_sticky st (instance_key_of d) = Some a \<and>
     (\<forall>k b. di_sticky st k = Some b \<longrightarrow> as_name b = as_name a \<longrightarrow> k = instance_key_of d)"

definition owns_name :: "UsbDeviceInfo \<Rightarrow> Assignment \<Rightarrow> DiscoveryState \<Rightarrow> bool" where
  "owns_name d a st \<longleftrightarrow> is_named d a st \<and> map_of (di_local st) (as_name a) = Some d"

lemma take_decisions_sticky_from:
  "take_decisions dec devices loc def st = Some (loc', def', st') \<Longrightarrow> di_sticky st' k = Some b \<Longrightarrow>
   di_sticky st k = Some b \<or> dec k = Some (Assigned b)"
  by (induction dec devices loc "def" st rule: take_decisions.induct)
    (fastforce split: option.splits Decision.splits if_splits)+

lemma map_of_view: "map_of loc name = Some (d, source) \<Longrightarrow> map_of (view_of loc) name = Some d"
  by (induction loc) (auto simp: view_of_def split: if_splits)

lemma view_of_map: "map_of (view_of loc) name = Some d \<Longrightarrow> \<exists>source. map_of loc name = Some (d, source)"
  by (induction loc) (auto simp: view_of_def split: if_splits)

lemma name_stays_decided:
  assumes plugged: "stays_plugged_in L cfg d (as_name a) r" and named: "is_named d a st"
    and scan: "scan (ro_fs r) (cfg_sysfs_root cfg) = Inr scanned"
  defines "devices \<equiv> filter (published cfg) scanned"
  defines "dec \<equiv> scan_decisions L (ro_server r) cfg (ro_now r) (ro_objects r) devices st"
    and "st1 \<equiv> refresh cfg (ag_clock (ro_server r) (di_log st)) (ro_objects r) devices st"
  shows "dec (instance_key_of d) = Some (Assigned a)"
    and "dec k = Some (Assigned b) \<Longrightarrow> as_name b = as_name a \<Longrightarrow> k = instance_key_of d"
    and "di_sticky st1 k = Some b \<Longrightarrow> as_name b = as_name a \<Longrightarrow> k = instance_key_of d"
proof -
  let ?k = "instance_key_of d"
  let ?ctx = "scan_context L cfg (ro_now r) (ag_clock (ro_server r) (di_log st)) (ro_objects r) devices st1"
  from plugged scan have scanned: "distinct (map instance_key_of scanned)" "d \<in> set scanned" "published cfg d"
    and ports: "\<And>e. e \<in> set devices \<Longrightarrow> e \<noteq> d \<Longrightarrow> port_name L (fingerprint_of e) (cfg_node cfg) (ui_port_path e) \<noteq> as_name a"
    by (auto simp: stays_plugged_in_def list_all_iff devices_def)
  have "distinct (map instance_key_of devices)" unfolding devices_def using scanned(1) by (rule distinct_map_filter)
  then have "collect_map (fingerprints_of devices) ?k = Some (fingerprint_of d)"
    unfolding fingerprints_of_def using scanned by (intro collect_map_key) (simp_all add: devices_def)
  then have sticky1: "ac_sticky ?ctx ?k = Some a"
    using named plugged by (auto simp: is_named_def scan_context_def st1_def refresh_def Let_def still_valid_def stays_plugged_in_def)
  show only1: "di_sticky st1 k = Some b \<Longrightarrow> as_name b = as_name a \<Longrightarrow> k = ?k" for k b
    using named by (auto simp: is_named_def st1_def refresh_def Let_def)
  then have only: "ac_sticky ?ctx k = Some b \<Longrightarrow> as_name b = as_name a \<Longrightarrow> k = ?k" for k b
    by (simp add: scan_context_def)
  have tie: "\<not> lost_tie ?ctx (known_by_name_of (ac_known ?ctx)) a"
    using plugged by (auto simp: lost_tie_def stays_plugged_in_def scan_context_def split: option.splits)
  have kept: "fst (kept_of ?ctx devices) ?k = Some (Assigned a)"
    by (rule sticky_is_kept [OF _ sticky1 tie]) (use scanned in \<open>simp add: devices_def\<close>, erule (1) only)
  then show "dec ?k = Some (Assigned a)"
    unfolding dec_def scan_decisions_def Let_def st1_def by (rule kept_is_assigned)
  assume b: "dec k = Some (Assigned b)" "as_name b = as_name a"
  show "k = ?k"
  proof (rule ccontr)
    assume "k \<noteq> ?k"
    with kept_name_exclusive [OF kept _ b(2)] b(1) have "is_fallback L ?ctx (fingerprints_of devices) k b"
      unfolding dec_def scan_decisions_def Let_def st1_def by blast
    then obtain e where e: "e \<in> set devices" "k = instance_key_of e" "b = port_fallback L ?ctx k (fingerprint_of e)"
      by (auto simp: is_fallback_def fingerprints_of_def)
    moreover from this have "port_name L (fingerprint_of e) (cfg_node cfg) (ui_port_path e) = as_name a"
      using b(2) by (simp add: port_fallback_def scan_context_def instance_key_of_def)
    ultimately show False using ports [of e] \<open>k \<noteq> ?k\<close> by auto
  qed
qed

lemma scan_finds_named:
  assumes "stays_plugged_in L cfg d (as_name a) r" and "is_named d a st" and "scan (ro_fs r) (cfg_sysfs_root cfg) = Inr scanned"
  shows "owns_name d a (snd (scan_round L cfg r st))"
proof -
  note decided = name_stays_decided [OF assms]
  from assms(1,3) have d: "d \<in> set (filter (published cfg) scanned)" and keys: "distinct (map instance_key_of scanned)"
    by (auto simp: stays_plugged_in_def)
  obtain deferred st' where run: "scan_once L (ro_server r) (ro_fs r) cfg (ro_now r) (ro_objects r) st = (Inr deferred, st')"
    using scan_once_succeeds [OF assms(3)] by blast
  obtain loc st2 where td: "take_decisions (scan_decisions L (ro_server r) cfg (ro_now r) (ro_objects r) (filter (published cfg) scanned) st)
      (filter (published cfg) scanned) [] False
      (refresh cfg (ag_clock (ro_server r) (di_log st)) (ro_objects r) (filter (published cfg) scanned) st) = Some (loc, deferred, st2)"
    and st': "di_local st' = view_of loc" "di_sticky st' = di_sticky st2"
    by (rule scan_once_Inr [OF run assms(3)])
  obtain e source where e: "map_of loc (as_name a) = Some (e, source)" using take_decisions_assigned [OF td d decided(1)] by auto
  with take_decisions_local [OF td] obtain b where b: "e \<in> set scanned"
    "scan_decisions L (ro_server r) cfg (ro_now r) (ro_objects r) (filter (published cfg) scanned) st (instance_key_of e) = Some (Assigned b)"
    "as_name b = as_name a" by fastforce
  then have "e = d" using decided(2) [OF b(2,3)] key_unique [OF keys] d by auto
  with e have "map_of (di_local st') (as_name a) = Some d" by (simp add: st' map_of_view)
  moreover have "di_sticky st' (instance_key_of d) = Some a" using take_decisions_sticky [OF td d decided(1)] by (simp add: st')
  moreover have "k = instance_key_of d" if "di_sticky st' k = Some b" "as_name b = as_name a" for k b
    using take_decisions_sticky_from [OF td] that(1) decided(2,3) that(2) unfolding st' by blast
  ultimately show ?thesis unfolding owns_name_def is_named_def scan_round_def run snd_conv by blast
qed

lemma scan_keeps_name:
  assumes "stays_plugged_in L cfg d (as_name a) r" and "owns_name d a st"
  shows "owns_name d a (snd (scan_round L cfg r st))"
proof (cases "scan (ro_fs r) (cfg_sysfs_root cfg)")
  case (Inl e)
  with assms(2) show ?thesis by (simp add: scan_round_def scan_once_def)
next
  case (Inr scanned)
  with assms show ?thesis by (intro scan_finds_named) (simp_all add: owns_name_def)
qed

text \<open>
  Property C25: names last. As long as a device stays plugged in, nothing speaks against its name and however many scans the agent makes, also failing ones, the device keeps the
  name it was given, no other device of the node gets it, and the exporter finds the device under it.
\<close>

theorem name_is_kept_while_plugged_in:
  assumes "list_all (stays_plugged_in L cfg d (as_name a)) rounds" and "owns_name d a st"
    and "discovery_loop L cfg uevents rounds st = (waits, going, st')"
  shows "owns_name d a st'"
  using assms
proof (induction rounds arbitrary: st waits)
  case (Cons r rounds)
  obtain waits' going' st'' where rest: "discovery_loop L cfg uevents rounds (snd (scan_round L cfg r st)) = (waits', going', st'')"
    by (metis prod_cases3)
  with discovery_loop_Cons [of L cfg uevents r rounds st] Cons.prems(3) have "going' = going" "st'' = st'"
    by (auto simp del: discovery_loop.simps)
  with Cons.IH [of "snd (scan_round L cfg r st)" waits'] rest Cons.prems scan_keeps_name show ?case by auto
qed simp

section \<open>Names over a restart\<close>

lemma recovered_is_named:
  assumes names: "distinct (map device_name_any objects)"
    and obj: "obj \<in> set objects" "recovered_key cfg obj = Some (instance_key_of d)"
    and uniq: "\<forall>x \<in> set objects. recovered_key cfg x = Some (instance_key_of d) \<longrightarrow> x = obj"
  shows "is_named d (recovered_as obj) (recover_assignments cfg objects discovery_new)"
  unfolding is_named_def
proof (intro conjI allI impI)
  show "di_sticky (recover_assignments cfg objects discovery_new) (instance_key_of d) = Some (recovered_as obj)"
    using recover_finds [OF obj uniq] by (simp add: recover_assignments_def)
  fix k b assume "di_sticky (recover_assignments cfg objects discovery_new) k = Some b" and b: "as_name b = as_name (recovered_as obj)"
  then obtain x where x: "x \<in> set objects" "recovered_key cfg x = Some k" "b = recovered_as x"
    using recover_only by (fastforce simp: recover_assignments_def discovery_new_def)
  with b have "x = obj" using names obj(1) key_unique by fastforce
  with x(2) obj(2) show "k = instance_key_of d" by simp
qed

text \<open>
  Property C24: a restart of the agent does not rename devices. The agent recovers the names it had published from the objects, and the
  first scan after the restart keeps the name of every device that is still plugged into the same port with the same
  device number and the same descriptors, unless another device is called like it by its port: the exporter finds this very device under
  its old name again, and no other device has the name.
\<close>

theorem restart_keeps_names:
  assumes "scan (ro_fs r) (cfg_sysfs_root cfg) = Inr scanned" and "distinct (map instance_key_of scanned)"
    and "d \<in> set scanned" and "published cfg d"
    and "\<forall>e \<in> set scanned. published cfg e \<and> e \<noteq> d \<longrightarrow> port_name L (fingerprint_of e) (cfg_node cfg) (ui_port_path e) \<noteq> device_name_any obj"
    and "distinct (map device_name_any (ro_objects r))" and "obj \<in> set (ro_objects r)"
    and "recovered_key cfg obj = Some (instance_key_of d)" and "device_fingerprint obj = fingerprint_of d"
    and "\<forall>x \<in> set (ro_objects r). recovered_key cfg x = Some (instance_key_of d) \<longrightarrow> x = obj"
  shows "owns_name d \<lparr>as_name = device_name_any obj, as_source = ds_identity (ud_spec obj)\<rparr>
    (snd (scan_round L cfg r (recover_assignments cfg (ro_objects r) discovery_new)))"
proof (rule scan_finds_named [OF _ recovered_is_named [OF assms(6-8,10)] assms(1)])
  have object: "objects_by_name_of (ro_objects r) (device_name_any obj) = Some obj"
    unfolding objects_by_name_of_def using assms(6,7) by (intro collect_map_key)
  have "is_none_or (\<lambda>other. \<not> other < cfg_node cfg)
      (present_on_node (known_by_name_of (known_devices L cfg (ro_now r) (ro_objects r))) (device_name_any obj))"
    using assms(8) by (simp add: present_on_node_def known_by_name_object [OF assms(6,7)] recovered_key_def split: if_splits)
  then show "stays_plugged_in L cfg d (as_name (recovered_as obj)) r"
    using assms(2-5,9) object by (simp add: stays_plugged_in_def list_all_iff assms(1))
qed

section \<open>A device that stays\<close>

definition kept_as :: Assignment where
  "kept_as = \<lparr>as_name = ''usb-a'', as_source = PortPath\<rparr>"

definition plugged_state :: DiscoveryState where
  "plugged_state = discovery_new\<lparr>di_sticky := [instance_key_of sample_device \<mapsto> kept_as], di_local := [(''usb-a'', sample_device)]\<rparr>"

definition sample_scan_round :: ScanRound where
  "sample_scan_round = \<lparr>ro_server = \<lparr>ag_reply = (\<lambda>log call. Written), ag_clock = (\<lambda>log. 1000 * NANOS)\<rparr>, ro_fs = sample_tree, ro_now = 1000,
     ro_objects = [], ro_arrivals = []\<rparr>"

lemma kept_owns: "owns_name sample_device kept_as plugged_state"
  by (auto simp: owns_name_def is_named_def plugged_state_def kept_as_def discovery_new_def split: if_splits)

lemma sample_stays: "stays_plugged_in sample_lib sample_cfg sample_device ''usb-a'' sample_scan_round"
  using sample_published
  by (simp add: stays_plugged_in_def sample_scan_round_def objects_by_name_of_def known_devices_def known_by_name_of_def present_on_node_def)

theorem name_is_kept_while_plugged_in_witness:
  "map_of (di_local (snd (snd (discovery_loop sample_lib sample_cfg True [sample_scan_round, sample_scan_round] plugged_state)))) ''usb-a'' = Some sample_device"
proof -
  obtain waits going st' where run: "discovery_loop sample_lib sample_cfg True [sample_scan_round, sample_scan_round] plugged_state = (waits, going, st')"
    by (metis prod_cases3)
  have "owns_name sample_device kept_as st'"
    by (rule name_is_kept_while_plugged_in [OF _ kept_owns run]) (simp add: sample_stays kept_as_def)
  then show ?thesis using run by (simp add: owns_name_def kept_as_def)
qed

theorem restart_keeps_names_witness:
  "map_of (di_local (snd (scan_round sample_lib sample_cfg (sample_scan_round\<lparr>ro_objects := [sample_object]\<rparr>)
     (recover_assignments sample_cfg [sample_object] discovery_new)))) ''usb-a'' = Some sample_device"
proof -
  have "owns_name sample_device \<lparr>as_name = device_name_any sample_object, as_source = ds_identity (ud_spec sample_object)\<rparr>
    (snd (scan_round sample_lib sample_cfg (sample_scan_round\<lparr>ro_objects := [sample_object]\<rparr>)
       (recover_assignments sample_cfg (ro_objects (sample_scan_round\<lparr>ro_objects := [sample_object]\<rparr>)) discovery_new)))"
    by (rule restart_keeps_names [where scanned = "[sample_device]"])
      (simp_all add: sample_recovered sample_published sample_scan_round_def,
       simp add: device_fingerprint_def fingerprint_of_def sample_object_def published_spec_def)
  then show ?thesis by (simp add: owns_name_def sample_object_def)
qed

end
