(* ===== verification/Heartbeat.thy ===== *)
theory Heartbeat
  imports DiscoveryRun Controller
begin

text \<open>
  The heartbeat from end to end: the agent's scan loop writes \<open>lastSeen\<close> only when it has to, the controller reports a device as lost when it has
  not been written for \<open>lost_after\<close> seconds. The lemmas follow one device through the rounds of the loop and bound the age of its
  last written heartbeat, over the three reasons for which a scan does not write it again.
\<close>

section \<open>One device of a scan\<close>

fun call_name :: "AgentCall \<Rightarrow> string" where
  "call_name (ApplyDevice name _ _) = name"
| "call_name (WriteStatus name _ _) = name"

definition server_accepts :: "AgentServer \<Rightarrow> string \<Rightarrow> bool" where
  "server_accepts srv name \<longleftrightarrow> (\<forall>log call. call_name call = name \<longrightarrow> ag_reply srv log call = Written)"

lemma accepted_publish:
  assumes "server_accepts srv name"
  shows "fst (publish L srv cfg name d source existing now st) = Inr ()"
  using assms by (auto simp: publish_def apply_spec_def write_heartbeat_def bounded_def server_accepts_def Let_def)

lemma publish_other:
  "publish L srv cfg name d source existing now st = (r, st') \<Longrightarrow> other \<noteq> name \<Longrightarrow> di_status_writes st' other = di_status_writes st other"
  by (auto simp: publish_def apply_spec_def write_heartbeat_def bounded_def Let_def split: prod.splits sum.splits if_splits)

lemma publish_cases:
  assumes "publish L srv cfg name d source existing now st = (Inr (), st')"
  obtains (wrote) calls where "di_log st' = di_log st @ calls @ [WriteStatus name None (heartbeat_of L cfg now d)]"
      "di_status_writes st' name = Some (desired_status cfg d, ag_clock srv (di_log st'))"
  | (observed) obj age where "existing = Some obj" "age_secs L (st_last_seen (status_ref obj)) now = Some age"
      "age < sint (cfg_heartbeat_interval cfg)" "di_status_writes st' name = di_status_writes st name"
  | (recent) v at where "di_status_writes st name = Some (v, at)" "di_status_writes st' name = di_status_writes st name"
      "ag_clock srv (di_log st') - at < unat (cfg_heartbeat_interval cfg) * NANOS"
proof -
  let ?desired = "desired_status cfg d" and ?observed = "Option.bind existing ud_status"
  obtain r st1 where a: "apply_spec srv cfg name d source existing st = (r, st1)" by fastforce
  with assms have r: "r = Inr ()" by (auto simp: publish_def split: sum.splits)
  have st1: "\<exists>calls. di_log st1 = di_log st @ calls" "di_status_writes st1 = di_status_writes st"
    using a by (auto simp: apply_spec_def bounded_def Let_def split: if_splits)
  consider "written_recently srv cfg name ?desired st1" | "status_current ?desired ?observed \<and> \<not> heartbeat_due L cfg now ?observed"
    | "\<not> ((status_current ?desired ?observed \<and> \<not> heartbeat_due L cfg now ?observed) \<or> written_recently srv cfg name ?desired st1)" by blast
  then show ?thesis
  proof cases
    case 1
    moreover from this assms a r have "st' = st1" by (simp add: publish_def Let_def)
    ultimately show ?thesis using st1(2) recent by (auto simp: written_recently_def is_some_and_iff NANOS_def)
  next
    case 2
    moreover from this assms a r have "st' = st1" by (simp add: publish_def Let_def)
    ultimately show ?thesis
      using st1(2) observed by (auto simp: heartbeat_due_def is_none_or_iff bind_eq_Some_conv status_ref_def)
  next
    case 3
    with assms a r have "write_heartbeat L srv name ?desired now st1 = (Inr (), st')" by (simp add: publish_def Let_def)
    with st1(1) wrote show ?thesis
      by (auto simp: write_heartbeat_def bounded_def heartbeat_of_def split: WriteReply.splits)
  qed
qed

lemma publish_all_at:
  assumes "distinct (map fst loc)" and "(name, (d, source)) \<in> set loc"
  obtains st1 st2 r calls1 calls2 where "publish L srv cfg name d source (objects name) now st1 = (r, st2)"
    "di_status_writes st1 name = di_status_writes st name" "di_log st1 = di_log st @ calls1"
    "di_status_writes (publish_all L srv cfg objects now loc st) name = di_status_writes st2 name"
    "di_log (publish_all L srv cfg objects now loc st) = di_log st2 @ calls2"
  using assms
proof (induction loc arbitrary: st thesis)
  case (Cons x rest)
  obtain n e s where x: "x = (n, (e, s))" by (metis surj_pair)
  obtain r st1 where p: "publish L srv cfg n e s (objects n) now st = (r, st1)" by fastforce
  obtain calls where calls: "di_log st1 = di_log st @ calls" using publish_calls [OF p] by blast
  show ?case
  proof (cases "n = name")
    case True
    with Cons.prems x have "(e, s) = (d, source)" by (auto simp: rev_image_eqI)
    moreover have "di_status_writes (publish_all L srv cfg objects now rest st') name = di_status_writes st' name" for st'
      using Cons.prems(2) unfolding x True
    proof (induction rest arbitrary: st')
      case (Cons y rest)
      obtain m f u where y: "y = (m, (f, u))" by (metis surj_pair)
      obtain q st'' where "publish L srv cfg m f u (objects m) now st' = (q, st'')" by fastforce
      with Cons y publish_other show ?case by fastforce
    qed simp
    moreover obtain calls2 where "di_log (publish_all L srv cfg objects now rest st1) = di_log st1 @ calls2"
      using publish_all_calls by blast
    ultimately show ?thesis using Cons.prems(1) [of st r st1 "[]" calls2] p x True by simp
  next
    case False
    with Cons.prems x have "distinct (map fst rest)" "(name, (d, source)) \<in> set rest" by auto
    then show ?thesis
    proof (rule Cons.IH [rotated, where st = st1])
      fix st1' st2 q c1 c2
      assume "publish L srv cfg name d source (objects name) now st1' = (q, st2)"
        "di_status_writes st1' name = di_status_writes st1 name" "di_log st1' = di_log st1 @ c1"
        "di_status_writes (publish_all L srv cfg objects now rest st1) name = di_status_writes st2 name"
        "di_log (publish_all L srv cfg objects now rest st1) = di_log st2 @ c2"
      with publish_other [OF p, of name] False calls x p show ?thesis by (intro Cons.prems(1) [of st1' q st2 "calls @ c1" c2]) auto
    qed
  qed
qed simp

lemma scan_publishes:
  assumes "scan_once L srv fs cfg now objects st = (Inr deferred, st')" and "map_of (di_local st') name = Some d" and "server_accepts srv name"
  obtains st1 st2 source calls1 calls2 where "publish L srv cfg name d source (objects_by_name_of objects name) now st1 = (Inr (), st2)"
    "di_status_writes st1 name = di_status_writes st name" "di_status_writes st' name = di_status_writes st2 name"
    "di_log st1 = di_log st @ calls1" "di_log st' = di_log st2 @ calls2"
proof -
  obtain scanned where sc: "scan fs (cfg_sysfs_root cfg) = Inr scanned"
    using assms(1) by (auto simp: scan_once_def split: sum.splits)
  let ?devices = "filter (published cfg) scanned"
  let ?st1 = "refresh cfg (ag_clock srv (di_log st)) objects ?devices st"
  from assms(1) sc obtain loc st2 where td: "take_decisions (scan_decisions L srv cfg now objects ?devices st) ?devices [] False ?st1 = Some (loc, deferred, st2)"
    and st': "st' = (mark_gone L srv cfg now loc objects (publish_all L srv cfg (objects_by_name_of objects) now loc (publish_local loc st2)))
      \<lparr>di_status_writes := retain (\<lambda>name _. map_of loc name \<noteq> None)
        (di_status_writes (mark_gone L srv cfg now loc objects (publish_all L srv cfg (objects_by_name_of objects) now loc (publish_local loc st2))))\<rparr>"
    by (auto simp: scan_once_def scan_decisions_def Let_def split: option.splits)
  let ?all = "publish_all L srv cfg (objects_by_name_of objects) now loc (publish_local loc st2)"
  have "di_local st' = view_of loc" using publish_all_frame by (simp add: st' mark_gone_log publish_local_def)
  with assms(2) obtain source where at: "map_of loc name = Some (d, source)" using view_of_map by metis
  have frame: "di_log st2 = di_log st" "di_status_writes st2 = di_status_writes st"
    using take_decisions_frame [OF td] by (simp_all add: refresh_def Let_def)
  have writes: "di_status_writes st' name = di_status_writes ?all name" "\<exists>calls. di_log st' = di_log ?all @ calls"
    by (auto simp: st' mark_gone_log retain_def at split: option.splits)
  have "distinct (map fst loc)" using take_decisions_sorted [OF td] by (simp add: bt_sorted_distinct)
  then show ?thesis
  proof (rule publish_all_at [OF _ map_of_SomeD [OF at], where L = L and srv = srv and cfg = cfg and objects = "objects_by_name_of objects"
        and now = now and st = "publish_local loc st2"])
    fix s1 s2 r c1 c2
    assume p: "publish L srv cfg name d source (objects_by_name_of objects name) now s1 = (r, s2)"
      "di_status_writes s1 name = di_status_writes (publish_local loc st2) name" "di_log s1 = di_log (publish_local loc st2) @ c1"
      "di_status_writes ?all name = di_status_writes s2 name" "di_log ?all = di_log s2 @ c2"
    moreover have "r = Inr ()" using accepted_publish [OF assms(3), of L cfg d source "objects_by_name_of objects name" now s1] p(1) by simp
    ultimately show ?thesis using that writes frame by (auto simp: publish_local_def)
  qed
qed

section \<open>The life of a heartbeat\<close>

text \<open>
  What the environment has to keep to: the API accepts the writes about the device; the monotonic clock keeps step with the wall clock,
  which is rounded to seconds, and a scan is over \<open>S\<close> seconds after it began; the cache shows no heartbeat that was not written.
\<close>

definition in_step :: "int \<Rightarrow> nat \<Rightarrow> ScanRound \<Rightarrow> bool" where
  "in_step off S r \<longleftrightarrow> (\<forall>log. (ro_now r + off - 1) * int NANOS \<le> int (ag_clock (ro_server r) log) \<and>
     int (ag_clock (ro_server r) log) \<le> (ro_now r + off + int S) * int NANOS)"

definition cache_not_ahead :: "Lib \<Rightarrow> string \<Rightarrow> seconds \<Rightarrow> ScanRound \<Rightarrow> bool" where
  "cache_not_ahead L name w r =
     is_none_or (\<lambda>obj. is_none_or (\<lambda>age. ro_now r - age \<le> w) (age_secs L (st_last_seen (status_ref obj)) (ro_now r)))
       (objects_by_name_of (ro_objects r) name)"

definition beats_in :: "Lib \<Rightarrow> AgentConfig \<Rightarrow> string \<Rightarrow> UsbDeviceInfo \<Rightarrow> ScanRound \<Rightarrow> DiscoveryState \<Rightarrow> bool" where
  "beats_in L cfg name d r st \<longleftrightarrow>
     WriteStatus name None (heartbeat_of L cfg (ro_now r) d) \<in> set (drop (length (di_log st)) (di_log (snd (scan_round L cfg r st))))"

text \<open>
  The rounds through which the agent serves a device, from the one in which it first publishes it: the state, the time of the last heartbeat written, the
  time of the last scan and the wait after it in milliseconds. The next scan begins when the wait is over.
\<close>

inductive serves ::
  "Lib \<Rightarrow> AgentConfig \<Rightarrow> bool \<Rightarrow> int \<Rightarrow> nat \<Rightarrow> string \<Rightarrow> UsbDeviceInfo \<Rightarrow> DiscoveryState \<Rightarrow> seconds \<Rightarrow> seconds \<Rightarrow> nat \<Rightarrow> bool"
  for L cfg uevents off S name d where
  first: "scan_round L cfg r st = (Inr deferred, st') \<Longrightarrow> map_of (di_local st') name = Some d \<Longrightarrow>
    objects_by_name_of (ro_objects r) name = None \<Longrightarrow> di_status_writes st name = None \<Longrightarrow> server_accepts (ro_server r) name \<Longrightarrow> in_step off S r \<Longrightarrow>
    wait = wait_for_usb_event (if uevents then Some (ro_arrivals r) else None) (1000 * rescan_interval cfg (Inr deferred)) \<Longrightarrow>
    serves L cfg uevents off S name d st' (ro_now r) (ro_now r) wait"
| again: "serves L cfg uevents off S name d st w prev wait \<Longrightarrow> prev \<le> ro_now r \<Longrightarrow> ro_now r \<le> prev + int S + int (wait div 1000) + 2 \<Longrightarrow>
    scan_round L cfg r st = (Inr deferred, st') \<Longrightarrow> map_of (di_local st') name = Some d \<Longrightarrow>
    cache_not_ahead L name w r \<Longrightarrow> server_accepts (ro_server r) name \<Longrightarrow> in_step off S r \<Longrightarrow>
    wait' = wait_for_usb_event (if uevents then Some (ro_arrivals r) else None) (1000 * rescan_interval cfg (Inr deferred)) \<Longrightarrow>
    serves L cfg uevents off S name d st' (if beats_in L cfg name d r st then ro_now r else w) (ro_now r) wait'"

definition beat_ok :: "AgentConfig \<Rightarrow> int \<Rightarrow> nat \<Rightarrow> string \<Rightarrow> DiscoveryState \<Rightarrow> seconds \<Rightarrow> seconds \<Rightarrow> bool" where
  "beat_ok cfg off S name st w prev \<longleftrightarrow> w \<le> prev \<and> prev - w \<le> int (unat (cfg_heartbeat_interval cfg)) + int S + 1 \<and>
     is_none_or (\<lambda>(_, at). int at \<le> (w + off + int S) * int NANOS) (di_status_writes st name)"

lemma recent_is_young:
  assumes "(now + off - 1) * int NANOS \<le> int c" and "int at \<le> (w + off + int S) * int NANOS" and "c - at < hb * NANOS"
  shows "now - w \<le> int hb + int S + 1"
proof -
  have "int c - int at < int hb * int NANOS + int NANOS"
    using assms(3) by (simp add: NANOS_def)
  with assms(1,2) have "(now + off - 1) * int NANOS < (w + off + int S + int hb + 1) * int NANOS" by (simp add: algebra_simps)
  then have "now + off - 1 < w + off + int S + int hb + 1" by (simp add: NANOS_def)
  then show ?thesis by simp
qed

lemma round_beats:
  assumes run: "scan_round L cfg r st = (Inr deferred, st')" and view: "map_of (di_local st') name = Some d"
    and env: "server_accepts (ro_server r) name" "in_step off S r"
  obtains (wrote) "beats_in L cfg name d r st" "is_none_or (\<lambda>(_, at). int at \<le> (ro_now r + off + int S) * int NANOS) (di_status_writes st' name)"
  | (observed) obj age where "objects_by_name_of (ro_objects r) name = Some obj"
      "age_secs L (st_last_seen (status_ref obj)) (ro_now r) = Some age" "age < sint (cfg_heartbeat_interval cfg)"
      "di_status_writes st' name = di_status_writes st name"
  | (recent) v at c where "di_status_writes st name = Some (v, at)" "di_status_writes st' name = di_status_writes st name"
      "(ro_now r + off - 1) * int NANOS \<le> int c" "c - at < unat (cfg_heartbeat_interval cfg) * NANOS"
proof -
  let ?srv = "ro_server r"
  from run have "scan_once L ?srv (ro_fs r) cfg (ro_now r) (ro_objects r) st = (Inr deferred, st')" by (simp add: scan_round_def)
  then obtain st1 st2 source calls1 calls2 where
    p: "publish L ?srv cfg name d source (objects_by_name_of (ro_objects r) name) (ro_now r) st1 = (Inr (), st2)"
    and w: "di_status_writes st1 name = di_status_writes st name" "di_status_writes st' name = di_status_writes st2 name"
    and log: "di_log st1 = di_log st @ calls1" "di_log st' = di_log st2 @ calls2"
    by (rule scan_publishes [OF _ view env(1)])
  from p show ?thesis
  proof (cases rule: publish_cases)
    case (wrote calls)
    then have "beats_in L cfg name d r st" by (simp add: beats_in_def run log)
    with wrote(2) w that(1) env(2) show ?thesis by (simp add: in_step_def)
  next
    case (observed obj age)
    with w that(2) show ?thesis by simp
  next
    case (recent v at)
    with w that(3) [of v at "ag_clock ?srv (di_log st2)"] env(2) show ?thesis by (simp add: in_step_def)
  qed
qed

lemma sint_le_unat: "sint w \<le> int (unat w)"
proof -
  have "- (2 ^ (LENGTH('a) - 1)) \<le> uint (w :: 'a :: len word)" by (rule order_trans [of _ 0]) simp_all
  then show ?thesis by (simp add: sint_uint signed_take_bit_int_less_eq_self_iff)
qed

lemma NANOS_pos: "0 < int NANOS"
  by (simp add: NANOS_def)

lemma serves_beat_ok: "serves L cfg uevents off S name d st w prev wait \<Longrightarrow> beat_ok cfg off S name st w prev"
proof (induction rule: serves.induct)
  case (first r st deferred st' wait)
  from first(1,2,5,6) show ?case
  proof (cases rule: round_beats)
    case wrote
    then show ?thesis by (simp add: beat_ok_def)
  qed (use first in auto)
next
  case (again st w prev wait r deferred st' wait')
  have later: "is_none_or (\<lambda>(_, at). int at \<le> (ro_now r + off + int S) * int NANOS) (di_status_writes st name)"
  proof (cases "di_status_writes st name")
    case (Some x)
    have "(w + off + int S) * int NANOS \<le> (ro_now r + off + int S) * int NANOS"
      using again(2,10) NANOS_pos by (intro mult_right_mono) (auto simp: beat_ok_def)
    with again(10) Some show ?thesis by (auto simp: beat_ok_def)
  qed simp
  have w: "w \<le> ro_now r" using again(2,10) by (simp add: beat_ok_def)
  from again(4,5,7,8) show ?case
  proof (cases rule: round_beats)
    case wrote
    then show ?thesis by (simp add: beat_ok_def)
  next
    case (observed obj age)
    then have "ro_now r - w \<le> int (unat (cfg_heartbeat_interval cfg)) + int S + 1"
      using again(6) sint_le_unat [of "cfg_heartbeat_interval cfg"] by (auto simp: cache_not_ahead_def)
    with again(10) w later observed(4) show ?thesis by (auto simp: beat_ok_def)
  next
    case (recent v at c)
    then have "ro_now r - w \<le> int (unat (cfg_heartbeat_interval cfg)) + int S + 1"
      using again(10) recent_is_young [OF recent(3) _ recent(4)] by (auto simp: beat_ok_def)
    with again(10) w later recent(2) show ?thesis by (auto simp: beat_ok_def)
  qed
qed

lemma serves_wait: "serves L cfg uevents off S name d st w prev wait \<Longrightarrow> wait \<le> 1000 * unat (cfg_scan_interval cfg) + 2500"
  by (erule serves.cases) (simp_all only: rescan_wait_bounded)

text \<open>
  Property C9: a device that is served is never reported lost. The agent writes the heartbeat of a device only when the one it sees is due, and not
  again while its own last write may not have reached its cache. Still, while its scans take at most \<open>S\<close> seconds and the API accepts its
  writes about the device, the heartbeat on the object is never older than the heartbeat interval, the scan interval, \<open>2 S\<close> and six seconds;
  if the configured time until a device is lost is not shorter than that, the controller never finds the heartbeat missed and
  the device stays available, up to the moment the next scan may at last begin.
\<close>

theorem served_device_is_never_lost:
  assumes "time_contract L" and "serves L cfg uevents off S name d st w prev wait"
    and "int (unat (cfg_heartbeat_interval cfg)) + int (unat (cfg_scan_interval cfg)) + 2 * int S + 6 \<le> lost_after"
    and "ud_status obj = Some (merge_status (heartbeat_of L cfg w d) before)"
    and "t \<le> prev + int S + int (wait div 1000) + 2"
  shows "is_available L obj t lost_after \<and> \<not> heartbeat_missed L t lost_after obj"
proof -
  have "prev - w \<le> int (unat (cfg_heartbeat_interval cfg)) + int S + 1" using serves_beat_ok [OF assms(2)] by (simp add: beat_ok_def)
  moreover have "int (wait div 1000) \<le> int (unat (cfg_scan_interval cfg)) + 2"
    using serves_wait [OF assms(2)] by linarith
  ultimately have young: "t \<le> w + lost_after" using assms(3,5) by linarith
  then have available: "is_available L obj t lost_after"
    using heartbeat_makes_available [OF assms(1,4), of t lost_after] by blast
  have "st_last_seen (status_ref obj) = Some (rfc3339 L w)"
    using assms(4) by (simp add: status_ref_def merge_status_def heartbeat_of_def)
  then have "\<not> heartbeat_missed L t lost_after obj" using young age_secs_rfc3339 [OF assms(1)] by (simp add: heartbeat_missed_def)
  with available show ?thesis ..
qed

lemma sample_serves:
  "\<exists>st wait. serves sample_lib sample_cfg True 0 0 ''usb-a'' sample_device st 1000 1000 wait"
proof -
  have "owns_name sample_device kept_as (snd (scan_round sample_lib sample_cfg sample_scan_round plugged_state))"
    using scan_keeps_name [OF _ kept_owns] sample_stays by (simp add: kept_as_def)
  moreover obtain deferred st' where run: "scan_round sample_lib sample_cfg sample_scan_round plugged_state = (Inr deferred, st')"
    using scan_once_succeeds [OF sample_published(2), of sample_lib "ro_server sample_scan_round" 1000 "[]" plugged_state]
    by (auto simp: scan_round_def sample_scan_round_def)
  ultimately have "map_of (di_local st') ''usb-a'' = Some sample_device" by (simp add: owns_name_def kept_as_def)
  then have "serves sample_lib sample_cfg True 0 0 ''usb-a'' sample_device st' (ro_now sample_scan_round) (ro_now sample_scan_round)
      (wait_for_usb_event (if True then Some (ro_arrivals sample_scan_round) else None) (1000 * rescan_interval sample_cfg (Inr deferred)))"
    by (rule serves.first [OF run])
      (simp_all add: sample_scan_round_def objects_by_name_of_def plugged_state_def discovery_new_def server_accepts_def in_step_def NANOS_def)
  then show ?thesis by (auto simp: sample_scan_round_def)
qed

theorem served_device_is_never_lost_witness:
  "\<exists>st w prev wait. serves sample_lib sample_cfg True 0 0 ''usb-a'' sample_device st w prev wait \<and>
     is_available sample_lib (sample_object\<lparr>ud_status := Some (merge_status (heartbeat_of sample_lib sample_cfg w sample_device) EMPTY_STATUS)\<rparr>)
       (prev + 2) 90"
proof -
  obtain st wait where s: "serves sample_lib sample_cfg True 0 0 ''usb-a'' sample_device st 1000 1000 wait" using sample_serves by blast
  have "is_available sample_lib (sample_object\<lparr>ud_status := Some (merge_status (heartbeat_of sample_lib sample_cfg 1000 sample_device) EMPTY_STATUS)\<rparr>) 1002 90"
    using served_device_is_never_lost [OF time_sample s, of 90
        "sample_object\<lparr>ud_status := Some (merge_status (heartbeat_of sample_lib sample_cfg 1000 sample_device) EMPTY_STATUS)\<rparr>" EMPTY_STATUS 1002]
    by (simp add: sample_cfg_def)
  with s show ?thesis by (intro exI conjI) auto
qed

end
