(* ===== verification/AgentRun.thy ===== *)
theory AgentRun
  imports Startup ControlLoop DiscoveryRun ExportSafety
begin

text \<open>
  How the parts are put together: \<open>run\<close> of \<open>src/agent/mod.rs\<close>, the listener of the exporter (\<open>Exporter::run\<close>), the options of a TCP connection, and the
  choice of the command in \<open>src/main.rs\<close>. The command line is already parsed and logging is left out; the answers of the system and of the client library
  are arguments.
\<close>

section \<open>The exporter's listener\<close>

definition show_socket_addr :: "SocketAddr \<Rightarrow> string" where
  "show_socket_addr a =
     (if CHR '':'' \<in> set (sa_ip a) then ''['' @ sa_ip a @ '']'' else sa_ip a) @ '':'' @ show_nat (unat (sa_port a))"

definition exporter_bind :: "AgentConfig \<Rightarrow> string + unit \<Rightarrow> string + unit" where
  "exporter_bind cfg answer =
     (case answer of
        Inl e \<Rightarrow> Inl (''binding '' @ show_socket_addr (cfg_listen cfg) @ '': '' @ e)
      | Inr _ \<Rightarrow> Inr ())"

definition ACCEPT_RETRY :: nat where
  "ACCEPT_RETRY = 100"

text \<open>
  The accept loop: a connection becomes a handler of its own, a failed accept is retried after a pause. The result is the events of the exporter and the
  milliseconds paused.
\<close>

fun accept_loop :: "(string + unit) list \<Rightarrow> Event list \<times> nat" where
  "accept_loop [] = ([], 0)"
| "accept_loop (Inr _ # rest) = (let (events, paused) = accept_loop rest in (Accept # events, paused))"
| "accept_loop (Inl err # rest) = (let (events, paused) = accept_loop rest in (events, ACCEPT_RETRY + paused))"

lemma accept_loop_counts:
  "accept_loop answers = (events, paused) \<Longrightarrow>
   events = replicate (length (filter (\<lambda>a. a = Inr ()) answers)) Accept \<and>
   paused = ACCEPT_RETRY * length (filter (\<lambda>a. a \<noteq> Inr ()) answers)"
  by (induction answers arbitrary: events paused rule: accept_loop.induct) (auto simp: Let_def split: prod.splits)

section \<open>Connections\<close>

record TcpOptions =
  tcp_nodelay :: bool
  tcp_keepalive_time :: nat
  tcp_keepalive_interval :: nat
  tcp_keepalive_retries :: nat
  tcp_user_timeout :: nat

definition tune_tcp :: TcpOptions where
  "tune_tcp = \<lparr>tcp_nodelay = True, tcp_keepalive_time = 20, tcp_keepalive_interval = 10, tcp_keepalive_retries = 4, tcp_user_timeout = 60\<rparr>"

text \<open>
  When a silent peer is given up, in seconds: an idle connection after its last probe went unanswered, one with data in flight after the user timeout. Both
  are the minute of the comment.
\<close>

definition noticed_dead_after :: "TcpOptions \<Rightarrow> nat \<times> nat" where
  "noticed_dead_after o1 = (tcp_keepalive_time o1 + tcp_keepalive_interval o1 * tcp_keepalive_retries o1, tcp_user_timeout o1)"

lemma dead_peer_noticed_within_a_minute: "noticed_dead_after tune_tcp = (60, 60)"
  by (simp add: noticed_dead_after_def tune_tcp_def)

section \<open>The agent\<close>

datatype AgentBranch = ExporterBranch | DiscoveryBranch | AttacherBranch | ShutdownBranch

text \<open>
  Whether a branch of the final \<open>select!\<close> has completed, and with what: the exporter only if it cannot bind, the discovery and the attacher never
  (their loops have no exit, see \<open>discovery_loop\<close> and \<open>attacher_round\<close>), the last one when a signal arrives.
\<close>

fun branch_result :: "AgentConfig \<Rightarrow> string + unit \<Rightarrow> bool \<Rightarrow> AgentBranch \<Rightarrow> (string + unit) option" where
  "branch_result cfg bind signal ExporterBranch =
     (case exporter_bind cfg bind of Inl e \<Rightarrow> Some (Inl (''exporter: '' @ e)) | Inr _ \<Rightarrow> None)"
| "branch_result cfg bind signal DiscoveryBranch = None"
| "branch_result cfg bind signal AttacherBranch = None"
| "branch_result cfg bind signal ShutdownBranch = (if signal then Some (Inr ()) else None)"

text \<open>\<open>select!\<close> looks at its branches in a random order and takes the first that has completed; \<^const>\<open>None\<close> while there is none.\<close>

definition agent_run ::
  "AgentConfig \<Rightarrow> string + bytes \<Rightarrow> string + unit \<Rightarrow> string + unit \<Rightarrow> bool \<Rightarrow> AgentBranch list \<Rightarrow> (string + unit) option" where
  "agent_run cfg key_file ready bind signal order =
     (case agent_start cfg key_file of
        Inl e \<Rightarrow> Some (Inl e)
      | Inr _ \<Rightarrow>
          (case ready of
             Inl e \<Rightarrow> Some (Inl (''waiting for initial lists: '' @ e))
           | Inr _ \<Rightarrow>
               (case List.map_filter (branch_result cfg bind signal) order of [] \<Rightarrow> None | r # _ \<Rightarrow> Some r)))"

lemma set_map_filter_iff: "y \<in> set (List.map_filter f xs) \<longleftrightarrow> (\<exists>x \<in> set xs. f x = Some y)"
  by (induction xs) (auto simp: List.map_filter_simps split: option.splits)

text \<open>
  The agent ends for a reason. It runs as long as it could read the key, fill its caches and bind its listener and no signal has come; it
  ends without an error only after a signal, and with one only if the key, a cache or the listener failed. What its parts meet later does not end it.
\<close>

theorem agent_ends_for_a_reason:
  assumes "set order = UNIV"
  shows "case agent_run cfg key_file ready bind signal order of
      None \<Rightarrow> agent_start cfg key_file = Inr () \<and> ready = Inr () \<and> bind = Inr () \<and> \<not> signal
    | Some (Inr _) \<Rightarrow> agent_start cfg key_file = Inr () \<and> ready = Inr () \<and> signal
    | Some (Inl _) \<Rightarrow> \<not> (agent_start cfg key_file = Inr () \<and> ready = Inr () \<and> bind = Inr ())"
proof (cases "agent_start cfg key_file = Inr () \<and> ready = Inr ()")
  case True
  have exporter: "branch_result cfg bind signal ExporterBranch = None \<longleftrightarrow> bind = Inr ()"
    by (auto simp: exporter_bind_def split: sum.split)
  show ?thesis
  proof (cases "List.map_filter (branch_result cfg bind signal) order")
    case Nil
    then have none: "branch_result cfg bind signal b = None" for b
      using set_map_filter_iff [of _ "branch_result cfg bind signal" order] assms by (cases "branch_result cfg bind signal b") auto
    from none [of ShutdownBranch] have "\<not> signal" by (simp split: if_splits)
    moreover have "bind = Inr ()" using none [of ExporterBranch] exporter by simp
    ultimately show ?thesis using Nil True by (simp add: agent_run_def)
  next
    case (Cons r rest)
    then obtain b where b: "branch_result cfg bind signal b = Some r"
      using set_map_filter_iff [of r "branch_result cfg bind signal" order] by auto
    with Cons True exporter show ?thesis by (cases b) (auto simp: agent_run_def exporter_bind_def split: sum.splits if_splits)
  qed
next
  case False
  then show ?thesis by (auto simp: agent_run_def split: sum.splits)
qed

theorem agent_ends_for_a_reason_witness:
  "agent_run sample_cfg (Inr (replicate 16 (CHR ''k''))) (Inr ()) (Inr ()) False [ShutdownBranch, AttacherBranch, DiscoveryBranch, ExporterBranch] = None"
proof -
  have all: "set [ShutdownBranch, AttacherBranch, DiscoveryBranch, ExporterBranch] = UNIV" using AgentBranch.exhaust by auto
  have key: "agent_start sample_cfg (Inr (replicate 16 (CHR ''k''))) = Inr ()" by code_simp
  show ?thesis
    using agent_ends_for_a_reason [OF all, of sample_cfg "Inr (replicate 16 (CHR ''k''))" "Inr ()" "Inr ()" False] key
    by (auto split: option.splits sum.splits)
qed

section \<open>From the scan to the exporter\<close>

lemma local_view_is_scanned:
  assumes "scan_round L cfg r st = (Inr deferred, st')" and "scan (ro_fs r) (cfg_sysfs_root cfg) = Inr scanned"
    and "map_of (di_local st') name = Some d"
  shows "d \<in> set scanned \<and> published cfg d"
proof -
  from assms(1) have "scan_once L (ro_server r) (ro_fs r) cfg (ro_now r) (ro_objects r) st = (Inr deferred, st')" by (simp add: scan_round_def)
  then obtain loc st2 where td: "take_decisions (scan_decisions L (ro_server r) cfg (ro_now r) (ro_objects r) (filter (published cfg) scanned) st)
      (filter (published cfg) scanned) [] False
      (refresh cfg (ag_clock (ro_server r) (di_log st)) (ro_objects r) (filter (published cfg) scanned) st) = Some (loc, deferred, st2)"
    and view: "di_local st' = view_of loc"
    by (rule scan_once_Inr [OF _ assms(2)])
  from assms(3) obtain source where "map_of loc name = Some (d, source)" using view view_of_map by metis
  from take_decisions_local [OF td this] show ?thesis by auto
qed

text \<open>
  Property C15: unplugging a device ends its sessions: when the exporter sweeps its sessions with the devices of a scan, every session whose device
  the scan did not find under the same bus address has been told to stop, in whatever state its handler is.
\<close>

theorem unplugging_ends_the_sessions:
  assumes "scan_round L cfg r st = (Inr deferred, st')" and "scan (ro_fs r) (cfg_sysfs_root cfg) = Inr scanned"
    and "exporter_run L show_err cfg events s" and "ex_next_token s < 2 ^ 64" and "ex_local s = di_local st'"
    and "ex_step L show_err cfg s SweepRemoved = Some s'" and "ex_tasks s' k = Some pc" and "session_of pc = Some se"
    and "bus_dev (se_info se) \<notin> bus_dev ` set scanned"
  shows "se_token se \<in> set (ex_cancelled s')"
proof (rule ccontr)
  assume "se_token se \<notin> set (ex_cancelled s')"
  from sweep_leaves_present_devices [OF assms(3,4,6-8) this] obtain d where
    d: "map_of (di_local st') (se_device se) = Some d" "bus_dev d = bus_dev (se_info se)" unfolding assms(5) by blast
  from local_view_is_scanned [OF assms(1,2) d(1)] d(2) assms(9) show False by (metis imageI)
qed

text \<open>The sample session serves a device that the sample scan does not find.\<close>

theorem unplugging_ends_the_sessions_witness:
  "\<exists>events s s'. exporter_run sample_lib sample_show sample_cfg events s \<and>
     ex_step sample_lib sample_show sample_cfg s SweepRemoved = Some s' \<and> se_token sample_session \<in> set (ex_cancelled s')"
proof -
  obtain deferred st' where scan: "scan_round sample_lib sample_cfg sample_scan_round plugged_state = (Inr deferred, st')"
    using scan_once_succeeds [OF sample_published(2), of sample_lib "ro_server sample_scan_round" 1000 "[]" plugged_state]
    by (auto simp: scan_round_def sample_scan_round_def)
  obtain s where s: "exporter_run sample_lib sample_show sample_cfg sample_events s" "ex_tasks s 0 = Some (Serving sample_session Opening)"
    "ex_next_token s = 1"
    using sample_served by blast
  let ?s1 = "s\<lparr>ex_local := di_local st'\<rparr>"
  have run: "exporter_run sample_lib sample_show sample_cfg (sample_events @ [PublishLocal (di_local st')]) ?s1"
    by (rule exporter_run.step [OF s(1)]) simp
  have gone: "bus_dev (se_info sample_session) \<notin> bus_dev ` set [sample_device]"
    by (simp add: bus_dev_def sample_session_def sample_info_def sample_device_def show_nat.simps digit_def)
  have "se_token sample_session \<in> set (ex_cancelled (sweep_removed (ex_local ?s1) ?s1))"
    by (rule unplugging_ends_the_sessions [OF scan _ run _ _ _ _ _ gone, where k = 0 and pc = "Serving sample_session Opening"])
      (simp_all add: s sample_published(2) sample_scan_round_def)
  with run show ?thesis by fastforce
qed

section \<open>The command\<close>

record ScanArgs =
  sca_sysfs_root :: string
  sca_node_name :: string

datatype Command = AgentCommand AgentArgs | ControllerCommand ControllerArgs | CrdsCommand | ScanCommand ScanArgs

datatype CommandOutcome =
    RunsAgent AgentConfig
  | RunsController ControllerConfig
  | Prints string
  | PrintsRows "ScanRow option list"
  | CommandFails string

text \<open>\<open>client\<close> is the answer of the client library to creating a client, \<open>crds\<close> the rendered definitions of the two resources, if rendering works.\<close>

definition main_command ::
  "Lib \<Rightarrow> FileSystem \<Rightarrow> string + unit \<Rightarrow> (string + string) \<times> (string + string) \<Rightarrow> Command \<Rightarrow> CommandOutcome" where
  "main_command L fs client crds command =
     (case command of
        AgentCommand args \<Rightarrow>
          (case client of
             Inl e \<Rightarrow> CommandFails (''creating Kubernetes client: '' @ e)
           | Inr _ \<Rightarrow> (case agent_config L args of Inl e \<Rightarrow> CommandFails e | Inr cfg \<Rightarrow> RunsAgent cfg))
      | ControllerCommand args \<Rightarrow>
          (case client of
             Inl e \<Rightarrow> CommandFails (''creating Kubernetes client: '' @ e)
           | Inr _ \<Rightarrow> RunsController (controller_config args))
      | CrdsCommand \<Rightarrow>
          (case crds of
             (Inl e, _) \<Rightarrow> CommandFails e
           | (Inr device, Inl e) \<Rightarrow> CommandFails e
           | (Inr device, Inr claim) \<Rightarrow> Prints (device @ ''---'' @ [CHR 0x0A] @ claim))
      | ScanCommand args \<Rightarrow>
          (case scan_command L fs (sca_sysfs_root args) (sca_node_name args) of
             Inl e \<Rightarrow> CommandFails e
           | Inr rows \<Rightarrow> PrintsRows rows))"

end
