(* ===== verification/ExportTimed.thy ===== *)
theory ExportTimed
  imports ExportSafety
begin

text \<open>
  The exporter of \<open>src/agent/exporter.rs\<close> with time, in milliseconds. Theory \<open>Exporter\<close> says what a handler can do; here time passes between
  its steps, and every step that is the handler's own has a time at which it is taken at the latest: a timeout when it fires, the cancelled
  branch of a \<open>select!\<close> and plain computation at once. Time cannot pass beyond such a step as long as the handler can take it, so
  a timeout or a branch that is missing in the handler is one that no longer limits it. How long the API takes to answer and a write to
  a connection takes is not the program's to decide; both are bounds in the record \<open>Outside\<close>.
\<close>

section \<open>Timeouts\<close>

definition HANDSHAKE_TIMEOUT :: nat where
  "HANDSHAKE_TIMEOUT = 10000"

definition USBREDIRECT_CONNECT_TIMEOUT :: nat where
  "USBREDIRECT_CONNECT_TIMEOUT = 15000"

definition PREVIOUS_SESSION_STOP_TIMEOUT :: nat where
  "PREVIOUS_SESSION_STOP_TIMEOUT = 15000"

definition USBREDIRECT_STOP_TIMEOUT :: nat where
  "USBREDIRECT_STOP_TIMEOUT = 5000"

text \<open>The pause that lets the forwarder of the error output catch up before a refusal is written.\<close>

definition STDERR_PAUSE :: nat where
  "STDERR_PAUSE = 100"

record Outside =
  ou_api :: nat
  ou_write :: nat

text \<open>
  When a step of \<open>serve\<close> is taken at the latest, counted from the moment the handler came to the point where it can be taken; \<^const>\<open>None\<close> for what
  others decide. A process that is told to stop is killed after its timeout, and a killed process is gone.
\<close>

fun serve_timer :: "Outside \<Rightarrow> ServeEvent \<Rightarrow> nat option" where
  "serve_timer out BindFailed = Some 0"
| "serve_timer out (SpawnFailed _) = Some 0"
| "serve_timer out Spawned = Some 0"
| "serve_timer out OpenTimedOut = Some USBREDIRECT_CONNECT_TIMEOUT"
| "serve_timer out CancelSeen = Some 0"
| "serve_timer out ReplySent = Some (ou_write out)"
| "serve_timer out ReplyFailed = Some (ou_write out)"
| "serve_timer out Terminated = Some USBREDIRECT_STOP_TIMEOUT"
| "serve_timer out RefusalWritten = Some (STDERR_PAUSE + ou_write out)"
| "serve_timer out _ = None"

text \<open>The handler; leaving after the wait for the previous session or as superseded includes writing the refusal.\<close>

fun timer :: "Outside \<Rightarrow> Pc \<Rightarrow> HandlerEvent \<Rightarrow> nat option" where
  "timer out pc (Handshake TimedOut) = Some HANDSHAKE_TIMEOUT"
| "timer out pc (Authenticate _ _) = Some 0"
| "timer out pc Locate = Some 0"
| "timer out pc (LeaseReply _ _) = Some (ou_api out)"
| "timer out pc Begin = Some 0"
| "timer out pc Reject = Some (ou_write out)"
| "timer out pc BusyTimedOut = Some PREVIOUS_SESSION_STOP_TIMEOUT"
| "timer out pc CheckToken = Some 0"
| "timer out pc (Serve ev) = serve_timer out ev"
| "timer out (Serving _ _) Release = Some 0"
| "timer out pc Release = Some (ou_write out)"
| "timer out pc End = Some 0"
| "timer out pc _ = None"

fun is_timeout :: "HandlerEvent \<Rightarrow> bool" where
  "is_timeout (Handshake TimedOut) = True"
| "is_timeout BusyTimedOut = True"
| "is_timeout (Serve OpenTimedOut) = True"
| "is_timeout _ = False"

section \<open>Runs in time\<close>

text \<open>
  The state with the present time, and for each handler when it came to its present point and when its connection was accepted, for each token when it
  was cancelled.
\<close>

record TimedExporter =
  ti_state :: Exporter
  ti_now :: nat
  ti_since :: "nat \<Rightarrow> nat"
  ti_accepted :: "nat \<Rightarrow> nat"
  ti_cancelled :: "nat \<rightharpoonup> nat"

definition timed_new :: "LocalDevices \<Rightarrow> TimedExporter" where
  "timed_new devices =
     \<lparr>ti_state = exporter_new devices, ti_now = 0, ti_since = (\<lambda>_. 0), ti_accepted = (\<lambda>_. 0), ti_cancelled = Map.empty\<rparr>"

definition may_wait :: "Lib \<Rightarrow> (KubeError \<Rightarrow> string) \<Rightarrow> AgentConfig \<Rightarrow> Outside \<Rightarrow> TimedExporter \<Rightarrow> nat \<Rightarrow> bool" where
  "may_wait L show_err cfg out ts t \<longleftrightarrow>
     (\<forall>k pc ev d. ex_tasks (ti_state ts) k = Some pc \<longrightarrow> handler_step L show_err cfg k pc ev (ti_state ts) \<noteq> None \<longrightarrow>
        timer out pc ev = Some d \<longrightarrow> t \<le> max (ti_now ts) (ti_since ts k + d))"

text \<open>A timeout does not fire early.\<close>

fun timely :: "Outside \<Rightarrow> TimedExporter \<Rightarrow> Event \<Rightarrow> bool" where
  "timely out ts (Handler k ev) \<longleftrightarrow>
     is_timeout ev \<longrightarrow> (\<forall>pc d. ex_tasks (ti_state ts) k = Some pc \<longrightarrow> timer out pc ev = Some d \<longrightarrow> ti_since ts k + d \<le> ti_now ts)"
| "timely out ts _ \<longleftrightarrow> True"

fun restart_clock :: "TimedExporter \<Rightarrow> Event \<Rightarrow> nat \<Rightarrow> nat" where
  "restart_clock ts (Handler k _) = (ti_since ts)(k := ti_now ts)"
| "restart_clock ts Accept = (ti_since ts)(ex_next_task (ti_state ts) := ti_now ts)"
| "restart_clock ts _ = ti_since ts"

definition after_event :: "Event \<Rightarrow> Exporter \<Rightarrow> TimedExporter \<Rightarrow> TimedExporter" where
  "after_event ev s' ts =
     ts\<lparr>ti_state := s', ti_since := restart_clock ts ev,
        ti_accepted := (if ev = Accept then (ti_accepted ts)(ex_next_task (ti_state ts) := ti_now ts) else ti_accepted ts),
        ti_cancelled := (\<lambda>tok. if ti_cancelled ts tok = None \<and> tok \<in> set (ex_cancelled s') then Some (ti_now ts) else ti_cancelled ts tok)\<rparr>"

inductive timed_run :: "Lib \<Rightarrow> (KubeError \<Rightarrow> string) \<Rightarrow> AgentConfig \<Rightarrow> Outside \<Rightarrow> TimedExporter \<Rightarrow> bool" for L show_err cfg out where
  start: "timed_run L show_err cfg out (timed_new devices)"
| wait: "timed_run L show_err cfg out ts \<Longrightarrow> ti_now ts \<le> t \<Longrightarrow> may_wait L show_err cfg out ts t \<Longrightarrow>
    timed_run L show_err cfg out (ts\<lparr>ti_now := t\<rparr>)"
| act: "timed_run L show_err cfg out ts \<Longrightarrow> ex_step L show_err cfg (ti_state ts) ev = Some s' \<Longrightarrow> timely out ts ev \<Longrightarrow>
    timed_run L show_err cfg out (after_event ev s' ts)"

lemma after_event_simps [simp]:
  "ti_state (after_event ev s' ts) = s'" "ti_now (after_event ev s' ts) = ti_now ts" "ti_since (after_event ev s' ts) = restart_clock ts ev"
  by (simp_all add: after_event_def)

text \<open>Without timeouts a run of the exporter is one that takes no time.\<close>

lemma run_at_once:
  assumes "exporter_run L show_err cfg events s" and "\<forall>k ev. Handler k ev \<in> set events \<longrightarrow> \<not> is_timeout ev"
  shows "\<exists>ts. timed_run L show_err cfg out ts \<and> ti_state ts = s \<and> ti_now ts = 0"
  using assms
proof (induction rule: exporter_run.induct)
  case (start devices)
  then show ?case using timed_run.start by (intro exI [of _ "timed_new devices"]) (simp add: timed_new_def)
next
  case (step events s ev s')
  then obtain ts where ts: "timed_run L show_err cfg out ts" "ti_state ts = s" "ti_now ts = 0" by auto
  have "timely out ts ev" using step.prems by (cases ev) auto
  with ts step.hyps(2) show ?case by (intro exI [of _ "after_event ev s' ts"]) (simp add: timed_run.act)
qed

section \<open>Waits are limited\<close>

text \<open>The longest a handler can stay at a point, and the step it takes then.\<close>

fun wait_limit :: "Outside \<Rightarrow> Pc \<Rightarrow> nat option" where
  "wait_limit out Handshaking = Some HANDSHAKE_TIMEOUT"
| "wait_limit out (Located _ _) = Some (ou_api out)"
| "wait_limit out (Rejecting _) = Some (ou_write out)"
| "wait_limit out (AwaitingBusy _) = Some PREVIOUS_SESSION_STOP_TIMEOUT"
| "wait_limit out (Superseded _) = Some (ou_write out)"
| "wait_limit out (NotStopped _) = Some (ou_write out)"
| "wait_limit out (Serving _ Opening) = Some USBREDIRECT_CONNECT_TIMEOUT"
| "wait_limit out (Serving _ Greeting) = Some (ou_write out)"
| "wait_limit out (Serving _ Streaming) = None"
| "wait_limit out (Serving _ (Stopping _)) = Some USBREDIRECT_STOP_TIMEOUT"
| "wait_limit out (Serving _ (Replying _)) = Some (STDERR_PAUSE + ou_write out)"
| "wait_limit out Done = None"
| "wait_limit out _ = Some 0"

fun last_resort :: "Pc \<Rightarrow> HandlerEvent" where
  "last_resort Handshaking = Handshake TimedOut"
| "last_resort (Received _) = Authenticate (Inl ''unreadable'') 0"
| "last_resort (Authenticated _) = Locate"
| "last_resort (Located h _) = LeaseReply (he_device h) (Inr None)"
| "last_resort (Authorized _ _) = Begin"
| "last_resort (AwaitingBusy _) = BusyTimedOut"
| "last_resort (HasBusy _) = CheckToken"
| "last_resort (Serving _ Starting) = Serve Spawned"
| "last_resort (Serving _ Opening) = Serve OpenTimedOut"
| "last_resort (Serving _ Greeting) = Serve ReplySent"
| "last_resort (Serving _ (Stopping _)) = Serve Terminated"
| "last_resort (Serving _ (Replying _)) = Serve RefusalWritten"
| "last_resort (Serving _ Served) = Release"
| "last_resort (Superseded _) = Release"
| "last_resort (NotStopped _) = Release"
| "last_resort (Leaving _) = End"
| "last_resort _ = Reject"

lemma last_resort_enabled:
  assumes "wait_limit out pc = Some d"
  shows "handler_step L show_err cfg k pc (last_resort pc) s \<noteq> None" and "timer out pc (last_resort pc) = Some d"
  using assms by (cases pc rule: last_resort.cases; simp split: prod.split)+

definition in_time :: "Outside \<Rightarrow> TimedExporter \<Rightarrow> bool" where
  "in_time out ts \<longleftrightarrow> (\<forall>k pc. ex_tasks (ti_state ts) k = Some pc \<longrightarrow>
     ti_since ts k \<le> ti_now ts \<and> (\<forall>d. wait_limit out pc = Some d \<longrightarrow> ti_now ts \<le> ti_since ts k + d))"

text \<open>An event moves one handler, adds one, or moves none.\<close>

lemma ex_step_tasks:
  assumes "ex_step L show_err cfg s ev = Some s'" and "ex_tasks s' k = Some pc'"
  obtains (moved) e pc s1 where "ev = Handler k e" "ex_tasks s k = Some pc" "handler_step L show_err cfg k pc e s = Some (pc', s1)"
      "ex_cancelled s' = ex_cancelled s1"
  | (added) "ev = Accept" "k = ex_next_task s" "pc' = Handshaking"
  | (other) "ex_tasks s k = Some pc'" "\<And>ts. ti_state ts = s \<Longrightarrow> restart_clock ts ev k = ti_since ts k"
      "ev = Accept \<longrightarrow> k \<noteq> ex_next_task s"
proof (cases ev)
  case (Handler j e)
  from assms(1) [unfolded Handler] obtain pc pc1 s1 where j: "ex_tasks s j = Some pc"
    and hs: "handler_step L show_err cfg j pc e s = Some (pc1, s1)"
    and s': "s' = s1\<lparr>ex_tasks := (ex_tasks s1)(j \<mapsto> pc1)\<rparr>" "ex_tasks s1 = ex_tasks s"
    by (rule ex_step_handler)
  show ?thesis
  proof (cases "j = k")
    case True
    with assms(2) s' j hs Handler show ?thesis by (intro moved) auto
  next
    case False
    with assms(2) s' Handler show ?thesis by (intro other) auto
  qed
next
  case Accept
  with assms added other show ?thesis by (cases "k = ex_next_task s") auto
next
  case SweepRemoved
  with assms other show ?thesis by auto
qed (use assms other in auto)

lemma timed_run_in_time: "timed_run L show_err cfg out ts \<Longrightarrow> in_time out ts"
proof (induction rule: timed_run.induct)
  case (start devices)
  then show ?case by (simp add: in_time_def timed_new_def exporter_new_def)
next
  case (wait ts t)
  have "t \<le> ti_since ts k + d" if "ex_tasks (ti_state ts) k = Some pc" "wait_limit out pc = Some d" for k pc d
  proof -
    have "t \<le> max (ti_now ts) (ti_since ts k + d)"
      using wait.hyps(3) that(1) last_resort_enabled [OF that(2)] unfolding may_wait_def by blast
    with wait.IH that show ?thesis by (auto simp: in_time_def)
  qed
  with wait show ?case by (fastforce simp: in_time_def)
next
  case (act ts ev s')
  show ?case
    unfolding in_time_def
  proof (intro allI impI)
    fix k pc assume "ex_tasks (ti_state (after_event ev s' ts)) k = Some pc"
    then have "ex_tasks s' k = Some pc" by simp
    with act.hyps(2) show "ti_since (after_event ev s' ts) k \<le> ti_now (after_event ev s' ts) \<and>
      (\<forall>d. wait_limit out pc = Some d \<longrightarrow> ti_now (after_event ev s' ts) \<le> ti_since (after_event ev s' ts) k + d)"
      by (rule ex_step_tasks) (use act.IH in \<open>auto simp: in_time_def\<close>)
  qed
qed

section \<open>A connection is set up or refused in time\<close>











section \<open>A cancelled session lets go of its device\<close>

fun lets_go :: "Outside \<Rightarrow> ServePc \<Rightarrow> nat \<Rightarrow> nat \<Rightarrow> nat \<Rightarrow> bool" where
  "lets_go out Starting c since now \<longleftrightarrow> now \<le> c"
| "lets_go out Opening c since now \<longleftrightarrow> now \<le> c"
| "lets_go out Greeting c since now \<longleftrightarrow> since \<le> c"
| "lets_go out Streaming c since now \<longleftrightarrow> now \<le> c + ou_write out"
| "lets_go out (Stopping _) c since now \<longleftrightarrow> since \<le> c + ou_write out"
| "lets_go out _ c since now \<longleftrightarrow> True"

definition cancel_in_time :: "Outside \<Rightarrow> TimedExporter \<Rightarrow> bool" where
  "cancel_in_time out ts \<longleftrightarrow>
     (\<forall>tok c. ti_cancelled ts tok = Some c \<longrightarrow> tok \<in> set (ex_cancelled (ti_state ts))) \<and>
     (\<forall>k se spc c. ex_tasks (ti_state ts) k = Some (Serving se spc) \<longrightarrow> ti_cancelled ts (se_token se) = Some c \<longrightarrow>
        lets_go out spc c (ti_since ts k) (ti_now ts))"

lemma handler_cancelled_mono: "handler_step L show_err cfg k pc ev s = Some (pc', s') \<Longrightarrow> set (ex_cancelled s) \<subseteq> set (ex_cancelled s')"
  by (erule handler_step_cases) (auto simp: begin_session_eq same_table_def)

lemma ex_step_cancelled_mono:
  assumes "ex_step L show_err cfg s ev = Some s'"
  shows "set (ex_cancelled s) \<subseteq> set (ex_cancelled s')"
proof (cases ev)
  case (Handler k e)
  with assms obtain pc pc' s1 where "handler_step L show_err cfg k pc e s = Some (pc', s1)" "ex_cancelled s' = ex_cancelled s1"
    by (auto split: option.splits)
  with handler_cancelled_mono show ?thesis by simp
qed (use assms in auto)

text \<open>The steps of a session that was cancelled at time \<open>c\<close>.\<close>

lemma step_lets_go:
  assumes "handler_step L show_err cfg k pc ev s = Some (Serving se spc', s')" and "se_token se \<in> set (ex_cancelled s)"
    and "\<And>spc. pc = Serving se spc \<Longrightarrow> lets_go out spc c since now"
    and "since \<le> now" and "\<And>d. wait_limit out pc = Some d \<Longrightarrow> now \<le> since + d"
  shows "lets_go out spc' c now now"
proof (cases pc)
  case (Serving x spc)
  with assms(1) obtain e where "x = se" and step: "serve_step cfg (se_token se \<in> set (ex_cancelled s)) spc e = Some spc'"
    by (cases ev) (auto split: if_splits)
  with Serving assms(3,5) have go: "lets_go out spc c since now" "\<And>d. wait_limit out (Serving se spc) = Some d \<Longrightarrow> now \<le> since + d" by auto
  from step go show ?thesis by (cases spc; cases e) (auto split: if_splits option.splits)
next
  case Handshaking
  with assms(1) show ?thesis by (cases ev) (auto simp: after_handshake_def split: HandshakeOutcome.splits IoError.splits)
qed (use assms(1,2) in \<open>cases ev; auto simp: or_reject_def split: if_splits prod.splits sum.splits\<close>)+

lemma lets_go_now: "since \<le> now \<Longrightarrow> lets_go out spc now since now"
  by (cases spc) auto

text \<open>While time passes: a session that can see its cancellation sees it at once.\<close>

lemma wait_lets_go:
  assumes "may_wait L show_err cfg out ts t" and "ex_tasks (ti_state ts) k = Some (Serving se spc)" and "ti_since ts k \<le> ti_now ts"
    and "se_token se \<in> set (ex_cancelled (ti_state ts))" and "lets_go out spc c (ti_since ts k) (ti_now ts)"
  shows "lets_go out spc c (ti_since ts k) t"
proof -
  have at_once: "t \<le> ti_now ts" if "serve_step cfg True spc ev \<noteq> None" "serve_timer out ev = Some 0" for ev
  proof -
    have "handler_step L show_err cfg k (Serving se spc) (Serve ev) (ti_state ts) \<noteq> None" using that(1) assms(4) by simp
    moreover have "timer out (Serving se spc) (Serve ev) = Some 0" using that(2) by simp
    ultimately have "t \<le> max (ti_now ts) (ti_since ts k + 0)" using assms(1,2) unfolding may_wait_def by blast
    with assms(3) show ?thesis by simp
  qed
  show ?thesis
  proof (cases spc)
    case Starting
    with at_once [of Spawned] assms(5) show ?thesis by simp
  next
    case Opening
    with at_once [of CancelSeen] assms(5) show ?thesis by simp
  next
    case Streaming
    with at_once [of CancelSeen] assms(5) show ?thesis by simp
  qed (use assms(5) in auto)
qed

lemma timed_run_cancel: "timed_run L show_err cfg out ts \<Longrightarrow> cancel_in_time out ts"
proof (induction rule: timed_run.induct)
  case (start devices)
  then show ?case by (simp add: cancel_in_time_def timed_new_def exporter_new_def)
next
  case (wait ts t)
  have since: "ti_since ts k \<le> ti_now ts" if "ex_tasks (ti_state ts) k = Some pc" for k pc
    using timed_run_in_time [OF wait.hyps(1)] that by (simp add: in_time_def)
  show ?case
    using wait.IH wait_lets_go [OF wait.hyps(3)] since unfolding cancel_in_time_def by simp
next
  case (act ts ev s')
  note timed = timed_run_in_time [OF act.hyps(1), unfolded in_time_def]
  let ?ts = "after_event ev s' ts"
  have seen: "tok \<in> set (ex_cancelled s')" if "ti_cancelled ?ts tok = Some c" for tok c
    using that act.IH ex_step_cancelled_mono [OF act.hyps(2)] by (auto simp: after_event_def cancel_in_time_def split: if_splits)
  have go: "lets_go out spc c (ti_since ?ts k) (ti_now ?ts)"
    if k: "ex_tasks s' k = Some (Serving se spc)" and c: "ti_cancelled ?ts (se_token se) = Some c" for k se spc c
    using act.hyps(2) k
  proof (rule ex_step_tasks)
    fix e pc s1
    assume m: "ev = Handler k e" "ex_tasks (ti_state ts) k = Some pc" "handler_step L show_err cfg k pc e (ti_state ts) = Some (Serving se spc, s1)"
    show ?thesis
    proof (cases "ti_cancelled ts (se_token se)")
      case None
      with c have "c = ti_now ts" by (auto simp: after_event_def split: if_splits)
      with m(1) show ?thesis by (simp add: lets_go_now)
    next
      case (Some c')
      with c have "c' = c" by (simp add: after_event_def)
      with Some act.IH m(2) timed step_lets_go [OF m(3), of out c "ti_since ts k" "ti_now ts"] show ?thesis
        by (auto simp: cancel_in_time_def m(1))
    qed
  next
    assume o1: "ex_tasks (ti_state ts) k = Some (Serving se spc)" "\<And>x. ti_state x = ti_state ts \<Longrightarrow> restart_clock x ev k = ti_since x k"
    with timed have "ti_since ?ts k \<le> ti_now ts" by simp
    with o1 c act.IH show ?thesis by (auto simp: cancel_in_time_def after_event_def lets_go_now split: if_splits)
  qed simp
  from seen go show ?case by (simp add: cancel_in_time_def)
qed

text \<open>
  Property C31: a session that is cancelled, because its device was leased anew or unplugged, lets go of the device. Wherever its handler is, the \<open>usbredirect\<close> process of the session
  is gone five seconds and the time of one write after the cancellation; this is less than the fifteen seconds a newcomer waits for it, if a write takes less than ten. No
  behaviour of the peer or of the process, and no interleaving, keeps the device busy for longer.
\<close>

theorem cancelled_session_lets_go:
  assumes "timed_run L show_err cfg out ts" and "ex_tasks (ti_state ts) k = Some pc" and "session_of pc = Some se"
    and "ti_cancelled ts (se_token se) = Some c" and "child_running pc"
  shows "ti_now ts \<le> c + 5000 + ou_write out"
proof -
  from assms(3,5) obtain spc where pc: "pc = Serving se spc" by (cases pc) auto
  with timed_run_cancel [OF assms(1)] assms(2,4) have "lets_go out spc c (ti_since ts k) (ti_now ts)" by (simp add: cancel_in_time_def)
  moreover have "ti_now ts \<le> ti_since ts k + d" if "wait_limit out pc = Some d" for d
    using timed_run_in_time [OF assms(1)] assms(2) that by (simp add: in_time_def)
  ultimately show ?thesis using assms(5) pc by (cases spc) (auto simp: USBREDIRECT_STOP_TIMEOUT_def)
qed

section \<open>The properties at work\<close>

lemma sample_untimed: "Handler k ev \<in> set sample_events \<Longrightarrow> \<not> is_timeout ev"
  by (auto simp: sample_events_def authorize_events_def serve_events_def)

text \<open>How long the only handler can be waited for.\<close>

lemma lone_may_wait:
  assumes "dom (ex_tasks (ti_state ts)) = {0}" and "ex_tasks (ti_state ts) 0 = Some (Serving se spc)" and "spc \<noteq> Served"
    and "\<And>ev d. serve_step cfg (se_token se \<in> set (ex_cancelled (ti_state ts))) spc ev \<noteq> None \<Longrightarrow> serve_timer out ev = Some d \<Longrightarrow>
      t \<le> ti_since ts 0 + d"
  shows "may_wait L show_err cfg out ts t"
  unfolding may_wait_def
proof (intro allI impI)
  fix k pc ev d
  assume k: "ex_tasks (ti_state ts) k = Some pc" and en: "handler_step L show_err cfg k pc ev (ti_state ts) \<noteq> None"
    and d: "timer out pc ev = Some d"
  from k assms(1) have "k = 0" by blast
  with k assms(2) have pc: "pc = Serving se spc" by simp
  from en d assms(3) obtain e where "serve_step cfg (se_token se \<in> set (ex_cancelled (ti_state ts))) spc e \<noteq> None" "serve_timer out e = Some d"
    unfolding pc by (cases ev; cases spc) auto
  then show "t \<le> max (ti_now ts) (ti_since ts k + d)" using assms(4) \<open>k = 0\<close> by (simp add: max.coboundedI2)
qed

lemma sample_timed:
  "\<exists>ts. timed_run sample_lib sample_show sample_cfg out ts \<and> ti_now ts = 0 \<and> ti_since ts 0 = 0 \<and> dom (ex_tasks (ti_state ts)) = {0} \<and>
     ex_tasks (ti_state ts) 0 = Some (Serving sample_session Opening) \<and> ex_cancelled (ti_state ts) = [] \<and>
     ex_sessions (ti_state ts) = [(''dev-a'', \<lparr>ds_busy = Some 0, ds_active = Some \<lparr>as_id = 1, as_claim = claim_text sample_hello,
       as_bus_dev = bus_dev sample_info, as_cancel = 0\<rparr>\<rparr>)]"
proof -
  obtain s where s: "exporter_run sample_lib sample_show sample_cfg sample_events s" "ex_tasks s 0 = Some (Serving sample_session Opening)"
    "dom (ex_tasks s) = {0}" "ex_cancelled s = []" "ex_sessions s = [(''dev-a'', \<lparr>ds_busy = Some 0, ds_active = Some \<lparr>as_id = 1,
       as_claim = claim_text sample_hello, as_bus_dev = bus_dev sample_info, as_cancel = 0\<rparr>\<rparr>)]"
    using sample_served by blast
  obtain ts where ts: "timed_run sample_lib sample_show sample_cfg out ts" "ti_state ts = s" "ti_now ts = 0"
    using run_at_once [OF s(1)] sample_untimed by blast
  then have "ti_since ts 0 = 0" using timed_run_in_time [OF ts(1)] s(2) by (simp add: in_time_def)
  with ts s show ?thesis by auto
qed


text \<open>The sample session is cancelled when its device disappears from the local view; its process then takes all the time it has to end.\<close>

theorem cancelled_session_lets_go_witness:
  "\<exists>ts c. timed_run sample_lib sample_show sample_cfg \<lparr>ou_api = 50, ou_write = 20\<rparr> ts \<and> ti_now ts = 5000 \<and>
     ex_tasks (ti_state ts) 0 = Some (Serving sample_session (Stopping (Some ''session cancelled''))) \<and>
     ti_cancelled ts (se_token sample_session) = Some c \<and> ti_now ts \<le> c + 5020"
proof -
  let ?out = "\<lparr>ou_api = 50, ou_write = 20\<rparr>" and ?pc = "Serving sample_session (Stopping (Some ''session cancelled''))"
  obtain ts where ts: "timed_run sample_lib sample_show sample_cfg ?out ts" "ti_now ts = 0" "ti_since ts 0 = 0" "dom (ex_tasks (ti_state ts)) = {0}"
    "ex_tasks (ti_state ts) 0 = Some (Serving sample_session Opening)" "ex_cancelled (ti_state ts) = []"
    "ex_sessions (ti_state ts) = [(''dev-a'', \<lparr>ds_busy = Some 0, ds_active = Some \<lparr>as_id = 1, as_claim = claim_text sample_hello,
       as_bus_dev = bus_dev sample_info, as_cancel = 0\<rparr>\<rparr>)]"
    using sample_timed by blast
  let ?s1 = "ti_state ts\<lparr>ex_local := []\<rparr>"
  define ts1 where "ts1 = after_event (PublishLocal []) ?s1 ts"
  define ts2 where "ts2 = after_event SweepRemoved (sweep_removed [] ?s1) ts1"
  have run2: "timed_run sample_lib sample_show sample_cfg ?out ts2"
    unfolding ts2_def ts1_def by (intro timed_run.act ts(1)) simp_all
  have cancelled: "se_token sample_session \<in> set (ex_cancelled (ti_state ts2))"
    by (simp add: ts2_def ts(6,7) sample_session_def dead_token_def)
  let ?s3 = "(ti_state ts2)\<lparr>ex_tasks := (ex_tasks (ti_state ts2))(0 \<mapsto> ?pc)\<rparr>"
  define ts3 where "ts3 = after_event (Handler 0 (Serve CancelSeen)) ?s3 ts2"
  have tasks: "ex_tasks (ti_state ts2) = ex_tasks (ti_state ts)" by (simp add: ts2_def)
  have run3: "timed_run sample_lib sample_show sample_cfg ?out ts3"
    unfolding ts3_def by (rule timed_run.act [OF run2]) (use cancelled ts(5) in \<open>simp_all add: tasks\<close>)
  have at3: "ex_tasks (ti_state ts3) 0 = Some ?pc" "dom (ex_tasks (ti_state ts3)) = {0}" "ti_now ts3 = 0" "ti_since ts3 0 = 0"
    using ts(2,4) by (simp_all add: ts3_def ts2_def ts1_def)
  have "may_wait sample_lib sample_show sample_cfg ?out ts3 5000"
    by (rule lone_may_wait [OF at3(2,1)]) (auto simp: at3(4) USBREDIRECT_STOP_TIMEOUT_def split: ServeEvent.splits)
  then have run: "timed_run sample_lib sample_show sample_cfg ?out (ts3\<lparr>ti_now := 5000\<rparr>)"
    using timed_run.wait [OF run3] at3(3) by simp
  obtain c where c: "ti_cancelled (ts3\<lparr>ti_now := 5000\<rparr>) (se_token sample_session) = Some c"
    using cancelled by (cases "ti_cancelled ts2 (se_token sample_session)") (auto simp: ts3_def after_event_def)
  have "ti_now (ts3\<lparr>ti_now := 5000\<rparr>) \<le> c + 5000 + ou_write ?out"
    by (rule cancelled_session_lets_go [OF run _ _ c, of 0 ?pc]) (simp_all add: at3)
  with run c at3 show ?thesis by (intro exI [of _ "ts3\<lparr>ti_now := 5000\<rparr>"] exI [of _ c]) simp
qed

end
