(* ===== verification/TestsController.thy ===== *)
theory TestsController
  imports Controller Utf8
begin

text \<open>
  The unit tests of \<open>src/controller.rs\<close>, on the model: each test is a proposition over the test's own fixtures, and a lemma
  shows that it holds. Time stamps are read by a table of the ones that occur.
\<close>

section \<open>Slots\<close>

definition req :: "string \<Rightarrow> string \<Rightarrow> int option \<Rightarrow> int option \<Rightarrow> SlotRequest" where
  "req uid vm pinned previous = \<lparr>sr_uid = uid, sr_name = uid, sr_vm = (''default'', vm), sr_pinned = pinned, sr_previous = previous\<rparr>"

definition slots_are_allocated_from_the_top :: bool where
  "slots_are_allocated_from_the_top \<longleftrightarrow>
     (let slots = allocate_slots [req ''a'' ''vm-a'' None None, req ''b'' ''vm-a'' None None, req ''c'' ''vm-b'' None None]
      in slots ''a'' = Some (Inr 3) \<and> slots ''b'' = Some (Inr 2) \<and> slots ''c'' = Some (Inr 3))"

definition existing_slots_are_kept_and_pins_win :: bool where
  "existing_slots_are_kept_and_pins_win \<longleftrightarrow>
     (let slots = allocate_slots [req ''a'' ''vm-a'' None (Some 3), req ''b'' ''vm-a'' None (Some 1), req ''c'' ''vm-a'' (Some 3) None]
      in slots ''c'' = Some (Inr 3) \<and> slots ''b'' = Some (Inr 1) \<and> slots ''a'' = Some (Inr 2))"

definition is_err :: "('e + 'a) option \<Rightarrow> bool" where
  "is_err r = (case r of Some (Inl _) \<Rightarrow> True | _ \<Rightarrow> False)"

definition err_contains :: "(string + 'a) option \<Rightarrow> string \<Rightarrow> bool" where
  "err_contains r text = (case r of Some (Inl e) \<Rightarrow> str_contains e text | _ \<Rightarrow> False)"

definition slot_exhaustion_and_conflicting_pins :: bool where
  "slot_exhaustion_and_conflicting_pins \<longleftrightarrow>
     (let names = map (\<lambda>i. ''c'' @ show_nat i) [0..<5];
          slots = allocate_slots (map (\<lambda>n. req n ''vm-a'' None None) names)
      in length (filter (\<lambda>n. \<not> is_err (slots n)) names) = 4 \<and> is_err (slots ''c4'')) \<and>
     (let slots = allocate_slots [req ''a'' ''vm-a'' (Some 0) None, req ''b'' ''vm-a'' (Some 0) None, req ''c'' ''vm-a'' (Some 9) None]
      in slots ''a'' = Some (Inr 0) \<and> err_contains (slots ''b'') ''already pinned'' \<and> is_err (slots ''c''))"

lemma slot_tests: "slots_are_allocated_from_the_top" "existing_slots_are_kept_and_pins_win" "slot_exhaustion_and_conflicting_pins"
  by code_simp+

section \<open>Fixtures\<close>

definition test_meta :: "string \<Rightarrow> ObjectMeta" where
  "test_meta name = \<lparr>om_name = Some name, om_name_any = name, om_namespace = None, om_uid = None, om_resource_version = None,
     om_generation = None, om_creation_timestamp = None, om_deletion_timestamp = None, om_owner_references = [], om_labels = []\<rparr>"

definition default_device_spec :: UsbDeviceSpec where
  "default_device_spec = \<lparr>ds_vendor_id = [], ds_product_id = [], ds_serial = None, ds_manufacturer = None, ds_product = None,
     ds_bcd_device = None, ds_identity = PortPath\<rparr>"

definition default_selector :: DeviceSelector where
  "default_selector = \<lparr>sel_device_name = None, sel_vendor_id = None, sel_product_id = None, sel_serial = None, sel_product = None,
     sel_node = None, sel_port_path = None\<rparr>"

definition test_device :: "bool \<Rightarrow> UsbDevice" where
  "test_device available = \<lparr>ud_metadata = test_meta ''usb-1a86-7523-usb-serial-1234abcd'', ud_spec = default_device_spec,
     ud_status = Some (EMPTY_STATUS\<lparr>st_phase := Some (if available then Available else Unplugged), st_node := Some ''node-c'',
       st_exporter := (if available then Some \<lparr>ee_address = ''192.0.2.10'', ee_port = 7575, ee_pod = ''a''\<rparr> else None)\<rparr>)\<rparr>"

definition test_claim :: "ConnectionStatus option \<Rightarrow> UsbDeviceClaim" where
  "test_claim connection = \<lparr>uc_metadata = test_meta ''usb-claim'',
     uc_spec = \<lparr>cs_vm_name = ''my-vm'', cs_selector = default_selector, cs_slot = None, cs_hold_boot = None\<rparr>,
     uc_status = Some (default_claim_status\<lparr>ucs_connection := connection\<rparr>)\<rparr>"

definition test_vmi :: "bool \<Rightarrow> bool \<Rightarrow> VmiInfo" where
  "test_vmi running passthrough = \<lparr>vi_namespace = ''default'', vi_name = ''my-vm'', vi_uid = ''u'',
     vi_phase = Some (if running then ''Running'' else ''Scheduling''), vi_node = (if running then Some ''node-a'' else None),
     vi_client_passthrough = passthrough, vi_start_paused = False, vi_paused = False, vi_paused_since = None, vi_active_pods = [],
     vi_controlled_by_vm = True, vi_deleting = False\<rparr>"

definition test_vm :: "bool \<Rightarrow> bool \<Rightarrow> VmInfo" where
  "test_vm passthrough deleting = \<lparr>vm_namespace = ''default'', vm_name = ''my-vm'', vm_uid = ''vm-uid'', vm_client_passthrough = passthrough,
     vm_start_paused = False, vm_printable_status = Some ''Stopped'', vm_deleting = deleting\<rparr>"

definition paused_vmi :: "string \<Rightarrow> VmiInfo" where
  "paused_vmi since = (test_vmi True True)\<lparr>vi_start_paused := True, vi_paused := True, vi_paused_since := Some since\<rparr>"

definition holding_vm :: VmInfo where
  "holding_vm = (test_vm True False)\<lparr>vm_start_paused := True\<rparr>"

definition hold :: "string \<Rightarrow> bool \<Rightarrow> BootHoldClaim" where
  "hold name ready = \<lparr>bc_name = name, bc_ready = ready, bc_invalid = False, bc_timeout_seconds = 300, bc_current = None\<rparr>"

definition PAUSED_AT :: string where
  "PAUSED_AT = ''2026-09-17T12:00:00Z''"

definition test_lib :: Lib where
  "test_lib = sample_lib\<lparr>ts_parse := map_of
     [(''2026-09-17T12:00:00Z'', 1789646400), (''2026-09-17T12:01:00Z'', 1789646460), (''2026-09-17T12:05:00Z'', 1789646700),
      (''2026-09-17T13:00:00Z'', 1789650000)]\<rparr>"

definition parsed :: "string \<Rightarrow> seconds" where
  "parsed s = (case ts_parse test_lib s of Some t \<Rightarrow> t | None \<Rightarrow> 0)"

definition decide :: "BootHoldClaim list \<Rightarrow> VmiInfo option \<Rightarrow> string \<Rightarrow> BootHoldAction" where
  "decide claims vmi now = decide_boot_hold test_lib
     \<lparr>bi_vm = Some holding_vm, bi_vmi = vmi, bi_claims = claims, bi_already_released = False, bi_now = parsed now\<rparr>"

section \<open>Boot hold\<close>

definition boot_hold_waits_for_every_device_then_resumes :: bool where
  "boot_hold_waits_for_every_device_then_resumes \<longleftrightarrow>
     (let paused = paused_vmi PAUSED_AT
      in decide [hold ''a'' True, hold ''b'' False] (Some paused) ''2026-09-17T12:01:00Z'' = Hold ''waiting for b (240s left)'' \<and>
         decide [hold ''a'' True, hold ''b'' True] (Some paused) ''2026-09-17T12:01:00Z'' = Release ''all 2 devices are ready'' \<and>
         decide [hold ''a'' True] (Some paused) ''2026-09-17T12:01:00Z'' = Release ''the device is ready'')"

definition boot_hold_gives_up_so_a_missing_device_cannot_block_a_boot :: bool where
  "boot_hold_gives_up_so_a_missing_device_cannot_block_a_boot \<longleftrightarrow>
     (let paused = paused_vmi PAUSED_AT
      in decide [hold ''a'' False] (Some paused) ''2026-09-17T12:05:00Z'' = Release ''gave up after 300s; booting without a'' \<and>
         decide [(hold ''a'' False)\<lparr>bc_timeout_seconds := 0\<rparr>] (Some paused) ''2026-09-17T13:00:00Z'' = Hold ''waiting for a'')"

definition boot_hold_needs_a_vm_that_starts_paused :: bool where
  "boot_hold_needs_a_vm_that_starts_paused \<longleftrightarrow>
     (let claims = [hold ''a'' False]
      in decide_boot_hold test_lib \<lparr>bi_vm = Some (test_vm True False), bi_vmi = None, bi_claims = claims, bi_already_released = False,
           bi_now = parsed PAUSED_AT\<rparr> =
         NotConfigured ''the VM does not start paused; set spec.template.spec.startStrategy: Paused in its template to hold its boot'' \<and>
         decide claims None PAUSED_AT = Nothing \<and> decide claims (Some (test_vmi True True)) PAUSED_AT = Nothing)"

definition boot_hold_never_resumes_a_pause_it_did_not_cause :: bool where
  "boot_hold_never_resumes_a_pause_it_did_not_cause \<longleftrightarrow>
     (let paused = paused_vmi PAUSED_AT; claims = [hold ''a'' True]
      in decide_boot_hold test_lib \<lparr>bi_vm = Some holding_vm, bi_vmi = Some paused, bi_claims = claims, bi_already_released = True,
           bi_now = parsed ''2026-09-17T12:01:00Z''\<rparr> = Nothing \<and>
         decide claims (Some (paused\<lparr>vi_deleting := True\<rparr>)) ''2026-09-17T12:01:00Z'' = Nothing)"

definition boot_report :: "BootHoldState \<Rightarrow> string option \<Rightarrow> BootHoldStatus" where
  "boot_report state uid = \<lparr>bh_state = state, bh_vmi_uid = uid, bh_since = PAUSED_AT, bh_message = None\<rparr>"

definition stale_boot_hold_reports_are_dropped :: bool where
  "stale_boot_hold_reports_are_dropped \<longleftrightarrow>
     boot_hold_is_stale (Some (boot_report NotConfiguredState None)) (Some ''vmi-1'') \<and>
     \<not> boot_hold_is_stale (Some (boot_report Released (Some ''vmi-1''))) (Some ''vmi-1'') \<and>
     boot_hold_is_stale (Some (boot_report Released (Some ''vmi-0''))) (Some ''vmi-1'') \<and>
     boot_hold_is_stale (Some (boot_report Released (Some ''vmi-1''))) None \<and>
     \<not> boot_hold_is_stale None (Some ''vmi-1'')"

definition invalid_claims_do_not_hold_a_boot :: bool where
  "invalid_claims_do_not_hold_a_boot \<longleftrightarrow>
     decide [(hold ''a'' False)\<lparr>bc_invalid := True\<rparr>] (Some (paused_vmi PAUSED_AT)) ''2026-09-17T12:01:00Z'' = Nothing"

lemma boot_hold_tests:
  "boot_hold_waits_for_every_device_then_resumes" "boot_hold_gives_up_so_a_missing_device_cannot_block_a_boot"
  "boot_hold_needs_a_vm_that_starts_paused" "boot_hold_never_resumes_a_pause_it_did_not_cause"
  "stale_boot_hold_reports_are_dropped" "invalid_claims_do_not_hold_a_boot"
  by code_simp+

section \<open>Phases\<close>

definition phase_of :: "UsbDevice option \<Rightarrow> VmInfo option \<Rightarrow> VmiInfo option \<Rightarrow> UsbDeviceClaim \<Rightarrow> ClaimPhase \<times> string" where
  "phase_of device vm vmi claim = compute_phase
     \<lparr>pi_invalid = None, pi_device = device,
      pi_device_available = is_some_and (\<lambda>d. st_phase (status_ref d) = Some Available) device,
      pi_vm = vm, pi_vmi = vmi, pi_vm_present = vm_present vm vmi, pi_claim = claim, pi_slot = Some 3\<rparr>"

definition connected :: "string \<Rightarrow> int \<Rightarrow> UsbDeviceClaim" where
  "connected node slot = test_claim (Some \<lparr>co_state = ConnConnected, co_node = node, co_device_name = device_name_any (test_device True),
     co_slot = slot, co_since = ''2026-09-16T12:00:00Z'', co_message = None, co_awaiting_resume = None\<rparr>)"

definition test_phases :: bool where
  "test_phases \<longleftrightarrow>
     (let c = test_claim None; dev = test_device True; unplugged = test_device False; running = test_vmi True True;
          phase = (\<lambda>device vmi claim. fst (phase_of device (Some (test_vm True False)) vmi claim))
      in phase None (Some running) c = Pending \<and> phase (Some unplugged) (Some running) c = DeviceUnavailable \<and>
         phase (Some dev) None c = WaitingForVM \<and> phase (Some dev) (Some (test_vmi False True)) c = WaitingForVM \<and>
         phase (Some dev) (Some (test_vmi True False)) c = VMNotConfigured \<and> phase (Some dev) (Some running) c = Connecting \<and>
         phase (Some dev) (Some running) (connected ''node-a'' 3) = Attached \<and>
         phase (Some dev) (Some running) (connected ''node-b'' 3) = Connecting \<and>
         phase (Some dev) (Some running) (connected ''node-a'' 1) = Connecting \<and>
         fst (compute_phase \<lparr>pi_invalid = Some ''bad'', pi_device = None, pi_device_available = False, pi_vm = None, pi_vmi = None,
           pi_vm_present = False, pi_claim = c, pi_slot = None\<rparr>) = Invalid)"

definition vm_lifecycle_phases :: bool where
  "vm_lifecycle_phases \<longleftrightarrow>
     (let c = test_claim None; dev = test_device True; gone = phase_of (Some dev) (Some (test_vm True True)) (Some (test_vmi True True)) c
      in phase_of None None None c = (WaitingForVM, ''VirtualMachine my-vm does not exist; no device is reserved'') \<and>
         fst gone = WaitingForVM \<and> str_contains (snd gone) ''is being deleted'' \<and>
         phase_of (Some dev) (Some (test_vm True False)) None c = (WaitingForVM, ''VirtualMachine my-vm is Stopped'') \<and>
         fst (phase_of (Some dev) (Some (test_vm False False)) None c) = VMNotConfigured \<and>
         fst (phase_of (Some dev) None (Some ((test_vmi True True)\<lparr>vi_controlled_by_vm := False\<rparr>)) c) = Connecting)"

lemma phase_tests: "test_phases" "vm_lifecycle_phases"
  by code_simp+

end
