(* ===== verification/TestsKubevirt.thy ===== *)
theory TestsKubevirt
  imports Kubevirt
begin

text \<open>
  The unit tests of \<open>src/kubevirt.rs\<close> and \<open>src/crd.rs\<close>, on the model. The JSON of a test is the metadata and the remaining members, as
  the client library splits an object; the members are in key order.
\<close>

section \<open>Views\<close>

definition object_meta :: "string \<Rightarrow> string \<Rightarrow> ObjectMeta" where
  "object_meta name uid = \<lparr>om_name = Some name, om_name_any = name, om_namespace = Some ''default'', om_uid = Some uid,
     om_resource_version = None, om_generation = None, om_creation_timestamp = None, om_deletion_timestamp = None,
     om_owner_references = [], om_labels = []\<rparr>"

definition vmi_of :: "ObjectMeta \<Rightarrow> (string \<times> Json) list \<Rightarrow> VmiInfo" where
  "vmi_of meta members = the (vmi_from_object \<lparr>do_metadata = meta, do_data = JObject members\<rparr>)"

definition vm_of :: "ObjectMeta \<Rightarrow> (string \<times> Json) list \<Rightarrow> VmInfo" where
  "vm_of meta members = the (vm_from_object \<lparr>do_metadata = meta, do_data = JObject members\<rparr>)"

definition passthrough_spec :: "(string \<times> Json) list" where
  "passthrough_spec = [(''domain'', JObject [(''devices'', JObject [(''clientPassthrough'', JObject [])])])]"

definition parses_running_vmi :: bool where
  "parses_running_vmi \<longleftrightarrow>
     (let info = vmi_of (object_meta ''my-vm'' ''b7e1'')
        [(''spec'', JObject passthrough_spec),
         (''status'', JObject [(''activePods'', JObject [(''pod-a'', JString ''node-a'')]), (''nodeName'', JString ''node-a''),
            (''phase'', JString ''Running'')])]
      in is_running info \<and> vi_client_passthrough info \<and> \<not> vi_controlled_by_vm info \<and> \<not> vi_deleting info \<and>
         vi_node info = Some ''node-a'' \<and> launcher_pods_on info ''node-a'' = [''pod-a''] \<and> launcher_pods_on info ''node-c'' = [])"

definition parses_a_vmi_that_started_paused :: bool where
  "parses_a_vmi_that_started_paused \<longleftrightarrow>
     (let info = vmi_of (object_meta ''my-vm'' ''b7e1'')
        [(''spec'', JObject (passthrough_spec @ [(''startStrategy'', JString ''Paused'')])),
         (''status'', JObject [(''conditions'', JArray
              [JObject [(''lastTransitionTime'', JString ''2026-09-17T12:00:01Z''), (''status'', JString ''False''), (''type'', JString ''Ready'')],
               JObject [(''lastTransitionTime'', JString ''2026-09-17T12:00:02Z''), (''reason'', JString ''PausedByUser''),
                 (''status'', JString ''True''), (''type'', JString ''Paused'')]]),
            (''nodeName'', JString ''node-a''), (''phase'', JString ''Running'')])];
          resumed = vmi_of (object_meta ''my-vm'' ''b7e1'')
        [(''spec'', JObject [(''startStrategy'', JString ''Paused'')]),
         (''status'', JObject [(''conditions'', JArray [JObject [(''status'', JString ''False''), (''type'', JString ''Paused'')]])])]
      in vi_start_paused info \<and> vi_paused info \<and> is_running info \<and> vi_paused_since info = Some ''2026-09-17T12:00:02Z'' \<and>
         vi_start_paused resumed \<and> \<not> vi_paused resumed \<and> vi_paused_since resumed = None)"

definition parses_vmi_without_passthrough_or_status :: bool where
  "parses_vmi_without_passthrough_or_status \<longleftrightarrow>
     (let info = vmi_of (object_meta ''vm'' ''u'') [(''spec'', JObject [(''domain'', JObject [(''devices'', JObject [])])])]
      in \<not> is_running info \<and> \<not> vi_client_passthrough info \<and> vi_active_pods info = [])"

definition migration_has_two_pods :: bool where
  "migration_has_two_pods \<longleftrightarrow>
     (let info = vmi_of (object_meta ''vm'' ''u'')
        [(''status'', JObject [(''activePods'', JObject [(''p1'', JString ''a''), (''p2'', JString ''b'')]), (''nodeName'', JString ''a''),
            (''phase'', JString ''Running'')])]
      in launcher_pods_on info ''b'' = [''p2''])"

definition parses_vm_and_vm_controlled_vmi :: bool where
  "parses_vm_and_vm_controlled_vmi \<longleftrightarrow>
     (let v = vm_of ((object_meta ''my-vm'' ''vm-uid'')\<lparr>om_deletion_timestamp := Some 1789610400\<rparr>)
        [(''spec'', JObject [(''template'', JObject [(''spec'', JObject (passthrough_spec @ [(''startStrategy'', JString ''Paused'')]))])]),
         (''status'', JObject [(''printableStatus'', JString ''Stopped'')])];
          i = vmi_of ((object_meta ''my-vm'' ''vmi-uid'')\<lparr>om_owner_references :=
            [\<lparr>or_api_version = ''kubevirt.io/v1'', or_kind = ''VirtualMachine'', or_name = ''my-vm'', or_uid = ''vm-uid'',
              or_controller = Some True, or_block_owner_deletion = None\<rparr>]\<rparr>) []
      in vm_client_passthrough v \<and> vm_start_paused v \<and> vm_deleting v \<and> vm_printable_status v = Some ''Stopped'' \<and> vi_controlled_by_vm i)"

lemma view_tests:
  "parses_running_vmi" "parses_a_vmi_that_started_paused" "parses_vmi_without_passthrough_or_status" "migration_has_two_pods"
  "parses_vm_and_vm_controlled_vmi"
  by code_simp+

section \<open>Ownership\<close>

definition vm_info :: "string \<Rightarrow> bool \<Rightarrow> VmInfo" where
  "vm_info uid deleting = \<lparr>vm_namespace = ''default'', vm_name = ''my-vm'', vm_uid = uid, vm_client_passthrough = True,
     vm_start_paused = False, vm_printable_status = None, vm_deleting = deleting\<rparr>"

definition vmi_info :: "bool \<Rightarrow> bool \<Rightarrow> VmiInfo" where
  "vmi_info controlled_by_vm deleting = \<lparr>vi_namespace = ''default'', vi_name = ''my-vm'', vi_uid = ''vmi-uid'', vi_phase = Some ''Running'',
     vi_node = Some ''node-a'', vi_client_passthrough = True, vi_start_paused = False, vi_paused = False, vi_paused_since = None,
     vi_active_pods = [], vi_controlled_by_vm = controlled_by_vm, vi_deleting = deleting\<rparr>"

definition owner_is_the_vm_or_a_bare_vmi :: bool where
  "owner_is_the_vm_or_a_bare_vmi \<longleftrightarrow>
     (let vm = vm_info ''vm-uid'' False; owned = vmi_info True False; bare = vmi_info False False
      in map_option vo_kind (vm_owner (Some vm) (Some owned)) = Some ''VirtualMachine'' \<and>
         map_option vo_kind (vm_owner None (Some bare)) = Some ''VirtualMachineInstance'' \<and>
         vm_owner None (Some owned) = None \<and> vm_owner None None = None)"

definition stopped_vms_keep_devices_deleted_ones_do_not :: bool where
  "stopped_vms_keep_devices_deleted_ones_do_not \<longleftrightarrow>
     vm_present (Some (vm_info ''vm-uid'' False)) None \<and> \<not> vm_present (Some (vm_info ''vm-uid'' True)) (Some (vmi_info True False)) \<and>
     vm_present None (Some (vmi_info False False)) \<and> \<not> vm_present None (Some (vmi_info True True)) \<and> \<not> vm_present None None"

definition test_reference :: "string \<Rightarrow> string \<Rightarrow> string \<Rightarrow> OwnerReference" where
  "test_reference kind name uid = \<lparr>or_api_version = (if kind = ''ConfigMap'' then ''v1'' else API_VERSION), or_kind = kind, or_name = name,
     or_uid = uid, or_controller = Some False, or_block_owner_deletion = Some False\<rparr>"

definition owner_references_are_reconciled :: bool where
  "owner_references_are_reconciled \<longleftrightarrow>
     (let owner = the (vm_owner (Some (vm_info ''vm-uid'' False)) None);
          unrelated = test_reference ''ConfigMap'' ''cfg'' ''cm-uid'';
          refs = the (claim_owner_references [unrelated] ''my-vm'' (Some owner));
          stale = [unrelated, test_reference ''VirtualMachine'' ''my-vm'' ''old-uid''];
          current = [test_reference ''VirtualMachine'' ''my-vm'' ''vm-uid'']
      in refs = [unrelated, owner_reference owner] \<and> claim_owner_references refs ''my-vm'' (Some owner) = None \<and>
         claim_owner_references stale ''my-vm'' (Some owner) = Some [unrelated, owner_reference owner] \<and>
         claim_owner_references current ''my-vm'' None = None \<and>
         claim_owner_references [test_reference ''VirtualMachine'' ''old-vm'' ''x''] ''my-vm'' None = Some [])"

lemma owner_tests: "owner_is_the_vm_or_a_bare_vmi" "stopped_vms_keep_devices_deleted_ones_do_not" "owner_references_are_reconciled"
  by code_simp+

section \<open>Selectors\<close>

definition no_selector :: DeviceSelector where
  "no_selector = \<lparr>sel_device_name = None, sel_vendor_id = None, sel_product_id = None, sel_serial = None, sel_product = None,
     sel_node = None, sel_port_path = None\<rparr>"

definition selectable_device :: "string \<Rightarrow> string \<Rightarrow> string \<Rightarrow> string option \<Rightarrow> string \<Rightarrow> string \<Rightarrow> UsbDevice" where
  "selectable_device name vid pid sn node port = \<lparr>ud_metadata = (object_meta name [])\<lparr>om_namespace := None, om_uid := None\<rparr>,
     ud_spec = \<lparr>ds_vendor_id = vid, ds_product_id = pid, ds_serial = sn, ds_manufacturer = None, ds_product = Some ''USB Serial'',
       ds_bcd_device = None, ds_identity = PortPath\<rparr>,
     ud_status = Some (EMPTY_STATUS\<lparr>st_node := Some node, st_port_path := Some port\<rparr>)\<rparr>"

definition selector_matching :: bool where
  "selector_matching \<longleftrightarrow>
     (let d = selectable_device ''usb-1a86-7523-usb-serial-abcd'' ''1a86'' ''7523'' None ''node-c'' ''3-3''
      in selector_matches (no_selector\<lparr>sel_vendor_id := Some ''1A86''\<rparr>) d \<and>
         selector_matches (no_selector\<lparr>sel_vendor_id := Some ''0x1a86''\<rparr>) d \<and>
         selector_matches (no_selector\<lparr>sel_vendor_id := Some ''1a86'', sel_product_id := Some ''7523'', sel_node := Some ''node-c''\<rparr>) d \<and>
         \<not> selector_matches (no_selector\<lparr>sel_node := Some ''node-b''\<rparr>) d \<and>
         \<not> selector_matches (no_selector\<lparr>sel_serial := Some ''x''\<rparr>) d \<and>
         selector_matches (no_selector\<lparr>sel_product := Some ''USB Serial''\<rparr>) d \<and>
         selector_matches (no_selector\<lparr>sel_device_name := Some ''usb-1a86-7523-usb-serial-abcd''\<rparr>) d)"

definition selector_validation :: bool where
  "selector_validation \<longleftrightarrow>
     selector_validate sample_lib no_selector \<noteq> Inr () \<and>
     selector_validate sample_lib (no_selector\<lparr>sel_vendor_id := Some ''zz''\<rparr>) \<noteq> Inr () \<and>
     selector_validate sample_lib (no_selector\<lparr>sel_vendor_id := Some ''1a86''\<rparr>) = Inr ()"

definition ipv6_exporter_address :: bool where
  "ipv6_exporter_address \<longleftrightarrow> socket_addr \<lparr>ee_address = ''fd00::1'', ee_port = 7575, ee_pod = ''p''\<rparr> = ''[fd00::1]:7575''"

definition test_age :: bool where
  "test_age \<longleftrightarrow>
     (let lib = sample_lib\<lparr>ts_parse := [''2026-09-16T12:00:00Z'' \<mapsto> 1789560000]\<rparr>; now = 1789560030
      in age_secs lib (Some ''2026-09-16T12:00:00Z'') now = Some 30 \<and> age_secs lib (Some ''garbage'') now = None \<and>
         age_secs lib None now = None)"

lemma crd_tests: "selector_matching" "selector_validation" "test_age"
  by code_simp+

lemma address_test: "ipv6_exporter_address"
  by (simp add: ipv6_exporter_address_def socket_addr_def show_nat.simps digit_def char_of_eq_iff)

end
