(* ===== verification/TestsIdentity.thy ===== *)
theory TestsIdentity
  imports Assign
begin

text \<open>
  The unit tests of \<open>src/identity.rs\<close>, on the model, with a stand-in for SHA-256 under which the tests' devices have
  different hashes.
\<close>

section \<open>Fixtures\<close>

definition naming_lib :: Lib where
  "naming_lib = sample_lib\<lparr>sha256 := \<lambda>b. let r = rev b in take 32 (drop 8 r @ take 8 r @ replicate 32 (CHR ''k''))\<rparr>"

definition test_dev :: "string \<Rightarrow> u32 \<Rightarrow> string \<Rightarrow> string \<Rightarrow> string option \<Rightarrow> string option \<Rightarrow> UsbDeviceInfo" where
  "test_dev port devnum vid pid sn product =
     \<lparr>ui_port_path = port, ui_bus_num = of_nat (the (parse_digits 10 0 (takeWhile (\<lambda>c. c \<noteq> CHR ''-'') port))), ui_dev_num = devnum,
      ui_vendor_id = vid, ui_product_id = pid, ui_serial = sn, ui_manufacturer = None, ui_product = product,
      ui_bcd_device = Some ''0264'', ui_device_class = 255, ui_interface_classes = [], ui_speed = Some ''12''\<rparr>"

definition ch340 :: "string \<Rightarrow> u32 \<Rightarrow> UsbDeviceInfo" where
  "ch340 port devnum = test_dev port devnum ''1a86'' ''7523'' None (Some ''USB Serial'')"

definition known_dev :: "UsbDeviceInfo \<Rightarrow> string \<Rightarrow> string option \<Rightarrow> KnownDevice" where
  "known_dev d name present_on = \<lparr>kd_name = name, kd_fingerprint = fingerprint_of d, kd_present_on = present_on\<rparr>"

definition run_assign ::
  "string \<Rightarrow> UsbDeviceInfo list \<Rightarrow> (InstanceKey \<rightharpoonup> Assignment) \<Rightarrow> KnownDevice list \<Rightarrow> InstanceKey set \<Rightarrow> (InstanceKey \<rightharpoonup> Decision)" where
  "run_assign node local sticky known may_defer =
     assign naming_lib \<lparr>ac_node = node, ac_sticky = sticky, ac_known = known, ac_may_defer = may_defer\<rparr> local"

definition assigned :: "(InstanceKey \<rightharpoonup> Decision) \<Rightarrow> UsbDeviceInfo \<Rightarrow> Assignment option" where
  "assigned decisions d = (case decisions (instance_key_of d) of Some (Assigned a) \<Rightarrow> Some a | _ \<Rightarrow> None)"

section \<open>Assignment\<close>

definition serial_tier_is_preferred_and_readable :: bool where
  "serial_tier_is_preferred_and_readable \<longleftrightarrow>
     (let d = test_dev ''1-2'' 7 ''10c4'' ''ea60'' (Some ''a1b2c3d4'') (Some ''CP2102N USB to UART Bridge Controller'')
      in assigned (run_assign ''node-c'' [d] Map.empty [] {}) d = Some \<lparr>as_name = ''usb-10c4-ea60-a1b2c3d4'', as_source = Serial\<rparr>)"

definition serial_less_device_gets_portable_descriptor_identity :: bool where
  "serial_less_device_gets_portable_descriptor_identity \<longleftrightarrow>
     (let d = ch340 ''3-3'' 3; a4 = the (assigned (run_assign ''node-c'' [d] Map.empty [] {}) d); moved = ch340 ''1-4'' 9
      in as_source a4 = Descriptor \<and> starts_with (as_name a4) ''usb-1a86-7523-usb-serial-'' \<and>
         assigned (run_assign ''node-a'' [moved] Map.empty [known_dev d (as_name a4) None] {}) moved = Some a4)"

definition identical_serial_less_devices_on_one_node_fall_back_to_ports :: bool where
  "identical_serial_less_devices_on_one_node_fall_back_to_ports \<longleftrightarrow>
     (let a = ch340 ''3-3'' 3; b = ch340 ''3-4'' 4; decisions = run_assign ''node-c'' [a, b] Map.empty [] {};
          aa = the (assigned decisions a); ab = the (assigned decisions b)
      in as_source aa = PortPath \<and> as_source ab = PortPath \<and> as_name aa \<noteq> as_name ab)"

definition sticky_assignment_survives_lookalike_arrival :: bool where
  "sticky_assignment_survives_lookalike_arrival \<longleftrightarrow>
     (let a = ch340 ''3-3'' 3; first = the (assigned (run_assign ''node-c'' [a] Map.empty [] {}) a); b = ch340 ''3-4'' 4;
          decisions = run_assign ''node-c'' [a, b] [instance_key_of a \<mapsto> first] [] {}
      in assigned decisions a = Some first \<and> map_option as_source (assigned decisions b) = Some PortPath)"

definition known_lookalike_makes_descriptor_tier_ambiguous :: bool where
  "known_lookalike_makes_descriptor_tier_ambiguous \<longleftrightarrow>
     (let a = ch340 ''3-3'' 3; lookalike = ch340 ''1-1'' 2;
          known = [known_dev lookalike ''usb-1a86-7523-node-a-1-1-deadbeef'' None]
      in map_option as_source (assigned (run_assign ''node-c'' [a] Map.empty known {}) a) = Some PortPath)"

definition duplicate_serials_with_different_descriptors_use_serial_descriptor_tier :: bool where
  "duplicate_serials_with_different_descriptors_use_serial_descriptor_tier \<longleftrightarrow>
     (let adapter = test_dev ''1-1'' 2 ''1a86'' ''55d4'' (Some ''0001'') (Some ''USB Dual Serial'');
          other = test_dev ''1-2'' 3 ''1a86'' ''55d4'' (Some ''0001'') (Some ''USB Single Serial'');
          decisions = run_assign ''node-b'' [adapter, other] Map.empty [] {};
          az = the (assigned decisions adapter); ao = the (assigned decisions other)
      in as_source az = SerialDescriptor \<and> as_source ao = SerialDescriptor \<and> as_name az \<noteq> as_name ao)"

definition defers_while_previous_node_still_holds_identity :: bool where
  "defers_while_previous_node_still_holds_identity \<longleftrightarrow>
     (let d = ch340 ''3-3'' 3; name = as_name (the (assigned (run_assign ''node-c'' [d] Map.empty [] {}) d)); moved = ch340 ''1-4'' 9;
          known = [known_dev d name (Some ''node-c'')]
      in run_assign ''node-a'' [moved] Map.empty known {instance_key_of moved} (instance_key_of moved) = Some (Deferred name ''node-c'') \<and>
         map_option as_source (assigned (run_assign ''node-a'' [moved] Map.empty known {}) moved) = Some PortPath)"

definition simultaneous_claims_resolve_by_node_name :: bool where
  "simultaneous_claims_resolve_by_node_name \<longleftrightarrow>
     (let d = ch340 ''3-3'' 3; a = the (assigned (run_assign ''node-c'' [d] Map.empty [] {}) d); sticky = [instance_key_of d \<mapsto> a];
          held_by_lower = [known_dev d (as_name a) (Some ''node-a'')]; held_by_higher = [known_dev d (as_name a) (Some ''node-d'')]
      in run_assign ''node-c'' [d] sticky held_by_lower {} (instance_key_of d) \<noteq> Some (Assigned a) \<and>
         assigned (run_assign ''node-c'' [d] sticky held_by_higher {}) d = Some a)"

lemma naming_tests:
  "serial_tier_is_preferred_and_readable" "serial_less_device_gets_portable_descriptor_identity"
  "duplicate_serials_with_different_descriptors_use_serial_descriptor_tier"
  by code_simp+

lemma lookalike_tests:
  "identical_serial_less_devices_on_one_node_fall_back_to_ports" "sticky_assignment_survives_lookalike_arrival"
  "known_lookalike_makes_descriptor_tier_ambiguous"
  by code_simp+

lemma other_node_tests:
  "defers_while_previous_node_still_holds_identity" "simultaneous_claims_resolve_by_node_name"
  by code_simp+

section \<open>Names and labels\<close>

text \<open>The product is a smiling face and some text, one of the serial numbers is \<open>unicode\<close> with accents, both in UTF-8.\<close>

definition weird_product :: string where
  "weird_product = map char_of [0xF0, 0x9F, 0x98, 0x80 :: nat] @ '' weird / product''"

definition accented :: string where
  "accented = map char_of [0xC3, 0xBC, 0xC3, 0xB1, 0xC3, 0xAD, 0xC2, 0xA9, 0xC3, 0xB8, 0x64, 0xC3, 0xA9 :: nat]"

definition hostile_serials :: "string option list" where
  "hostile_serials = [Some [], Some ''   '', Some ''DE:AD:BE:EF'', Some (replicate 300 (CHR ''x'')), Some accented, None]"

definition names_are_valid_for_hostile_input :: "string option \<Rightarrow> bool" where
  "names_are_valid_for_hostile_input sn \<longleftrightarrow>
     (let d = test_dev ''1-1.4.3'' 5 ''1a86'' ''55d4'' sn (Some weird_product)
      in is_some_and (\<lambda>a. is_dns_subdomain (as_name a)) (assigned (run_assign ''node-c.example'' [d] Map.empty [] {}) d) \<and>
         is_dns_subdomain (port_name naming_lib (fingerprint_of d) ''Node_With.Weird'' ''1-1.4.3''))"

definition lossy_serials_do_not_collide :: bool where
  "lossy_serials_do_not_collide \<longleftrightarrow>
     (let upper = \<lparr>fp_vendor_id = ''10c4'', fp_product_id = ''ea60'', fp_serial = Some ''A1B2'', fp_bcd_device = None,
            fp_manufacturer = None, fp_product = None\<rparr>;
          lower = upper\<lparr>fp_serial := Some ''a1b2''\<rparr>
      in portable_name naming_lib upper Serial \<noteq> portable_name naming_lib lower Serial)"

definition label_values :: bool where
  "label_values \<longleftrightarrow> label_value ''node-c'' = Some ''node-c'' \<and> label_value ''-a b-'' = Some ''a-b'' \<and> label_value ''___'' = None \<and>
     map_option length (label_value (replicate 100 (CHR ''n''))) = Some 63"

definition usb_ids :: bool where
  "usb_ids \<longleftrightarrow> normalize_usb_id ''10C4'' = Some ''10c4'' \<and> normalize_usb_id ''0x1a86'' = Some ''1a86'' \<and>
     normalize_usb_id ''451'' = Some ''0451'' \<and> normalize_usb_id ''xyz'' = None \<and> normalize_usb_id ''12345'' = None"

lemma lossy_test: "lossy_serials_do_not_collide"
  by code_simp

lemma label_test: "label_values"
  by code_simp

lemma id_test: "usb_ids"
  by code_simp

text \<open>The test on hostile input holds of every serial number, not only of the test's six.\<close>

lemma test_contracts: "hex_contract naming_lib" "sha256_contract naming_lib"
  using hex_sample by (auto simp: naming_lib_def hex_contract_def sha256_contract_def Let_def)

lemma assigned_name_is_dns:
  assumes "assign naming_lib ctx local k = Some (Assigned a)" and "ac_sticky ctx = Map.empty"
  shows "is_dns_subdomain (as_name a)"
  using assms(1)
proof (cases rule: assign_cases)
  case (fallback b)
  then show ?thesis by (auto simp: is_fallback_def port_fallback_def dns_port_name [OF test_contracts])
qed (use assms(2) dns_portable_name [OF test_contracts] in auto)

lemma assign_without_waiting:
  assumes "assign L ctx local k = Some d" and "ac_may_defer ctx = {}"
  shows "\<exists>a. d = Assigned a"
  using assms by (cases rule: assign_cases) auto

lemma hostile_test: "names_are_valid_for_hostile_input sn"
proof -
  let ?d = "test_dev ''1-1.4.3'' 5 ''1a86'' ''55d4'' sn (Some weird_product)"
  let ?ctx = "\<lparr>ac_node = ''node-c.example'', ac_sticky = Map.empty, ac_known = [], ac_may_defer = {}\<rparr>"
  have "assign naming_lib ?ctx [?d] (instance_key_of ?d) \<noteq> None"
    by (rule assign_decides) simp
  then obtain c where c: "assign naming_lib ?ctx [?d] (instance_key_of ?d) = Some c" by blast
  then obtain a where "c = Assigned a"
    using assign_without_waiting [OF c] by auto
  with c assigned_name_is_dns [of ?ctx "[?d]" "instance_key_of ?d" a] show ?thesis
    by (simp add: names_are_valid_for_hostile_input_def Let_def assigned_def run_assign_def
        dns_port_name test_contracts)
qed

lemma hostile_tests: "list_all names_are_valid_for_hostile_input hostile_serials"
  by (simp add: list_all_iff hostile_test)

end
