(* ===== verification/TestsAgent.thy ===== *)
theory TestsAgent
  imports Discovery Sysfs Launcher Uevent Proto
begin

text \<open>
  The unit tests of the modules the agent is made of, \<open>src/sysfs.rs\<close>, \<open>src/uevent.rs\<close>, \<open>src/launcher.rs\<close>,
  \<open>src/proto.rs\<close>, \<open>src/agent/mod.rs\<close> and \<open>src/agent/discovery.rs\<close>, on the model. A temporary directory is the list of the
  files a test writes.
\<close>

section \<open>Evaluation\<close>

text \<open>Large numbers are computed with integers, which are binary, not with natural numbers, which are unary.\<close>

lemma parse_unsigned_code [code]:
  "parse_unsigned base bits s =
     (let t = (if starts_with s ''+'' then tl s else s)
      in if t = [] then None
         else case parse_digits base 0 t of None \<Rightarrow> None | Some n \<Rightarrow> if int n < 2 ^ bits then Some n else None)"
proof -
  have "n < 2 ^ bits \<longleftrightarrow> int n < 2 ^ bits" for n
    by (metis of_nat_less_iff of_nat_numeral of_nat_power)
  then show ?thesis by (simp add: parse_unsigned_def Let_def split: option.split)
qed

lemma frame_code [code]:
  "frame field =
     (if length field < 256 then [NUL, NUL, NUL, NUL, NUL, NUL, NUL, char_of (length field)] @ field
      else to_be_bytes (of_nat (length field)) @ field)"
proof (cases "length field < 256")
  case True
  then have len: "unat (of_nat (length field) :: u64) = length field"
    by (simp add: unat_of_nat take_bit_nat_eq_self)
  have high: "char_of (length field div 256 ^ i) = NUL" if "0 < i" for i
  proof -
    have "(256 :: nat) ^ 1 \<le> 256 ^ i" using that by (intro power_increasing) auto
    with True have "length field div 256 ^ i = 0" by simp
    then show ?thesis by (simp add: char_of_def)
  qed
  show ?thesis
    unfolding frame_def to_be_bytes_def len using True
    by (simp only: list.map high zero_less_numeral zero_less_one power_0 div_by_1 if_True)
qed (simp add: frame_def)

section \<open>sysfs\<close>

record FakeDevice =
  fk_port_path :: string
  fk_bus :: nat
  fk_dev :: nat
  fk_vendor :: string
  fk_product_id :: string
  fk_serial :: "string option"
  fk_class :: string
  fk_interfaces :: "string list"

record FakeTree =
  ft_names :: "string list"
  ft_files :: "(string \<times> bytes) list"

definition devices_dir :: string where
  "devices_dir = ''/tmp/bus/usb/devices''"

definition tree_fs :: "FakeTree \<Rightarrow> FileSystem" where
  "tree_fs t =
     \<lparr>fs_read_dir = (\<lambda>dir. if dir = devices_dir then Inr (map Some (ft_names t)) else Inl ''No such file or directory''),
      fs_read = map_of (ft_files t)\<rparr>"

definition line_file :: "string \<Rightarrow> string \<Rightarrow> string \<Rightarrow> string \<times> bytes" where
  "line_file dir attr v = (path_join dir attr, v @ [CHR 0x0A])"

definition add_device :: "FakeDevice \<Rightarrow> FakeTree \<Rightarrow> FakeTree" where
  "add_device d t =
     (let dir = path_join devices_dir (fk_port_path d);
          faces = map (\<lambda>(i, class). (fk_port_path d @ '':1.'' @ show_nat i, class)) (List.enumerate 0 (fk_interfaces d))
      in \<lparr>ft_names = ft_names t @ fk_port_path d # map fst faces,
          ft_files = ft_files t @
            [line_file dir ''busnum'' (show_nat (fk_bus d)), line_file dir ''devnum'' (show_nat (fk_dev d)),
             line_file dir ''idVendor'' (fk_vendor d), line_file dir ''idProduct'' (fk_product_id d),
             line_file dir ''bDeviceClass'' (fk_class d), line_file dir ''speed'' ''12'', line_file dir ''bcdDevice'' ''0264''] @
            (case fk_serial d of None \<Rightarrow> [] | Some sn \<Rightarrow> [line_file dir ''serial'' sn]) @
            map (\<lambda>(name, class). line_file (path_join devices_dir name) ''bInterfaceClass'' class) faces\<rparr>)"

definition three_devices :: FakeTree where
  "three_devices =
     add_device \<lparr>fk_port_path = ''3-4'', fk_bus = 3, fk_dev = 4, fk_vendor = ''abcd'', fk_product_id = ''1234'',
       fk_serial = Some ''SN0001234'', fk_class = ''00'', fk_interfaces = [''03'']\<rparr>
     (add_device \<lparr>fk_port_path = ''3-3'', fk_bus = 3, fk_dev = 3, fk_vendor = ''1a86'', fk_product_id = ''7523'',
       fk_serial = None, fk_class = ''ff'', fk_interfaces = [''ff'']\<rparr>
     (add_device \<lparr>fk_port_path = ''3-1'', fk_bus = 3, fk_dev = 2, fk_vendor = ''05e3'', fk_product_id = ''0610'',
       fk_serial = None, fk_class = ''09'', fk_interfaces = [''09'']\<rparr>
     \<lparr>ft_names = [''usb3''], ft_files = []\<rparr>))"

definition scans_devices :: bool where
  "scans_devices \<longleftrightarrow>
     (case scan (tree_fs three_devices) ''/tmp'' of
        Inr [hub, ch340, hid] \<Rightarrow>
          is_hub hub \<and>
          ui_port_path ch340 = ''3-3'' \<and> bus_dev ch340 = ''3-3'' \<and> ui_vendor_id ch340 = ''1a86'' \<and> ui_serial ch340 = None \<and>
          ui_interface_classes ch340 = [0xff] \<and> ui_bcd_device ch340 = Some ''0264'' \<and>
          ui_serial hid = Some ''SN0001234'' \<and> bus_dev hid = ''3-4'' \<and> ui_interface_classes hid = [0x03]
      | _ \<Rightarrow> False)"

definition skips_half_enumerated_devices :: bool where
  "skips_half_enumerated_devices \<longleftrightarrow>
     scan (tree_fs \<lparr>ft_names = [''1-2''], ft_files = [line_file (path_join devices_dir ''1-2'') ''busnum'' ''1'']\<rparr>) ''/tmp'' = Inr []"

definition blank_serial_is_none :: bool where
  "blank_serial_is_none \<longleftrightarrow>
     (case scan (tree_fs (add_device \<lparr>fk_port_path = ''1-1'', fk_bus = 1, fk_dev = 5, fk_vendor = ''10c4'', fk_product_id = ''ea60'',
             fk_serial = Some ''  '', fk_class = ''00'', fk_interfaces = []\<rparr> \<lparr>ft_names = [], ft_files = []\<rparr>)) ''/tmp'' of
        Inr (d # _) \<Rightarrow> ui_serial d = None
      | _ \<Rightarrow> False)"

lemma scan_test: "scans_devices"
  by code_simp

lemma half_test: "skips_half_enumerated_devices"
  by code_simp

lemma blank_test: "blank_serial_is_none"
  by code_simp

section \<open>Kernel events\<close>

definition nul_terminated :: "string list \<Rightarrow> bytes" where
  "nul_terminated fs = concat (map (\<lambda>f. f @ [NUL]) fs)"

definition parses_usb_add :: bool where
  "parses_usb_add \<longleftrightarrow>
     (case parse (nul_terminated [''add@/devices/pci0000:00/0000:00:10.0/usb3/3-3'', ''ACTION=add'',
             ''DEVPATH=/devices/pci0000:00/0000:00:10.0/usb3/3-3'', ''SUBSYSTEM=usb'', ''MAJOR=189'', ''MINOR=258'',
             ''DEVNAME=bus/usb/003/003'', ''DEVTYPE=usb_device'', ''PRODUCT=1a86/7523/264'', ''TYPE=255/0/0'', ''BUSNUM=003'',
             ''DEVNUM=003'', ''SEQNUM=5123'']) of
        Some ev \<Rightarrow> ue_action ev = ''add'' \<and> ue_devpath ev = ''/devices/pci0000:00/0000:00:10.0/usb3/3-3'' \<and>
          ue_vars ev ''PRODUCT'' = Some ''1a86/7523/264'' \<and> affects_usb_devices ev
      | None \<Rightarrow> False)"

definition ignores_interfaces_and_other_subsystems :: bool where
  "ignores_interfaces_and_other_subsystems \<longleftrightarrow>
     (case parse (nul_terminated [''bind@/devices/x/usb3/3-3/3-3:1.0'', ''ACTION=bind'', ''SUBSYSTEM=usb'', ''DEVTYPE=usb_interface'']) of
        Some iface \<Rightarrow> \<not> affects_usb_devices iface | None \<Rightarrow> False) \<and>
     (case parse (nul_terminated [''add@/devices/virtual/tty/ttyUSB0'', ''ACTION=add'', ''SUBSYSTEM=tty'']) of
        Some tty \<Rightarrow> \<not> affects_usb_devices tty | None \<Rightarrow> False)"

definition rejects_udev_messages :: bool where
  "rejects_udev_messages \<longleftrightarrow> parse (''libudev'' @ [NUL, CHR 0xFE, CHR 0xED, CHR 0xCA, CHR 0xFE]) = None"

lemma add_test: "parses_usb_add"
  by code_simp

lemma other_test: "ignores_interfaces_and_other_subsystems"
  by code_simp

lemma udev_test: "rejects_udev_messages"
  by code_simp

section \<open>Launcher sockets\<close>

definition VMI_UID :: string where
  "VMI_UID = ''8d3f6a7e-2b1c-4c55-9d0e-3f1a2b3c4d5e''"

definition POD_UID :: string where
  "POD_UID = ''0659178d-bb0e-41ef-a3be-d486a723f441''"

text \<open>The sockets that listen, the processes under the fake \<open>proc\<close> and their cgroup files.\<close>

definition fake_host :: "string list \<Rightarrow> string list \<Rightarrow> (string \<times> string) list \<Rightarrow> HostFs" where
  "fake_host sockets pids files =
     \<lparr>hf_is_socket = (\<lambda>p. p \<in> set sockets), hf_read_dir = (\<lambda>d. if d = ''/tmp/proc'' then Some (map Some pids) else None),
      hf_read_to_string = map_of files\<rparr>"

definition locates_and_connects_to_long_kubelet_path :: bool where
  "locates_and_connects_to_long_kubelet_path \<longleftrightarrow>
     (let locator = \<lparr>sl_kubelet_root = ''/tmp/var/lib/kubelet'', sl_proc_root = None\<rparr>;
          path = hd (candidates locator VMI_UID [POD_UID] 2); host = fake_host [path] [] []
      in MAX_SUN_PATH < length path \<and>
         locate host locator VMI_UID [POD_UID] 2 = Some path \<and> locate host locator VMI_UID [POD_UID] 1 = None \<and>
         (case connect_path path of ViaDirFd parent name \<Rightarrow> path_join parent name = path \<and> length name \<le> MAX_SUN_PATH | _ \<Rightarrow> False))"

text \<open>\<open>fake_process\<close>: the socket of a process and its cgroup file.\<close>

definition fake_process :: "string \<Rightarrow> string \<Rightarrow> string \<times> (string \<times> string)" where
  "fake_process pid cgroup =
     (let base = path_join ''/tmp/proc'' pid
      in (path_join (path_join (path_join base ''root/var/run/kubevirt-private'') VMI_UID) ''virt-usbredir-0'',
          (path_join base ''cgroup'', cgroup)))"

definition falls_back_to_launcher_processes_only :: bool where
  "falls_back_to_launcher_processes_only \<longleftrightarrow>
     (let locator = \<lparr>sl_kubelet_root = ''/tmp/kubelet'', sl_proc_root = Some ''/tmp/proc''\<rparr>;
          (decoy, decoy_group) = fake_process ''1000''
            (''0::/kubepods.slice/kubepods-besteffort.slice/kubepods-besteffort-pod11111111_2222_3333_4444_555555555555.slice'' @
             ''/cri-containerd-abc.scope'');
          (socket, launcher_group) = fake_process ''4242''
            (''0::/kubepods.slice/kubepods-burstable.slice/kubepods-burstable-pod'' @
             map (\<lambda>c. if c = CHR ''-'' then CHR ''_'' else c) POD_UID @ ''.slice/cri-containerd-def.scope'');
          before = fake_host [decoy] [''self'', ''1000''] [decoy_group];
          after = fake_host [decoy, socket] [''self'', ''1000'', ''4242''] [decoy_group, launcher_group]
      in locate before locator VMI_UID [POD_UID] 0 = None \<and> locate before locator VMI_UID [] 0 = None \<and>
         locate after locator VMI_UID [POD_UID] 0 = Some socket)"

definition cgroupfs_driver_pod_uids_match :: bool where
  "cgroupfs_driver_pod_uids_match \<longleftrightarrow>
     (let host = fake_host [] [] [(''/tmp/cgroup'', ''0::/kubepods/burstable/pod'' @ POD_UID @ ''/0123abcd'')]
      in process_in_pods host ''/tmp'' [POD_UID] \<and> \<not> process_in_pods host ''/tmp'' [''11111111-2222-3333-4444-555555555555''] \<and>
         \<not> process_in_pods host ''/tmp'' [[]])"

lemma long_path_test: "locates_and_connects_to_long_kubelet_path"
  by code_simp

lemma launcher_process_test: "falls_back_to_launcher_processes_only"
  by code_simp

lemma cgroupfs_test: "cgroupfs_driver_pod_uids_match"
  by code_simp

section \<open>Handshake\<close>

text \<open>A codec in place of hex under which a code is its own text, except that \<open>zz\<close> is no code.\<close>

definition plain_lib :: Lib where
  "plain_lib = sample_lib\<lparr>hex_encode := \<lambda>b. b, hex_decode := \<lambda>s. if s = ''zz'' then None else Some s\<rparr>"

definition test_claim_ref :: ClaimRef where
  "test_claim_ref = \<lparr>cr_namespace = ''default'', cr_name = ''usb-claim'', cr_uid = ''4f0c''\<rparr>"

definition test_hello :: "string \<Rightarrow> Hello" where
  "test_hello device = hello_new plain_lib ''0123456789abcdef'' ''secret'' device test_claim_ref 1000"

definition valid_hello_verifies :: bool where
  "valid_hello_verifies \<longleftrightarrow> verify plain_lib (test_hello ''usb-1a86-7523-usb-serial-1234abcd'') ''secret'' 1010 = Inr ()"

definition tampering_and_wrong_key_are_rejected :: bool where
  "tampering_and_wrong_key_are_rejected \<longleftrightarrow>
     (let hello = test_hello ''dev-a''
      in verify plain_lib hello ''other'' 1000 = Inl Mac \<and>
         verify plain_lib (hello\<lparr>he_device := ''dev-b''\<rparr>) ''secret'' 1000 = Inl Mac \<and>
         verify plain_lib (hello\<lparr>he_claim := (he_claim hello)\<lparr>cr_uid := ''other''\<rparr>\<rparr>) ''secret'' 1000 = Inl Mac \<and>
         verify plain_lib (hello\<lparr>he_mac := ''zz''\<rparr>) ''secret'' 1000 = Inl Mac)"

definition field_boundaries_are_unambiguous :: bool where
  "field_boundaries_are_unambiguous \<longleftrightarrow>
     (let claim = (\<lambda>ns. \<lparr>cr_namespace = ns, cr_name = [], cr_uid = []\<rparr>);
          a = (hello_new plain_lib ''0123456789abcdef'' ''k'' ''ab'' (claim ''c'') 1)\<lparr>he_nonce := ''n''\<rparr>;
          b = (hello_new plain_lib ''fedcba9876543210'' ''k'' ''a'' (claim ''bc'') 1)\<lparr>he_nonce := ''n''\<rparr>
      in mac_for plain_lib a ''k'' \<noteq> mac_for plain_lib b ''k'')"

definition stale_hello_is_rejected :: bool where
  "stale_hello_is_rejected \<longleftrightarrow>
     verify plain_lib (test_hello ''dev'') ''secret'' (1000 + word_of_int MAX_CLOCK_SKEW_SECS + 1) = Inl Expired"

definition nonce_replay_is_rejected :: bool where
  "nonce_replay_is_rejected \<longleftrightarrow>
     (let (first, c1) = check_and_insert Map.empty ''n1'' 100 100; (again, c2) = check_and_insert c1 ''n1'' 100 101;
          (later, _) = check_and_insert c2 ''n1'' 100 (100 + word_of_int MAX_CLOCK_SKEW_SECS + 1)
      in first = Inr () \<and> again = Inl Replay \<and> later = Inr ())"

definition line_reader_does_not_over_read :: bool where
  "line_reader_does_not_over_read \<longleftrightarrow>
     (case read_line parse_ok \<lparr>cn_arrived = ok_line @ NEWLINE # ''USBREDIR-BYTES'', cn_then = UnexpectedEof\<rparr> of
        (Inr reply, rest) \<Rightarrow> reply = \<lparr>re_ok = True, re_error = None\<rparr> \<and> cn_arrived rest = ''USBREDIR-BYTES''
      | (Inl _, _) \<Rightarrow> False)"

lemma valid_hello_test: "valid_hello_verifies"
  by code_simp

lemma tampering_test: "tampering_and_wrong_key_are_rejected"
  unfolding tampering_and_wrong_key_are_rejected_def Let_def by (intro conjI; code_simp)

lemma boundaries_test: "field_boundaries_are_unambiguous"
  by code_simp

lemma stale_hello_test: "stale_hello_is_rejected"
  by code_simp

lemma nonce_replay_test: "nonce_replay_is_rejected"
  by code_simp

lemma line_test: "line_reader_does_not_over_read"
  by code_simp

section \<open>Device patterns and JSON\<close>

definition pattern_info :: "string \<Rightarrow> string \<Rightarrow> UsbDeviceInfo" where
  "pattern_info vid pid =
     \<lparr>ui_port_path = ''1-1'', ui_bus_num = 1, ui_dev_num = 2, ui_vendor_id = vid, ui_product_id = pid, ui_serial = None,
      ui_manufacturer = None, ui_product = None, ui_bcd_device = None, ui_device_class = 0, ui_interface_classes = [], ui_speed = None\<rparr>"

definition device_patterns :: bool where
  "device_patterns \<longleftrightarrow>
     (case pattern_from_str sample_lib ''abcd:*'' of
        Inr p \<Rightarrow> pattern_matches p (pattern_info ''abcd'' ''0601'') \<and> \<not> pattern_matches p (pattern_info ''1a86'' ''7523'') | _ \<Rightarrow> False) \<and>
     (case pattern_from_str sample_lib ''*:7523'' of Inr p \<Rightarrow> pattern_matches p (pattern_info ''1a86'' ''7523'') | _ \<Rightarrow> False) \<and>
     (case pattern_from_str sample_lib ''1234:5678'' of Inr p \<Rightarrow> pattern_matches p (pattern_info ''1234'' ''5678'') | _ \<Rightarrow> False) \<and>
     isl (pattern_from_str sample_lib ''1234'') \<and> isl (pattern_from_str sample_lib ''xx:5678'')"

definition strips_nulls_recursively :: bool where
  "strips_nulls_recursively \<longleftrightarrow>
     without_nulls (JObject [(''a'', JNull), (''b'', JObject [(''c'', JNull), (''d'', JNumber ''1'')]), (''e'', JArray [JNull])]) =
     JObject [(''b'', JObject [(''d'', JNumber ''1'')]), (''e'', JArray [JNull])]"

lemma patterns_test: "device_patterns"
  by code_simp

lemma nulls_test: "strips_nulls_recursively"
  by code_simp

end
