(* ===== verification/Spec2Isabelle.thy ===== *)
theory Spec2Isabelle
  imports EndToEnd ControlLoop Heartbeat AgentRun ExportTimed TestsController TestsKubevirt TestsIdentity TestsAgent
begin

text \<open>
  A verification library for \<open>kubevirt-atomic-usb\<close>, which attaches USB devices plugged into any node of a Kubernetes
  cluster to KubeVirt virtual machines anywhere in it.

  \<^bold>\<open>The program.\<close> A controller (\<open>src/controller.rs\<close>) and, on every node, an agent with three parts that run
  side by side. The agent's discovery (\<open>src/agent/discovery.rs\<close>) scans sysfs (\<open>src/sysfs.rs\<close>), gives
  each device a name that follows it from node to node (\<open>src/identity.rs\<close>) and publishes it as a \<open>UsbDevice\<close> object
  with a heartbeat. The controller leases devices to \<open>UsbDeviceClaim\<close> objects (\<open>src/crd.rs\<close>), gives the claims of a
  virtual machine their usbredir slots, reports their phases, and resumes a machine that was started paused once its devices are in
  place. The agent's attacher (\<open>src/agent/attacher.rs\<close>), on the node where the machine runs, finds QEMU's socket
  (\<open>src/launcher.rs\<close>) and connects it to the agent's exporter (\<open>src/agent/exporter.rs\<close>) on the node of the device, with an authenticated
  handshake (\<open>src/proto.rs\<close>); the exporter serves the device by a \<open>usbredirect\<close> process. The parts share no memory except the list
  of local devices that the discovery hands to the exporter; they meet in the objects of the API server and
  in the handshake.

  \<^bold>\<open>How it is modelled.\<close> Structures are records and enumerations datatypes, with the fields and cases of the source, prefixed
  per type. Strings are the bytes of their UTF-8 encoding; \<open>i64\<close>, \<open>u64\<close>, \<open>u32\<close> and \<open>u16\<close> are
  words where the code computes with them and overflow matters, times of the wall clock are whole seconds. An error is a value of a sum type and a possible panic a value of its own
  (\<open>Panic\<close>, \<open>NoDecision\<close>, or \<^const>\<open>None\<close>), so that its absence is a theorem. A \<open>BTreeMap\<close> is a sorted association list, a \<open>HashMap\<close> a map or, where
  it is walked, a sorted list. Code outside the repository is an argument: the functions of \<open>sha2\<close>, \<open>hmac\<close>, \<open>hex\<close> and \<open>jiff\<close> are
  the record \<open>Lib\<close> (theory \<open>Externs\<close>), the API server is an arbitrary function from the calls made so far to the reply (theories \<open>Api\<close>, \<open>Discovery\<close>,
  \<open>Startup\<close>), file systems are functions from paths (theories \<open>Sysfs\<close>, \<open>Launcher\<close>), and what the network, QEMU, the processes and the other
  tasks do is part of the events or the environment (theories \<open>Exporter\<close>, \<open>Attacher\<close>, \<open>Waiting\<close>). What a theorem needs of these
  is a named contract in its hypotheses: \<open>hex_contract\<close>, \<open>sha256_contract\<close>, \<open>time_contract\<close>, \<open>cas_contract\<close> (optimistic concurrency: a patch under a
  version succeeds only on the object of that version), \<open>genuine\<close> (a cache shows objects the server once had, possibly old ones) and
  \<open>merge_patch_contract\<close> (a merge patch leaves the members it does not have). Each is satisfied by the
  concrete instance a witness uses. Where a definition goes on from what the API server or the \<open>tokio\<close> channel of the change counter did (the merges of theory \<open>Api\<close>, the report of
  an attacher's task, the channel of theory \<open>Watch\<close>), it follows RFC 7386 and the documentation of \<open>tokio\<close>.

  \<^bold>\<open>Theories.\<close>
  \<^item> \<open>Prelude\<close>, \<open>RustStd\<close>, \<open>Utf8\<close>, \<open>Externs\<close>: generic lemmas, the parts of Rust's standard library the sources use, UTF-8, and the
    third-party functions. \<open>Prelude\<close> has the locale \<open>grant_pass\<close> of loops that hand out resources one client at a time,
    \<open>RustStd\<close> the locale \<open>ordered_map\<close> of the tree maps.
  \<^item> \<open>Identity\<close>, \<open>Names\<close>, \<open>Assign\<close> (\<open>identity.rs\<close>): slugs, names and labels; names are DNS subdomains and readable ones
    injective; \<open>assign\<close> decides for every device, exclusively up to the port fallback, without ambiguity, stably and with a tie-break between nodes.
  \<^item> \<open>Crd\<close>, \<open>Kubevirt\<close> (\<open>crd.rs\<close>, \<open>util.rs\<close>, \<open>kubevirt.rs\<close>): the resources, availability, selectors, the views of KubeVirt's JSON, owner references.
  \<^item> \<open>Slots\<close>, \<open>Phase\<close>, \<open>BootHold\<close>, \<open>Api\<close>, \<open>Controller\<close> (\<open>controller.rs\<close>): slot allocation in three passes, the phase cascade, the
    boot-hold decision and its reports, the calls of the controller, and a pass as a whole. \<open>Leases\<close>, \<open>LeaseSafety\<close> and \<open>Resumes\<close> show what a pass
    does to leases and which machines it resumes.
  \<^item> \<open>Proto\<close> (\<open>proto.rs\<close>, \<open>read_psk\<close> of \<open>watch.rs\<close>): the handshake; its locale \<open>replay_guard\<close> is the contract of a nonce cache.
  \<^item> \<open>Agent\<close>, \<open>Sysfs\<close>, \<open>Uevent\<close>, \<open>UeventSocket\<close>, \<open>Launcher\<close> (\<open>agent/mod.rs\<close>, \<open>sysfs.rs\<close>, \<open>uevent.rs\<close>, \<open>launcher.rs\<close>): configuration, scanning, kernel
    events and the system calls of their socket, QEMU's sockets.
  \<^item> \<open>Watch\<close> (\<open>watch.rs\<close>): the change counter, the reflectors and \<open>wait_for_change\<close>; the locale \<open>notifier\<close> is the contract of the counter, and over all
    interleavings of reflectors and loop no change goes unnoticed.
  \<^item> \<open>ControlLoop\<close>, \<open>DiscoveryRun\<close>, \<open>AgentRun\<close> (\<open>run\<close> of \<open>controller.rs\<close>, \<open>agent/discovery.rs\<close>, \<open>agent/exporter.rs\<close> and \<open>agent/mod.rs\<close>, \<open>main\<close>): the
    processes as a whole, start-up, endless loops and their end. Over whole runs an instance is resumed at most once, a device keeps its name, no scan and no
    pass panics, and unplugging a device ends its sessions. \<open>Heartbeat\<close> follows one device through the rounds of the scan loop and
    shows that the controller does not report it lost.
  \<^item> \<open>Exporter\<close>, \<open>ExportSafety\<close> (\<open>agent/exporter.rs\<close>): the handlers as a step relation over all interleavings; exclusion, authorization, replays.
    \<open>ExportTimed\<close> adds time and the timeouts of the code: no connection hangs while it is set up, and a cancelled session lets go of its device.
  \<^item> \<open>Discovery\<close> (\<open>agent/discovery.rs\<close>): a scan as a whole, its writes, recovery after a restart.
  \<^item> \<open>Attacher\<close>, \<open>AttachSafety\<close> (\<open>agent/attacher.rs\<close>): the wanted sessions, the loop over the tasks, an attempt, the greeting, reports, the
    life of a task; no task is forgotten, at most one live task per device, the last word of a task.
  \<^item> \<open>Waiting\<close> (\<open>wait_for_usb_event\<close>), \<open>Startup\<close> (\<open>ensure_psk_secret\<close>, the \<open>scan\<close> command, configuration): what surrounds the loops.
  \<^item> \<open>LeaseHistory\<close>: the versions of a device's object under all writes of all components refine a lock (locale \<open>lock_refinement\<close>,
    interpreted on the model's writes). \<open>EndToEnd\<close> and this theory: the handshake from attacher to exporter, and from the reports of a session to the phase of its
    claim and the resume of its machine.
  \<^item> \<open>TestsController\<close>, \<open>TestsKubevirt\<close>, \<open>TestsIdentity\<close>, \<open>TestsAgent\<close>: the unit tests of the repository as propositions about the model, each
    evaluated by the kernel, as evidence that the definitions compute what the code does. The test of names for hostile input is proved for all serial numbers.

  \<^bold>\<open>Loops and bounds.\<close> All definitions are total: loops of the code are recursions over the data they walk, or over the list of what arrives from outside
  (greeting rounds, turns of a task, kernel events, events of the exporter, rounds of the control and scan loops, results of accepting connections and of reading the
  socket), so that a loop that has not ended yet is a list that has run
  out; no definition uses fuel. A connection to the exporter is set up or refused within 45.1 seconds and the time the API and one write take, and the process of a cancelled session is
  gone after five seconds and a write; a wait for kernel events
  ends two and a half seconds after its interval at the latest.

  \<^bold>\<open>Not modelled.\<close> Parsing the command line (declarations for \<open>clap\<close>; the model starts from the parsed arguments), logging, the installation of signal handlers (that a signal has
  come is an argument), and the variant of the kernel event socket for systems without one. Inside the reflectors, how the client library watches the API and retries is its
  own matter: the model has its stream of events and errors. Generated schemas and printer columns are declarations; their text is an argument of the \<open>crds\<close> command. JSON is modelled where it is read as
  untyped data and as the absence or presence of members in merge patches; the serialisation of the typed structures is \<open>serde\<close>'s. The bytes of a usbredir stream are
  copied, not looked at.
\<close>

section \<open>Properties across components\<close>

text \<open>
  Property C6: the three parts fit together. When the controller has leased a device to a claim, the request that the claim's
  session on another node sends is authorized by the exporter, for the device it is for, provided both read the
  same key, their clocks differ by at most two minutes, the nonce has not been used and the device is plugged in there.
\<close>

theorem session_request_is_authorized:
  assumes "hex_contract L" and "desired_session ctx claim = Some (uid, spec)"
    and "attempt L fs ctx spec now env = Some (reports, Some hello, r)"
    and "read_psk (cfg_psk_file cfg) key_file = read_psk (cfg_psk_file (ax_config ctx)) (ae_key_file env)"
    and "clock_skew clock (word_of_int now) \<le> MAX_CLOCK_SKEW_SECS"
    and "seen (hex_encode L (ae_random env)) = None"
    and "map_of devices (ss_device spec) = Some d"
    and "get_opt (ss_device spec) = Inr (Some obj)" and "st_attached_to (status_ref obj) = Some (lease_for L t claim)"
  shows "fst (authorize L show_err cfg key_file clock devices get_opt hello seen) = Inr d"
  using assms by (rule attempt_authorized)

text \<open>
  Property C7: a claim's phase follows its session. When the reports of a session's task have reached the API and no other node has connected, the
  controller, seeing the claim with an available device and the machine's running instance, reports \<open>Attached\<close> if the last report was
  \<open>Connected\<close> and \<open>Connecting\<close> otherwise, and counts the claim as ready to boot exactly if the
  last report was \<open>Connected\<close> or that the device awaits the resume.
\<close>

theorem phase_follows_last_report:
  assumes "desired_session ctx claim = Some (uid, spec)"
    and "vmi_in_store ctx (cr_namespace (ss_claim spec)) (ss_vm_name spec) = Some vmi"
    and "rs \<noteq> []" and "list_all (delivered (ax_config ctx)) rs" and "fst (last rs) = (state, message, awaiting)"
    and "claim_connection claim' = snd (make_reports L (ax_config ctx) spec rs (reporter_new L t0, old))"
    and "device_name_any d = ss_device spec" and "is_available L d now lost" and "vm_present vm (Some vmi)"
    and "phase = fst (compute_phase (phase_inputs L now lost claim' None (Some d) vm (Some vmi) (Some (ss_slot spec))))"
  shows "phase = (if state = ConnConnected then Attached else Connecting) \<and>
    claim_ready (claim_previous claim') phase (Some vmi) (Some (ss_device spec)) (Some (ss_slot spec)) = (state = ConnConnected \<or> awaiting)"
  unfolding assms(10) by (rule reported_phase [OF assms(1-9)])

text \<open>
  Property C5: a machine that was started paused is resumed once its device is in place. When a session has connected to the exporter
  and to QEMU and waits for the greeting of the paused machine, and its reports have reached the API, the controller's claim
  is ready and the boot-hold decision is to resume the machine, if that claim is the only one that holds it.
\<close>

theorem paused_vm_is_resumed_when_device_waits:
  assumes "desired_session ctx claim = Some (uid, spec)"
    and "vmi_in_store ctx (cr_namespace (ss_claim spec)) (ss_vm_name spec) = Some vmi"
    and "attempt L fs ctx spec t env = Some (reports, hello, None)" and "ae_greeting env \<noteq> []"
    and "map fst rs = earlier @ reports" and "list_all (delivered (ax_config ctx)) rs"
    and "claim_connection claim' = snd (make_reports L (ax_config ctx) spec rs (reporter_new L t0, old))"
    and "device_name_any d = ss_device spec" and "is_available L d now lost" and "vm_present vm (Some vmi)"
    and "can_be_held i vmi" and "holding_claims i = [c]"
    and "bc_ready c = claim_ready (claim_previous claim')
      (fst (compute_phase (phase_inputs L now lost claim' None (Some d) vm (Some vmi) (Some (ss_slot spec)))))
      (Some vmi) (Some (ss_device spec)) (Some (ss_slot spec))"
  shows "\<exists>reason. decide_boot_hold L i = Release reason"
proof -
  have last: "reports \<noteq> []" "snd (snd (last reports))" using waiting_attempt_awaits [OF assms(3,4)] by auto
  with assms(5) have rs: "rs \<noteq> []" by auto
  then have "fst (last rs) = last (map fst rs)" by (simp add: last_map)
  then have shown: "fst (last rs) = last reports" using assms(5) last(1) by simp
  obtain state message where "last reports = (state, message, True)" using last(2) by (cases "last reports") auto
  with shown have "fst (last rs) = (state, message, True)" by simp
  from conjunct2 [OF reported_phase [OF assms(1,2) rs assms(6) this assms(7-10)]] have "bc_ready c"
    unfolding assms(13) by (simp only: simp_thms)
  with ready_claim_released [OF assms(11,12)] show ?thesis by blast
qed

section \<open>A small cluster at work\<close>

text \<open>
  The sample claim of theory \<open>AttachSafety\<close>, with a device that is available on another node and a machine that has a launcher pod on this one.
\<close>

definition demo_device :: UsbDevice where
  "demo_device = sample_usb_device\<lparr>ud_status := Some (EMPTY_STATUS\<lparr>st_phase := Some Available, st_node := Some ''n2'',
     st_exporter := Some \<lparr>ee_address = ''10.0.0.2'', ee_port = 7575, ee_pod = ''agent-2''\<rparr>, st_last_seen := Some (rfc3339 sample_lib 990),
     st_attached_to := Some (lease_for sample_lib 900 sample_claim)\<rparr>)\<rparr>"

definition demo_vmi :: "bool \<Rightarrow> DynamicObject" where
  "demo_vmi paused = \<lparr>do_metadata = sample_meta ''vm'' ''i1'',
     do_data = JObject [(''spec'', JObject [(''domain'', JObject [(''devices'', JObject [(''clientPassthrough'', JObject [])])]),
         (''startStrategy'', JString ''Paused'')]),
       (''status'', JObject [(''activePods'', JObject [(''p1'', JString ''n1'')]),
         (''conditions'', JArray [JObject [(''status'', JString (if paused then ''True'' else ''False'')), (''type'', JString ''Paused'')]]),
         (''nodeName'', JString ''n1''), (''phase'', JString ''Running'')])]\<rparr>"

definition demo_context :: Context where
  "demo_context = \<lparr>ax_config = sample_cfg, ax_claims = [sample_claim], ax_devices = [demo_device], ax_vmis = [demo_vmi True]\<rparr>"

definition demo_host :: HostFs where
  "demo_host = \<lparr>hf_is_socket = (\<lambda>_. True), hf_read_dir = (\<lambda>_. None), hf_read_to_string = (\<lambda>_. None)\<rparr>"

definition demo_env :: AttemptEnv where
  "demo_env = \<lparr>ae_key_file = Inr sample_psk, ae_random = ''random'', ae_connect = TcpConnected, ae_send = None,
     ae_answer = Answered \<lparr>re_ok = True, re_error = None\<rparr>, ae_vm_connect = None, ae_greeting = [(True, ReadTimedOut)], ae_forward = None,
     ae_attached_for = 0\<rparr>"

lemma demo_config [simp]: "ax_config demo_context = sample_cfg"
  by (simp add: demo_context_def)

lemma demo_lease: "st_attached_to (status_ref demo_device) = Some (lease_for sample_lib 900 sample_claim)"
  by (simp add: demo_device_def status_ref_def)

lemma demo_session: "desired_session demo_context sample_claim = Some (''c1'', sample_spec)"
  by code_simp

lemma demo_checks: "\<exists>exporter node socket. attempt_checks sample_lib demo_host demo_context sample_spec 1000 = Some (Inr (exporter, node, socket))"
proof -
  have "case attempt_checks sample_lib demo_host demo_context sample_spec 1000 of Some (Inr _) \<Rightarrow> True | _ \<Rightarrow> False" by code_simp
  then show ?thesis by (auto split: option.splits sum.splits)
qed

lemma demo_attempt: "\<exists>reports hello. attempt sample_lib demo_host demo_context sample_spec 1000 demo_env = Some (reports, Some hello, None)"
proof -
  obtain exporter node socket where checks: "attempt_checks sample_lib demo_host demo_context sample_spec 1000 = Some (Inr (exporter, node, socket))"
    using demo_checks by blast
  have "read_psk (cfg_psk_file sample_cfg) (Inr sample_psk) = Inr sample_psk" by code_simp
  then show ?thesis
    by (simp add: attempt_def checks attempt_io_def request_exporter_def splice_vm_def demo_env_def Let_def)
qed

theorem session_request_is_authorized_witness:
  "\<exists>reports hello. attempt sample_lib demo_host demo_context sample_spec 1000 demo_env = Some (reports, Some hello, None) \<and>
     fst (authorize sample_lib sample_show sample_cfg (Inr sample_psk) 1010 [(''usb-x'', sample_info)] (\<lambda>_. Inr (Some demo_device)) hello Map.empty) = Inr sample_info"
proof -
  obtain reports hello where sent: "attempt sample_lib demo_host demo_context sample_spec 1000 demo_env = Some (reports, Some hello, None)"
    using demo_attempt by blast
  have "fst (authorize sample_lib sample_show sample_cfg (Inr sample_psk) 1010 [(''usb-x'', sample_info)] (\<lambda>_. Inr (Some demo_device)) hello Map.empty) = Inr sample_info"
    by (rule session_request_is_authorized [OF hex_sample demo_session sent _ _ _ _ _ demo_lease])
      (simp_all add: demo_env_def sample_spec_def sample_clocks)
  with sent show ?thesis by blast
qed

text \<open>The claim as the controller sees it when the session's reports have been written.\<close>

definition demo_reported :: "(report \<times> report_env) list \<Rightarrow> UsbDeviceClaim" where
  "demo_reported rs = sample_claim\<lparr>uc_status := Some (default_claim_status\<lparr>
     ucs_connection := snd (make_reports sample_lib sample_cfg sample_spec rs (reporter_new sample_lib 1000, None))\<rparr>)\<rparr>"

lemma demo_reported_connection:
  "claim_connection (demo_reported rs) = snd (make_reports sample_lib sample_cfg sample_spec rs (reporter_new sample_lib 1000, None))"
  by (simp add: demo_reported_def claim_connection_def)

definition demo_instance :: VmiInfo where
  "demo_instance = the (vmi_from_object (demo_vmi True))"

lemma demo_instance_in_store: "vmi_in_store demo_context (cr_namespace (ss_claim sample_spec)) (ss_vm_name sample_spec) = Some demo_instance"
  by code_simp

lemma demo_present: "vm_present None (Some demo_instance)"
  by code_simp

lemma demo_device_fine: "device_name_any demo_device = ss_device sample_spec" "is_available sample_lib demo_device 1010 90"
  by code_simp+

theorem phase_follows_last_report_witness:
  "fst (compute_phase (phase_inputs sample_lib 1010 90 (demo_reported [((ConnConnected, ''attached'', False), 1001, None, Inr ())])
     None (Some demo_device) None (Some demo_instance) (Some 0))) = Attached"
  using phase_follows_last_report [OF demo_session demo_instance_in_store, of "[((ConnConnected, ''attached'', False), 1001, None, Inr ())]"
      ConnConnected "''attached''" False, OF _ _ _ demo_reported_connection [unfolded demo_config [symmetric]] demo_device_fine demo_present refl]
  by (simp add: delivered_def other_node_connected_def sample_spec_def)

definition demo_hold :: "bool \<Rightarrow> BootHoldInputs" where
  "demo_hold ready = \<lparr>bi_vm = None, bi_vmi = Some demo_instance,
     bi_claims = [\<lparr>bc_name = ''radio'', bc_ready = ready, bc_invalid = False, bc_timeout_seconds = 300, bc_current = None\<rparr>],
     bi_already_released = False, bi_now = 1010\<rparr>"

lemma demo_held: "can_be_held (demo_hold ready) demo_instance"
proof -
  have "starts_paused None (Some demo_instance) \<and> vi_paused demo_instance \<and> \<not> vi_deleting demo_instance" by code_simp
  then show ?thesis by (simp add: can_be_held_def demo_hold_def holding_claims_def)
qed

theorem paused_vm_is_resumed_when_device_waits_witness:
  "\<exists>reports hello reason. attempt sample_lib demo_host demo_context sample_spec 1000 demo_env = Some (reports, Some hello, None) \<and>
     decide_boot_hold sample_lib (demo_hold (claim_ready (claim_previous (demo_reported (map (\<lambda>r. (r, 1001, None, Inr ())) reports)))
       (fst (compute_phase (phase_inputs sample_lib 1010 90 (demo_reported (map (\<lambda>r. (r, 1001, None, Inr ())) reports)) None (Some demo_device) None
          (Some demo_instance) (Some (ss_slot sample_spec))))) (Some demo_instance) (Some (ss_device sample_spec)) (Some (ss_slot sample_spec)))) = Release reason"
proof -
  obtain reports hello where sent: "attempt sample_lib demo_host demo_context sample_spec 1000 demo_env = Some (reports, Some hello, None)"
    using demo_attempt by blast
  let ?rs = "map (\<lambda>r. (r, 1001, None, Inr ())) reports"
  have "ae_greeting demo_env \<noteq> []" "map fst ?rs = [] @ reports" "list_all (delivered (ax_config demo_context)) ?rs"
    by (simp_all add: demo_env_def comp_def list_all_iff delivered_def other_node_connected_def)
  from paused_vm_is_resumed_when_device_waits [OF demo_session demo_instance_in_store sent this
      demo_reported_connection [unfolded demo_config [symmetric]] demo_device_fine demo_present demo_held]
  show ?thesis using sent by (simp add: demo_hold_def holding_claims_def)
qed

end
